(* ===== verification/Prelude.thy ===== *)
theory Prelude
  imports Main "HOL-Library.Word" "HOL-Library.Sublist" "HOL-Library.List_Lexorder"
begin

text \<open>
  What the component theories share: the named collections of simplification rules, two
  interfaces for encodings of strings (\<open>prefix_code\<close>, \<open>codec\<close>), an interface for
  invariants of state machines (\<open>state_machine\<close>), results with errors, and generic lemmas on lists,
  prefixes and finite sets.
\<close>

named_theorems js_eval \<open>definitions that evaluate JavaScript string operations\<close>
named_theorems inv_simps \<open>definitions of the well-formedness predicates\<close>

section \<open>Encodings of sequences\<close>

text \<open>
  A prefix code gives every symbol a non-empty code word, no code word being a prefix of another.
  A string is then encoded symbol by symbol, and comparing encodings is comparing strings.
\<close>

locale prefix_code =
  fixes enc :: "'a \<Rightarrow> 'b list"
  assumes enc_nonempty: "enc a \<noteq> []"
    and enc_prefix_free: "prefix (enc a) (enc b) \<Longrightarrow> a = b"
begin

lemma encode_mono: "prefix s t \<Longrightarrow> prefix (concat (map enc s)) (concat (map enc t))"
  by (auto simp: prefix_def)

lemma encode_prefixD:
  "prefix (concat (map enc s)) (concat (map enc t)) \<Longrightarrow> prefix s t"
proof (induction s arbitrary: t)
  case Nil
  then show ?case by simp
next
  case (Cons a s)
  show ?case
  proof (cases t)
    case Nil
    with Cons.prems show ?thesis by (simp add: enc_nonempty)
  next
    case (Cons b t')
    with Cons.prems have pre: "prefix (enc a @ concat (map enc s)) (enc b @ concat (map enc t'))"
      by simp
    then have "prefix (enc a) (enc b) \<or> prefix (enc b) (enc a)"
      by (metis append_prefixD prefixI prefix_same_cases)
    then have "a = b" using enc_prefix_free by blast
    with pre Cons.IH Cons show ?thesis by simp
  qed
qed

lemma encode_prefix_iff:
  "prefix (concat (map enc s)) (concat (map enc t)) \<longleftrightarrow> prefix s t"
  using encode_mono encode_prefixD by blast

lemma encode_inject: "concat (map enc s) = concat (map enc t) \<longleftrightarrow> s = t"
  by (metis encode_prefix_iff prefix_order.order_antisym prefix_order.order_refl)

end

text \<open>
  A codec has in addition a decoder that reads one code word at a time. Its code is a
  prefix code, and decoding inverts encoding.
\<close>

locale codec =
  fixes enc :: "'a \<Rightarrow> 'b list" and dec :: "'b list \<Rightarrow> 'a list"
  assumes dec_Nil: "dec [] = []"
    and dec_step: "dec (enc a @ xs) = a # dec xs"
begin

lemma dec_encode: "dec (concat (map enc s)) = s"
  by (induction s) (simp_all add: dec_Nil dec_step)

lemma dec_encode_append: "dec (concat (map enc s) @ xs) = s @ dec xs"
  by (induction s) (simp_all add: dec_step)

end

sublocale codec \<subseteq> prefix_code enc
proof
  show "enc a \<noteq> []" for a
    using dec_step [of a "[]"] by (auto simp: dec_Nil)
  show "prefix (enc a) (enc b) \<Longrightarrow> a = b" for a b
  proof -
    assume "prefix (enc a) (enc b)"
    then obtain ys where ys: "enc b = enc a @ ys" by (auto simp: prefix_def)
    have "b # dec [] = dec (enc b @ [])" by (rule dec_step [symmetric])
    also have "enc b @ [] = enc a @ ys" by (simp only: ys append_Nil2)
    also have "dec (enc a @ ys) = a # dec ys" by (rule dec_step)
    finally show "a = b" by simp
  qed
qed

section \<open>State machines\<close>

text \<open>
  A state machine is a set of initial states, a step relation and an invariant that holds
  initially and is kept by every step. The invariant then holds in every reachable state.
\<close>

locale state_machine =
  fixes init :: "'s \<Rightarrow> bool" and step :: "'s \<Rightarrow> 's \<Rightarrow> bool" and inv :: "'s \<Rightarrow> bool"
  assumes init_inv: "init s \<Longrightarrow> inv s"
    and step_inv: "inv s \<Longrightarrow> step s t \<Longrightarrow> inv t"
begin

lemma steps_inv: "step\<^sup>*\<^sup>* s t \<Longrightarrow> inv s \<Longrightarrow> inv t"
  by (induction rule: rtranclp_induct) (auto intro: step_inv)

lemma reachable_inv: "init s \<Longrightarrow> step\<^sup>*\<^sup>* s t \<Longrightarrow> inv t"
  using steps_inv init_inv by blast

end

section \<open>Results with errors\<close>

text \<open>
  A computation that may fail returns a sum: \<open>Inl\<close> the error, \<open>Inr\<close> the result.
\<close>

definition bindE :: "'e + 'a \<Rightarrow> ('a \<Rightarrow> 'e + 'b) \<Rightarrow> 'e + 'b" where
  "bindE r f = (case r of Inl e \<Rightarrow> Inl e | Inr x \<Rightarrow> f x)"

lemma bindE_simps [simp]: "bindE (Inl e) f = Inl e" "bindE (Inr x) f = f x"
  by (simp_all add: bindE_def)

lemma bindE_Inr_iff: "bindE r f = Inr y \<longleftrightarrow> (\<exists>x. r = Inr x \<and> f x = Inr y)"
  by (cases r) simp_all

lemma bindE_cong [fundef_cong]:
  "r = r' \<Longrightarrow> (\<And>x. r' = Inr x \<Longrightarrow> f x = f' x) \<Longrightarrow> bindE r f = bindE r' f'"
  by (cases r') simp_all

section \<open>Generic lemmas\<close>

lemma finite_indices:
  assumes "inj f" and "\<And>k. P k \<Longrightarrow> f k \<in> A" and "finite A"
  shows "finite {k. P k}"
proof (rule finite_imageD)
  show "finite (f ` {k. P k})"
    by (rule finite_subset [OF _ assms(3)]) (auto dest: assms(2))
  show "inj_on f {k. P k}"
    using assms(1) by (rule inj_on_subset) simp
qed

text \<open>A scan that moves past a present index has fewer present indices left.\<close>

lemma card_scan_up:
  fixes i :: int
  assumes "finite {k. P k}" and "P i"
  shows "card {k. i + 1 \<le> k \<and> P k} < card {k. i \<le> k \<and> P k}"
proof (rule psubset_card_mono)
  show "finite {k. i \<le> k \<and> P k}"
    by (rule finite_subset [OF _ assms(1)]) auto
  have "i \<in> {k. i \<le> k \<and> P k}" and "i \<notin> {k. i + 1 \<le> k \<and> P k}"
    using assms(2) by simp_all
  moreover have "{k. i + 1 \<le> k \<and> P k} \<subseteq> {k. i \<le> k \<and> P k}" by auto
  ultimately show "{k. i + 1 \<le> k \<and> P k} \<subset> {k. i \<le> k \<and> P k}" by blast
qed

lemma card_scan_down:
  fixes i :: int
  assumes "finite {k. P k}" and "P i"
  shows "card {k. k \<le> i - 1 \<and> P k} < card {k. k \<le> i \<and> P k}"
proof (rule psubset_card_mono)
  show "finite {k. k \<le> i \<and> P k}"
    by (rule finite_subset [OF _ assms(1)]) auto
  have "i \<in> {k. k \<le> i \<and> P k}" and "i \<notin> {k. k \<le> i - 1 \<and> P k}"
    using assms(2) by simp_all
  moreover have "{k. k \<le> i - 1 \<and> P k} \<subseteq> {k. k \<le> i \<and> P k}" by auto
  ultimately show "{k. k \<le> i - 1 \<and> P k} \<subset> {k. k \<le> i \<and> P k}" by blast
qed

lemma prefix_drop_append: "prefix xs ys \<Longrightarrow> xs @ drop (length xs) ys = ys"
  by (auto simp: prefix_def)

lemma take_eq_iff_prefix: "length xs \<le> length ys \<and> take (length xs) ys = xs \<longleftrightarrow> prefix xs ys"
  by (auto simp: prefix_def) (metis append_take_drop_id)

end
