(* ===== verification/Js_Strings.thy ===== *)
theory Js_Strings
  imports Prelude
begin

text \<open>
  JavaScript strings and the operations of the language that the page scripts use. A string is
  a list of 16-bit code units, as \<open>charCodeAt\<close> and \<open>length\<close> count them. Modelled here:
  number formatting (\<open>toString(16)\<close>, decimal), \<open>escape\<close> and \<open>unescape\<close>,
  \<open>substr\<close>/\<open>substring\<close>, \<open>indexOf\<close> and the four regular expressions of
  \<^verbatim>\<open>search.js\<close>. \<open>toLowerCase\<close> beyond ASCII is a table of the Unicode
  standard; it is a field of the record \<open>host\<close>, of which the theorems use only what it does on
  ASCII strings.
\<close>

type_synonym code_unit = "16 word"
type_synonym jsstring = "code_unit list"

definition js :: "string \<Rightarrow> jsstring" where
  [js_eval]: "js s = map of_char s"

lemma js_Nil [simp]: "js [] = []"
  by (simp add: js_def)

lemma js_eq_Nil [simp]: "js s = [] \<longleftrightarrow> s = []" "[] = js s \<longleftrightarrow> s = []"
  by (auto simp: js_def)

lemma js_append: "js (s @ t) = js s @ js t"
  by (simp add: js_def)

lemma length_js [simp]: "length (js s) = length s"
  by (simp add: js_def)

section \<open>Numbers as strings\<close>

definition hex_digit :: "nat \<Rightarrow> code_unit" where
  "hex_digit n = (if n < 10 then of_nat (48 + n) else of_nat (87 + n))"

text \<open>\<open>n.toString(16)\<close> of a natural number.\<close>

fun toString16 :: "nat \<Rightarrow> jsstring" where
  "toString16 n = (if n < 16 then [hex_digit n] else toString16 (n div 16) @ [hex_digit (n mod 16)])"

declare toString16.simps [simp del]

text \<open>String concatenation with a number writes it in decimal.\<close>

fun nat_to_string :: "nat \<Rightarrow> jsstring" where
  "nat_to_string n =
     (if n < 10 then [of_nat (48 + n)] else nat_to_string (n div 10) @ [of_nat (48 + n mod 10)])"

declare nat_to_string.simps [simp del]

definition int_to_string :: "int \<Rightarrow> jsstring" where
  "int_to_string i = (if i < 0 then 45 # nat_to_string (nat (- i)) else nat_to_string (nat i))"

section \<open>Substrings and searching\<close>

text \<open>
  \<open>s.substr(0, n)\<close> and \<open>s.substring(0, n)\<close> take the first \<open>n\<close> units (a
  negative \<open>n\<close> counts as 0), \<open>s.substring(n)\<close> drops them; \<open>indexOf\<close> of a string
  is the first position where it occurs. A negative result (\<open>-1\<close>) is \<open>None\<close>.
\<close>

definition substring_to :: "jsstring \<Rightarrow> int \<Rightarrow> jsstring" where
  [js_eval]: "substring_to s n = take (nat n) s"

fun indexOf_from :: "nat \<Rightarrow> jsstring \<Rightarrow> jsstring \<Rightarrow> nat option" where
  "indexOf_from i t [] = (if t = [] then Some i else None)"
| "indexOf_from i t (c # cs) =
     (if prefix t (c # cs) then Some i else indexOf_from (Suc i) t cs)"

definition indexOf :: "jsstring \<Rightarrow> jsstring \<Rightarrow> nat option" where
  [js_eval]: "indexOf s t = indexOf_from 0 t s"

section \<open>The regular expressions of the search scripts\<close>

abbreviation (input) space_unit :: code_unit where "space_unit \<equiv> 32"

definition is_digit_unit :: "code_unit \<Rightarrow> bool" where
  [js_eval]: "is_digit_unit c \<longleftrightarrow> 48 \<le> c \<and> c \<le> 57"

text \<open>\<open>s.replace(/ +/g, "")\<close>\<close>

definition strip_spaces :: "jsstring \<Rightarrow> jsstring" where
  [js_eval]: "strip_spaces s = filter (\<lambda>c. c \<noteq> space_unit) s"

text \<open>\<open>s.replace(/^ +/, "")\<close>\<close>

definition strip_leading :: "jsstring \<Rightarrow> jsstring" where
  [js_eval]: "strip_leading s = dropWhile (\<lambda>c. c = space_unit) s"

text \<open>\<open>s.replace(/ +$/, "")\<close>\<close>

definition strip_trailing :: "jsstring \<Rightarrow> jsstring" where
  [js_eval]: "strip_trailing s = rev (dropWhile (\<lambda>c. c = space_unit) (rev s))"

text \<open>\<open>s.replace(/^sr\d*_/, '')\<close>\<close>

definition strip_sr :: "jsstring \<Rightarrow> jsstring" where
  [js_eval]: "strip_sr s =
     (if prefix (js ''sr'') s
      then (case dropWhile is_digit_unit (drop 2 s) of
              [] \<Rightarrow> s
            | c # t \<Rightarrow> (if c = 95 then t else s))
      else s)"

section \<open>escape and unescape\<close>

definition escape_safe :: "code_unit \<Rightarrow> bool" where
  "escape_safe c \<longleftrightarrow>
     65 \<le> c \<and> c \<le> 90 \<or> 97 \<le> c \<and> c \<le> 122 \<or> 48 \<le> c \<and> c \<le> 57 \<or>
     c \<in> {64, 42, 95, 43, 45, 46, 47}"

definition hex_digit_upper :: "nat \<Rightarrow> code_unit" where
  "hex_digit_upper n = (if n < 10 then of_nat (48 + n) else of_nat (55 + n))"

definition escape_unit :: "code_unit \<Rightarrow> jsstring" where
  "escape_unit c =
     (let n = unat c in
      if escape_safe c then [c]
      else if n < 256 then [37, hex_digit_upper (n div 16), hex_digit_upper (n mod 16)]
      else [37, 117, hex_digit_upper (n div 4096), hex_digit_upper (n div 256 mod 16),
            hex_digit_upper (n div 16 mod 16), hex_digit_upper (n mod 16)])"

definition escape :: "jsstring \<Rightarrow> jsstring" where
  "escape s = concat (map escape_unit s)"

definition hex_value :: "code_unit \<Rightarrow> nat option" where
  "hex_value c =
     (let n = unat c in
      if 48 \<le> n \<and> n \<le> 57 then Some (n - 48)
      else if 65 \<le> n \<and> n \<le> 70 then Some (n - 55)
      else if 97 \<le> n \<and> n \<le> 102 then Some (n - 87)
      else None)"

fun hex_number :: "jsstring \<Rightarrow> nat option" where
  "hex_number [] = Some 0"
| "hex_number (c # cs) =
     (case (hex_value c, hex_number cs) of
        (Some d, Some n) \<Rightarrow> Some (d * 16 ^ length cs + n)
      | _ \<Rightarrow> None)"

text \<open>The escape sequence after a percent sign: its code unit and the rest of the string.\<close>

definition unescape_seq :: "jsstring \<Rightarrow> (code_unit \<times> jsstring) option" where
  "unescape_seq cs =
     (case (if 5 \<le> length cs \<and> hd cs = 117 then hex_number (take 4 (tl cs)) else None) of
        Some n \<Rightarrow> Some (of_nat n, drop 5 cs)
      | None \<Rightarrow>
          (case (if 2 \<le> length cs then hex_number (take 2 cs) else None) of
             Some n \<Rightarrow> Some (of_nat n, drop 2 cs)
           | None \<Rightarrow> None))"

lemma unescape_seq_shorter [termination_simp]:
  "unescape_seq cs = Some (c, rest) \<Longrightarrow> length rest < Suc (length cs)"
  by (auto simp: unescape_seq_def split: option.splits if_splits)

fun unescape :: "jsstring \<Rightarrow> jsstring" where
  "unescape [] = []"
| "unescape (c # cs) =
     (if c = 37
      then (case unescape_seq cs of
              Some (u, rest) \<Rightarrow> u # unescape rest
            | None \<Rightarrow> c # unescape cs)
      else c # unescape cs)"

section \<open>What the scripts use of the host\<close>

text \<open>
  \<open>host_toLowerCase\<close> is \<open>String.prototype.toLowerCase\<close>; \<open>host_gt1 s\<close> is the value
  of the comparison \<open>s > 1\<close> of a string with a number (the string is converted to a number
  first).
\<close>

record host =
  host_toLowerCase :: "jsstring \<Rightarrow> jsstring"
  host_gt1 :: "jsstring \<Rightarrow> bool"

definition ascii :: "jsstring \<Rightarrow> bool" where
  "ascii s \<longleftrightarrow> (\<forall>c \<in> set s. c < 128)"

definition ascii_lower :: "code_unit \<Rightarrow> code_unit" where
  "ascii_lower c = (if 65 \<le> c \<and> c \<le> 90 then c + 32 else c)"

text \<open>The documented behaviour of \<open>toLowerCase\<close> on ASCII strings.\<close>

definition host_ok :: "host \<Rightarrow> bool" where
  "host_ok h \<longleftrightarrow> (\<forall>s. ascii s \<longrightarrow> host_toLowerCase h s = map ascii_lower s)"

section \<open>Properties\<close>

lemma unat_of_nat_small: "n < 65536 \<Longrightarrow> unat (of_nat n :: code_unit) = n"
  by (simp add: unsigned_of_nat take_bit_nat_eq_self)

lemma unat_offset:
  "numeral k + n < 65536 \<Longrightarrow> unat (numeral k + of_nat n :: code_unit) = numeral k + n"
  using unat_of_nat_small [of "numeral k + n"] by simp

lemma unat_unit_less: "unat (c :: code_unit) < 65536"
  using unsigned_less [of c] by simp

lemma unat_of_char: "unat (of_char c :: code_unit) = of_char c"
proof -
  have "of_char c < (256 :: nat)" by simp
  then have "of_char c < (65536 :: nat)" by linarith
  then show ?thesis by (metis of_nat_of_char unat_of_nat_small)
qed

lemma of_char_unit_inject: "(of_char c :: code_unit) = of_char d \<longleftrightarrow> c = d"
  by (metis of_char_eq_iff unat_of_char)

lemma js_inject [simp]: "js s = js t \<longleftrightarrow> s = t"
  unfolding js_def by (rule inj_map_eq_map) (simp add: inj_def of_char_unit_inject)

lemma js_unit_mem: "x \<in> set (js s) \<longleftrightarrow> (\<exists>c \<in> set s. x = of_char c)"
  by (auto simp: js_def)

lemma hex_value_upper: "n < 16 \<Longrightarrow> hex_value (hex_digit_upper n) = Some n"
  by (auto simp: hex_value_def hex_digit_upper_def Let_def unat_offset)

lemma hex_digit_upper_not_u: "n < 16 \<Longrightarrow> hex_digit_upper n \<noteq> 117"
proof
  assume n: "n < 16" and "hex_digit_upper n = 117"
  then have "hex_value (hex_digit_upper n) = hex_value 117" by simp
  with n show False
    using hex_value_upper [of n] by (simp add: hex_value_def [of 117])
qed

lemma hex_digit_inj: "m < 16 \<Longrightarrow> n < 16 \<Longrightarrow> hex_digit m = hex_digit n \<longleftrightarrow> m = n"
proof -
  have hv: "hex_value (hex_digit k) = Some k" if "k < 16" for k
    using that by (auto simp: hex_value_def hex_digit_def Let_def unat_offset)
  show "m < 16 \<Longrightarrow> n < 16 \<Longrightarrow> hex_digit m = hex_digit n \<longleftrightarrow> m = n"
    by (metis hv option.inject)
qed

text \<open>The code that \<open>escape\<close> applies to each unit is decoded by \<open>unescape\<close>.\<close>

lemma unescape_two_digits:
  "n < 256 \<Longrightarrow>
   unescape_seq (hex_digit_upper (n div 16) # hex_digit_upper (n mod 16) # xs) = Some (of_nat n, xs)"
  by (simp add: unescape_seq_def hex_value_upper hex_digit_upper_not_u)

lemma four_digits:
  fixes n :: nat
  shows "n div 4096 * 4096 + (n div 256 mod 16 * 256 + (n div 16 mod 16 * 16 + n mod 16)) = n"
proof -
  have "n = n div 16 * 16 + n mod 16" by simp
  also have "n div 16 = n div 256 * 16 + n div 16 mod 16"
    using div_mult_mod_eq [of "n div 16" 16] by (simp add: div_mult2_eq [symmetric])
  also have "n div 256 = n div 4096 * 16 + n div 256 mod 16"
    using div_mult_mod_eq [of "n div 256" 16] by (simp add: div_mult2_eq [symmetric])
  finally show ?thesis by simp
qed

lemma unescape_four_digits:
  assumes "n < 65536"
  shows "unescape_seq (117 # hex_digit_upper (n div 4096) # hex_digit_upper (n div 256 mod 16)
           # hex_digit_upper (n div 16 mod 16) # hex_digit_upper (n mod 16) # xs) = Some (of_nat n, xs)"
proof -
  have "n div 4096 < 16" using assms by (simp add: div_less_iff_less_mult)
  then have "hex_number [hex_digit_upper (n div 4096), hex_digit_upper (n div 256 mod 16),
      hex_digit_upper (n div 16 mod 16), hex_digit_upper (n mod 16)] = Some n"
    using four_digits [of n] by (simp add: hex_value_upper)
  then show ?thesis by (simp add: unescape_seq_def)
qed

lemma unescape_escape_unit: "unescape (escape_unit c @ xs) = c # unescape xs"
proof -
  consider "escape_safe c" | "\<not> escape_safe c" "unat c < 256"
    | "\<not> escape_safe c" "\<not> unat c < 256" by blast
  then show ?thesis
  proof cases
    case 1
    moreover from this have "c \<noteq> 37" by (auto simp: escape_safe_def)
    ultimately show ?thesis by (simp add: escape_unit_def)
  next
    case 2
    then show ?thesis by (simp add: escape_unit_def Let_def unescape_two_digits)
  next
    case 3
    then show ?thesis
      by (simp add: escape_unit_def Let_def unescape_four_digits unat_unit_less)
  qed
qed

interpretation esc: codec escape_unit unescape
  by unfold_locales (simp_all add: unescape_escape_unit)

lemma unescape_escape [simp]: "unescape (escape s) = s"
  unfolding escape_def by (rule esc.dec_encode)

lemma escape_Nil [simp]: "escape [] = []"
  by (simp add: escape_def)

text \<open>Decimal numbers are read back by evaluating their digits.\<close>

definition digits_value :: "jsstring \<Rightarrow> nat" where
  "digits_value s = foldl (\<lambda>a c. a * 10 + (unat c - 48)) 0 s"

lemma digits_value_nat_to_string: "digits_value (nat_to_string n) = n"
proof (induction n rule: nat_to_string.induct)
  case (1 n)
  show ?case
  proof (cases "n < 10")
    case True
    then show ?thesis
      by (simp add: digits_value_def nat_to_string.simps [of n] unat_offset)
  next
    case False
    then have "digits_value (nat_to_string (n div 10)) = n div 10" by (rule 1)
    with False show ?thesis
      by (simp add: digits_value_def nat_to_string.simps [of n] unat_offset)
  qed
qed

lemma nat_to_string_inject [simp]: "nat_to_string m = nat_to_string n \<longleftrightarrow> m = n"
  by (metis digits_value_nat_to_string)

lemma nat_to_string_digits: "c \<in> set (nat_to_string n) \<Longrightarrow> 48 \<le> unat c \<and> unat c \<le> 57"
proof (induction n rule: nat_to_string.induct)
  case (1 n)
  then show ?case
    by (cases "n < 10") (auto simp: nat_to_string.simps [of n] unat_offset)
qed

lemma nat_to_string_nonempty [simp]: "nat_to_string n \<noteq> []"
  by (simp add: nat_to_string.simps [of n])

lemma nat_to_string_no_minus: "nat_to_string n \<noteq> 45 # s"
  using nat_to_string_digits [of 45 n] by auto

lemma int_to_string_inject [simp]: "int_to_string i = int_to_string j \<longleftrightarrow> i = j"
  using nat_to_string_no_minus [of "nat i"] nat_to_string_no_minus [of "nat j"]
  by (auto simp: int_to_string_def dest!: sym [where t = "nat_to_string _"])

lemma int_to_string_of_nat [simp]: "int_to_string (int n) = nat_to_string n"
  by (simp add: int_to_string_def)

lemma int_to_string_units:
  "c \<in> set (int_to_string i) \<Longrightarrow> c = 45 \<or> 48 \<le> unat c \<and> unat c \<le> 57"
  by (auto simp: int_to_string_def dest: nat_to_string_digits split: if_splits)

lemma host_lower_ascii: "host_ok h \<Longrightarrow> ascii s \<Longrightarrow> host_toLowerCase h s = map ascii_lower s"
  by (simp add: host_ok_def)

text \<open>A host that is exact on ASCII strings, for the examples.\<close>

definition ascii_host :: host where
  "ascii_host = \<lparr>host_toLowerCase = map ascii_lower, host_gt1 = (\<lambda>_. False)\<rparr>"

lemma ascii_host_ok: "host_ok ascii_host"
  by (simp add: host_ok_def ascii_host_def)

end
