(* ===== verification/Search_Ids.thy ===== *)
theory Search_Ids
  imports Js_Strings
begin

text \<open>
  \<open>convertToId\<close> of \<^verbatim>\<open>search.js\<close>: the encoding of a symbol name as an HTML
  id. The results page compares the encoding of the search text with the ids of its rows; this
  theory shows that comparing encodings is comparing names.
\<close>

text \<open>The class \<open>[a-z0-9\u0080-\uFFFF]\<close>: units that stand for themselves.\<close>

definition id_unit :: "code_unit \<Rightarrow> bool" where
  "id_unit c \<longleftrightarrow> 97 \<le> c \<and> c \<le> 122 \<or> 48 \<le> c \<and> c \<le> 57 \<or> 128 \<le> c"

text \<open>The loop of \<open>convertToId\<close>, with \<open>result\<close> as its accumulator.\<close>

fun convertToId_loop :: "jsstring \<Rightarrow> jsstring \<Rightarrow> jsstring" where
  "convertToId_loop result [] = result"
| "convertToId_loop result (c # cs) =
     (let cn = unat c in
      if id_unit c then convertToId_loop (result @ [c]) cs
      else if cn < 16 then convertToId_loop (result @ js ''_0'' @ toString16 cn) cs
      else convertToId_loop (result @ js ''_'' @ toString16 cn) cs)"

definition convertToId :: "jsstring \<Rightarrow> jsstring" where
  "convertToId search = convertToId_loop [] search"

section \<open>The encoding is a prefix code\<close>

definition id_code :: "code_unit \<Rightarrow> jsstring" where
  "id_code c =
     (if id_unit c then [c]
      else [95, hex_digit (unat c div 16), hex_digit (unat c mod 16)])"

lemma not_id_unit_less: "\<not> id_unit c \<Longrightarrow> unat c < 128"
  by (simp add: id_unit_def word_le_nat_alt word_less_nat_alt not_le)

lemma toString16_two_digits:
  assumes "16 \<le> n" and "n < 256"
  shows "toString16 n = [hex_digit (n div 16), hex_digit (n mod 16)]"
proof -
  have "n div 16 < 16" using assms by (simp add: div_less_iff_less_mult)
  with assms show ?thesis
    by (simp add: toString16.simps [of n] toString16.simps [of "n div 16"])
qed

lemma convertToId_loop_code:
  "convertToId_loop result s = result @ concat (map id_code s)"
proof (induction s arbitrary: result)
  case Nil
  then show ?case by simp
next
  case (Cons c s)
  have zero: "hex_digit 0 = 48" by (simp add: hex_digit_def)
  consider "id_unit c" | "\<not> id_unit c" "unat c < 16" | "\<not> id_unit c" "16 \<le> unat c"
    by linarith
  then show ?case
  proof cases
    case 1
    then show ?thesis by (simp add: Cons.IH id_code_def Let_def)
  next
    case 2
    then show ?thesis
      by (simp add: Cons.IH id_code_def Let_def js_def zero toString16.simps [of "unat c"])
  next
    case 3
    moreover from 3 have "unat c < 256" using not_id_unit_less [of c] by simp
    ultimately show ?thesis
      by (simp add: Cons.IH id_code_def Let_def js_def toString16_two_digits)
  qed
qed

lemma convertToId_code: "convertToId s = concat (map id_code s)"
  by (simp add: convertToId_def convertToId_loop_code)

lemma convertToId_Nil [simp]: "convertToId [] = []"
  by (simp add: convertToId_code)

lemma convertToId_append: "convertToId (s @ t) = convertToId s @ convertToId t"
  by (simp add: convertToId_code)

lemma id_code_prefix_free: "prefix (id_code a) (id_code b) \<Longrightarrow> a = b"
proof -
  assume pre: "prefix (id_code a) (id_code b)"
  have underscore: "\<not> id_unit 95" by (simp add: id_unit_def)
  show "a = b"
  proof (cases "id_unit a \<or> id_unit b")
    case True
    with pre underscore show ?thesis by (auto simp: id_code_def split: if_splits)
  next
    case False
    with pre not_id_unit_less [of a] not_id_unit_less [of b]
    have "unat a div 16 = unat b div 16" and "unat a mod 16 = unat b mod 16"
      by (simp_all add: id_code_def hex_digit_inj div_less_iff_less_mult)
    then have "unat a = unat b" by (metis div_mult_mod_eq)
    then show ?thesis by (simp add: word_unat_eq_iff)
  qed
qed

interpretation id: prefix_code id_code
  by unfold_locales (simp_all add: id_code_prefix_free, simp add: id_code_def)

text \<open>
  The encoding only uses the characters of an id: letters, digits, underscores and units
  outside ASCII. In particular it never contains a character that the row id's own structure uses.
\<close>

definition id_char :: "code_unit \<Rightarrow> bool" where
  "id_char c \<longleftrightarrow> id_unit c \<or> c = 95"

lemma hex_digit_id_unit: "n < 16 \<Longrightarrow> id_unit (hex_digit n)"
  by (auto simp: id_unit_def hex_digit_def word_le_nat_alt unat_offset)

lemma id_code_chars: "x \<in> set (id_code c) \<Longrightarrow> id_char x"
  using not_id_unit_less [of c]
  by (auto simp: id_code_def id_char_def hex_digit_id_unit div_less_iff_less_mult split: if_splits)

lemma convertToId_chars: "x \<in> set (convertToId s) \<Longrightarrow> id_char x"
  by (auto simp: convertToId_code dest: id_code_chars)

text \<open>On ASCII strings the encoding is ASCII again, and has no upper-case letters.\<close>

lemma hex_digit_less: "n < 16 \<Longrightarrow> hex_digit n < 128"
  by (auto simp: hex_digit_def word_less_nat_alt unat_offset)

lemma id_char_lower: "id_char c \<Longrightarrow> ascii_lower c = c"
  by (auto simp: id_char_def id_unit_def ascii_lower_def word_le_nat_alt)

lemma id_code_ascii: "c < 128 \<Longrightarrow> x \<in> set (id_code c) \<Longrightarrow> x < 128"
  using not_id_unit_less [of c]
  by (auto simp: id_code_def hex_digit_less div_less_iff_less_mult split: if_splits)

lemma convertToId_ascii: "ascii s \<Longrightarrow> ascii (convertToId s)"
  by (auto simp: ascii_def convertToId_code dest: id_code_ascii)

lemma convertToId_lower: "map ascii_lower (convertToId s) = convertToId s"
  by (rule map_idI) (simp add: id_char_lower convertToId_chars)

section \<open>Comparing encodings\<close>

lemma convertToId_prefix [simp]: "prefix (convertToId s) (convertToId t) \<longleftrightarrow> prefix s t"
  by (simp add: convertToId_code id.encode_prefix_iff)

lemma convertToId_inject [simp]: "convertToId s = convertToId t \<longleftrightarrow> s = t"
  by (simp add: convertToId_code id.encode_inject)

text \<open>
  C6. The encoding of one string is a prefix of the encoding of another exactly when the string is a
  prefix of the other; so matching ids is matching names, and no two names share an id.
\<close>

theorem convertToId_prefix_iff:
  "(prefix (convertToId s) (convertToId t) \<longleftrightarrow> prefix s t) \<and> (convertToId s = convertToId t \<longleftrightarrow> s = t)"
  by simp

end
