(* ===== verification/Dom.thy ===== *)
theory Dom
  imports Js_Strings "HOL-Library.AList"
begin

text \<open>
  The part of the Document Object Model that the results page uses: a finite ordered tree of
  elements, each with its attributes and its inline \<open>style.display\<close>. An element is
  identified by its path from the root (the positions of the children on the way), which does not
  change as long as children are only appended at the end, the only structural change that the
  scripts make. \<open>parentNode\<close>, \<open>firstChild\<close> and \<open>nextSibling\<close> are
  functions of the path, \<open>getElementById\<close> is the first element in document order with the id.
\<close>

record elt =
  nodeName :: jsstring
  attrs :: "(jsstring \<times> jsstring) list"
  display :: jsstring
  innerHTML :: jsstring

datatype dom = Elem (root_elt: elt) (children: "dom list")

type_synonym path = "nat list"

datatype js_error = TypeError

section \<open>Elements\<close>

definition createElement :: "jsstring \<Rightarrow> elt" where
  "createElement tag = \<lparr>nodeName = tag, attrs = [], display = [], innerHTML = []\<rparr>"

definition setAttribute :: "elt \<Rightarrow> jsstring \<Rightarrow> jsstring \<Rightarrow> elt" where
  "setAttribute e a v = e\<lparr>attrs := AList.update a v (attrs e)\<rparr>"

definition getAttr :: "elt \<Rightarrow> jsstring \<Rightarrow> jsstring" where
  "getAttr e a = (case map_of (attrs e) a of None \<Rightarrow> [] | Some v \<Rightarrow> v)"

text \<open>The properties \<open>id\<close> and \<open>className\<close> reflect the attributes \<open>id\<close> and \<open>class\<close>.\<close>

definition eid :: "elt \<Rightarrow> jsstring" where
  "eid e = getAttr e (js ''id'')"

definition className :: "elt \<Rightarrow> jsstring" where
  "className e = getAttr e (js ''class'')"

section \<open>Paths\<close>

fun node_at :: "dom \<Rightarrow> path \<Rightarrow> dom option" where
  "node_at t [] = Some t"
| "node_at (Elem e ts) (i # p) = (if i < length ts then node_at (ts ! i) p else None)"

definition elt_at :: "dom \<Rightarrow> path \<Rightarrow> elt option" where
  "elt_at t p = map_option root_elt (node_at t p)"

fun preorder :: "path \<Rightarrow> dom \<Rightarrow> (path \<times> elt) list"
  and preorder_list :: "path \<Rightarrow> nat \<Rightarrow> dom list \<Rightarrow> (path \<times> elt) list" where
  "preorder p (Elem e ts) = (p, e) # preorder_list p 0 ts"
| "preorder_list p i [] = []"
| "preorder_list p i (t # ts) = preorder (p @ [i]) t @ preorder_list p (Suc i) ts"

definition getElementById :: "dom \<Rightarrow> jsstring \<Rightarrow> path option" where
  "getElementById doc i =
     map_option fst (find (\<lambda>(p, e). map_of (attrs e) (js ''id'') = Some i) (preorder [] doc))"

definition parentNode :: "path \<Rightarrow> path option" where
  "parentNode p = (if p = [] then None else Some (butlast p))"

definition firstChild :: "dom \<Rightarrow> path \<Rightarrow> path option" where
  "firstChild doc p = (if node_at doc (p @ [0]) = None then None else Some (p @ [0]))"

definition nextSibling :: "dom \<Rightarrow> path \<Rightarrow> path option" where
  "nextSibling doc p =
     (if p = [] then None
      else let q = butlast p @ [Suc (last p)] in if node_at doc q = None then None else Some q)"

text \<open>\<open>item.parentNode.parentNode\<close>: the row of a link.\<close>

definition grandparent :: "path \<Rightarrow> path option" where
  "grandparent p = Option.bind (parentNode p) parentNode"

section \<open>Changes\<close>

fun update_at :: "path \<Rightarrow> (elt \<Rightarrow> elt) \<Rightarrow> dom \<Rightarrow> dom" where
  "update_at [] f (Elem e ts) = Elem (f e) ts"
| "update_at (i # p) f (Elem e ts) =
     (if i < length ts then Elem e (ts[i := update_at p f (ts ! i)]) else Elem e ts)"

definition set_display :: "dom \<Rightarrow> path \<Rightarrow> jsstring \<Rightarrow> dom" where
  "set_display doc p v = update_at p (\<lambda>e. e\<lparr>display := v\<rparr>) doc"

fun append_at :: "path \<Rightarrow> dom list \<Rightarrow> dom \<Rightarrow> dom" where
  "append_at [] us (Elem e ts) = Elem e (ts @ us)"
| "append_at (i # p) us (Elem e ts) =
     (if i < length ts then Elem e (ts[i := append_at p us (ts ! i)]) else Elem e ts)"

primrec map_dom :: "(elt \<Rightarrow> elt) \<Rightarrow> dom \<Rightarrow> dom" where
  "map_dom f (Elem e ts) = Elem (f e) (map (map_dom f) ts)"

section \<open>Lookup\<close>

lemma find_SomeD: "find P xs = Some x \<Longrightarrow> x \<in> set xs \<and> P x"
  by (induction xs) (auto split: if_splits)

lemma node_at_append: "node_at t (p @ q) = Option.bind (node_at t p) (\<lambda>u. node_at u q)"
  by (induction t p rule: node_at.induct) auto

lemma node_at_snoc:
  "node_at t (p @ [i]) =
     (case node_at t p of None \<Rightarrow> None
      | Some (Elem e ts) \<Rightarrow> if i < length ts then Some (ts ! i) else None)"
  by (auto simp: node_at_append split: option.splits dom.splits)

lemma elt_at_Nil [simp]: "elt_at (Elem e ts) [] = Some e"
  by (simp add: elt_at_def)

lemma elt_at_Cons [simp]:
  "elt_at (Elem e ts) (i # p) = (if i < length ts then elt_at (ts ! i) p else None)"
  by (simp add: elt_at_def)

lemma preorder_members:
  "(q, e) \<in> set (preorder p t) \<longleftrightarrow> (\<exists>r. q = p @ r \<and> elt_at t r = Some e)"
  "(q, e) \<in> set (preorder_list p i ts) \<longleftrightarrow>
     (\<exists>k r. k < length ts \<and> q = p @ (i + k) # r \<and> elt_at (ts ! k) r = Some e)"
proof (induction p t and p i ts arbitrary: q e and q e rule: preorder_preorder_list.induct)
  case (1 p e' ts)
  show ?case
  proof
    assume "(q, e) \<in> set (preorder p (Elem e' ts))"
    with "1.IH" show "\<exists>r. q = p @ r \<and> elt_at (Elem e' ts) r = Some e"
      by auto
  next
    assume "\<exists>r. q = p @ r \<and> elt_at (Elem e' ts) r = Some e"
    then obtain r where "q = p @ r" and "elt_at (Elem e' ts) r = Some e" by blast
    with "1.IH" show "(q, e) \<in> set (preorder p (Elem e' ts))"
      by (cases r) (auto split: if_splits)
  qed
next
  case (2 p i)
  show ?case by simp
next
  case (3 p i t ts)
  show ?case
  proof
    assume "(q, e) \<in> set (preorder_list p i (t # ts))"
    then consider "(q, e) \<in> set (preorder (p @ [i]) t)" | "(q, e) \<in> set (preorder_list p (Suc i) ts)"
      by auto
    then show "\<exists>k r. k < length (t # ts) \<and> q = p @ (i + k) # r \<and> elt_at ((t # ts) ! k) r = Some e"
    proof cases
      case 1
      with "3.IH"(1) show ?thesis by (intro exI [of _ 0]) auto
    next
      case 2
      with "3.IH"(2) obtain k r where "k < length ts" "q = p @ (Suc i + k) # r"
        "elt_at (ts ! k) r = Some e" by blast
      then show ?thesis by (intro exI [of _ "Suc k"]) auto
    qed
  next
    assume "\<exists>k r. k < length (t # ts) \<and> q = p @ (i + k) # r \<and> elt_at ((t # ts) ! k) r = Some e"
    then obtain k r where k: "k < length (t # ts)" "q = p @ (i + k) # r"
      "elt_at ((t # ts) ! k) r = Some e" by blast
    show "(q, e) \<in> set (preorder_list p i (t # ts))"
    proof (cases k)
      case 0
      with k "3.IH"(1) show ?thesis by auto
    next
      case (Suc j)
      with k have "j < length ts" "q = p @ (Suc i + j) # r" "elt_at (ts ! j) r = Some e" by simp_all
      with "3.IH"(2) show ?thesis by auto
    qed
  qed
qed

lemma preorder_root: "(q, e) \<in> set (preorder [] t) \<longleftrightarrow> elt_at t q = Some e"
  by (simp add: preorder_members)

lemma finite_paths: "finite {p. node_at t p \<noteq> None}"
proof (rule finite_subset)
  show "{p. node_at t p \<noteq> None} \<subseteq> fst ` set (preorder [] t)"
  proof
    fix p assume "p \<in> {p. node_at t p \<noteq> None}"
    then obtain e where "elt_at t p = Some e" by (auto simp: elt_at_def)
    then have "(p, e) \<in> set (preorder [] t)" by (simp add: preorder_root)
    then show "p \<in> fst ` set (preorder [] t)" by force
  qed
qed simp

lemma getElementById_SomeD:
  assumes "getElementById doc i = Some p"
  obtains e where "elt_at doc p = Some e" and "map_of (attrs e) (js ''id'') = Some i"
proof -
  from assms obtain e where "find (\<lambda>(p, e). map_of (attrs e) (js ''id'') = Some i) (preorder [] doc)
      = Some (p, e)"
    by (auto simp: getElementById_def)
  then have "(p, e) \<in> set (preorder [] doc)" and "map_of (attrs e) (js ''id'') = Some i"
    by (auto dest: find_SomeD)
  with that show thesis by (simp add: preorder_root)
qed

lemma getElementById_None:
  "getElementById doc i = None \<longleftrightarrow>
     (\<forall>p e. elt_at doc p = Some e \<longrightarrow> map_of (attrs e) (js ''id'') \<noteq> Some i)"
  by (auto simp: getElementById_def find_None_iff preorder_root)

lemma getElementById_node: "getElementById doc i = Some p \<Longrightarrow> node_at doc p \<noteq> None"
  by (elim getElementById_SomeD) (auto simp: elt_at_def)

text \<open>A document has finitely many ids.\<close>

lemma finite_ids: "finite {i. getElementById doc i \<noteq> None}"
proof (rule finite_subset)
  show "{i. getElementById doc i \<noteq> None} \<subseteq>
      (\<lambda>(p, e). getAttr e (js ''id'')) ` set (preorder [] doc)"
  proof
    fix i assume "i \<in> {i. getElementById doc i \<noteq> None}"
    then obtain p where "getElementById doc i = Some p" by auto
    then obtain e where "elt_at doc p = Some e" and "map_of (attrs e) (js ''id'') = Some i"
      by (elim getElementById_SomeD)
    then show "i \<in> (\<lambda>(p, e). getAttr e (js ''id'')) ` set (preorder [] doc)"
      by (intro image_eqI [of _ _ "(p, e)"]) (simp_all add: preorder_root getAttr_def)
  qed
qed simp

section \<open>Lookup after a change\<close>

lemma elt_at_update:
  "elt_at (update_at p f t) q = (if p = q then map_option f (elt_at t q) else elt_at t q)"
proof (induction p f t arbitrary: q rule: update_at.induct)
  case (1 f e ts)
  then show ?case by (cases q) auto
next
  case (2 i p f e ts)
  then show ?case
    by (cases q) (auto simp: nth_list_update elt_at_def)
qed

lemma node_at_update: "node_at (update_at p f t) q = None \<longleftrightarrow> node_at t q = None"
  using elt_at_update [of p f t q] by (auto simp: elt_at_def split: if_splits)

lemma elt_at_map_dom: "elt_at (map_dom f t) q = map_option f (elt_at t q)"
proof (induction q arbitrary: t)
  case Nil
  then show ?case by (cases t) simp
next
  case (Cons i q)
  then show ?case by (cases t) simp
qed

text \<open>
  Lookup by id depends on the attributes only: a change that keeps them keeps what
  \<open>getElementById\<close> finds.
\<close>

lemma preorder_map_dom:
  "preorder q (map_dom g t) = map (apsnd g) (preorder q t)"
  "preorder_list q i (map (map_dom g) ts) = map (apsnd g) (preorder_list q i ts)"
  by (induction q t and q i ts rule: preorder_preorder_list.induct) auto

lemma find_map_apsnd:
  "(\<And>x. P (apsnd g x) \<longleftrightarrow> P x) \<Longrightarrow>
   map_option fst (find P (map (apsnd g) xs)) = map_option fst (find P xs)"
  by (induction xs) auto

lemma getElementById_map_dom:
  "(\<And>e. attrs (g e) = attrs e) \<Longrightarrow> getElementById (map_dom g t) i = getElementById t i"
  unfolding getElementById_def preorder_map_dom
  by (rule find_map_apsnd) (auto simp: split_beta)

lemma map_dom_update:
  "(\<And>e. g (f e) = g e) \<Longrightarrow> map_dom g (update_at p f t) = map_dom g t"
proof (induction p f t rule: update_at.induct)
  case (1 f e ts)
  then show ?case by simp
next
  case (2 i p f e ts)
  have "(map (map_dom g) ts)[i := map_dom g (ts ! i)] = map (map_dom g) ts"
    by (metis list_update_id map_update)
  with 2 show ?case by (auto simp: map_update)
qed

lemma getElementById_update:
  assumes "\<And>e. attrs (f e) = attrs e"
  shows "getElementById (update_at p f t) i = getElementById t i"
proof -
  define g where "g e = \<lparr>nodeName = [], attrs = attrs e, display = [], innerHTML = []\<rparr>" for e :: elt
  have "getElementById (update_at p f t) i = getElementById (map_dom g (update_at p f t)) i"
    by (rule getElementById_map_dom [symmetric]) (simp add: g_def)
  also have "\<dots> = getElementById (map_dom g t) i"
    by (subst map_dom_update) (simp_all add: g_def assms)
  also have "\<dots> = getElementById t i"
    by (rule getElementById_map_dom) (simp add: g_def)
  finally show ?thesis .
qed

lemma getElementById_set_display [simp]:
  "getElementById (set_display doc p v) i = getElementById doc i"
  by (simp add: set_display_def getElementById_update)

lemma elt_at_set_display:
  "elt_at (set_display doc p v) q =
     (if p = q then map_option (\<lambda>e. e\<lparr>display := v\<rparr>) (elt_at doc q) else elt_at doc q)"
  by (simp add: set_display_def elt_at_update)

end
