(* ===== verification/Find_Child.thy ===== *)
theory Find_Child
  imports Dom
begin

text \<open>
  \<open>SearchResults.FindChildElement\<close> of \<^verbatim>\<open>search.js\<close>: the walk through
  \<open>firstChild\<close>, \<open>nextSibling\<close> and \<open>parentNode\<close> that looks for the list of
  sub-results below a row. The walk is modelled pointer by pointer; it ends on every document,
  and it finds the first match of a recursive depth-first search.
\<close>

definition is_div :: "dom \<Rightarrow> path \<Rightarrow> bool" where
  "is_div doc p \<longleftrightarrow> (case elt_at doc p of Some e \<Rightarrow> nodeName e = js ''DIV'' | None \<Rightarrow> False)"

definition is_sr_children :: "dom \<Rightarrow> path \<Rightarrow> bool" where
  "is_sr_children doc p \<longleftrightarrow>
     (case elt_at doc p of
        Some e \<Rightarrow> nodeName e = js ''DIV'' \<and> className e = js ''SRChildren''
      | None \<Rightarrow> False)"

text \<open>
  The inner loop: \<open>do element = element.parentNode; while (element && element!=parentElement
  && !element.nextSibling)\<close>.
\<close>

function climb :: "dom \<Rightarrow> path \<Rightarrow> path \<Rightarrow> path option" where
  "climb doc pp el =
     (case parentNode el of
        None \<Rightarrow> None
      | Some q \<Rightarrow> if q \<noteq> pp \<and> nextSibling doc q = None then climb doc pp q else Some q)"
  by pat_completeness auto
termination
  by (relation "measure (\<lambda>(doc, pp, el). length el)") (auto simp: parentNode_def split: if_splits)

declare climb.simps [simp del]

definition after_climb :: "dom \<Rightarrow> path \<Rightarrow> path \<Rightarrow> path option" where
  "after_climb doc pp el =
     (case climb doc pp el of
        None \<Rightarrow> None
      | Some q \<Rightarrow> if q \<noteq> pp then nextSibling doc q else Some q)"

section \<open>Every move goes forward in document order\<close>

lemma path_less_child: "p < p @ i # q" for p :: path
  by (simp add: list_less_def lexord_append_rightI)

lemma path_less_sibling: "b @ k # r < b @ [Suc k]" for b :: path
  by (simp add: list_less_def lexord_append_leftI)

lemma firstChild_forward:
  "firstChild doc p = Some r \<Longrightarrow> node_at doc r \<noteq> None \<and> p < r"
  by (auto simp: firstChild_def path_less_child split: if_splits)

lemma nextSibling_cases:
  assumes "nextSibling doc p = Some r"
  obtains b k where "p = b @ [k]" and "r = b @ [Suc k]" and "node_at doc r \<noteq> None"
  using assms that by (cases p rule: rev_cases) (auto simp: nextSibling_def Let_def split: if_splits)

lemma nextSibling_forward:
  "nextSibling doc p = Some r \<Longrightarrow> node_at doc r \<noteq> None \<and> p < r"
  by (elim nextSibling_cases) (simp add: path_less_sibling)

lemma climb_prefix: "climb doc pp el = Some q \<Longrightarrow> strict_prefix q el"
proof (induction doc pp el rule: climb.induct)
  case (1 doc pp el)
  then obtain c where c: "parentNode el = Some c"
    by (auto simp: climb.simps [of doc pp el] split: option.splits)
  then have "strict_prefix c el"
    by (metis append_butlast_last_id option.inject option.distinct(1) parentNode_def prefixI
        strict_prefixI' append_Cons)
  with 1 c show ?case
    by (auto simp: climb.simps [of doc pp el] split: if_splits dest: prefix_order.less_trans)
qed

lemma after_climb_forward:
  assumes "after_climb doc pp el = Some r"
  shows "r = pp \<or> node_at doc r \<noteq> None \<and> el < r"
proof -
  from assms obtain q where q: "climb doc pp el = Some q"
    by (auto simp: after_climb_def split: option.splits)
  show ?thesis
  proof (cases "q = pp")
    case True
    with assms q show ?thesis by (simp add: after_climb_def)
  next
    case False
    with assms q have "nextSibling doc q = Some r" by (simp add: after_climb_def)
    then obtain b k where "q = b @ [k]" "r = b @ [Suc k]" "node_at doc r \<noteq> None"
      by (elim nextSibling_cases)
    moreover from q obtain s where "el = q @ s" by (auto dest: climb_prefix elim: strict_prefixE')
    ultimately show ?thesis by (simp add: path_less_sibling)
  qed
qed

section \<open>The walk\<close>

definition walk_left :: "dom \<Rightarrow> path \<Rightarrow> path option \<Rightarrow> nat" where
  "walk_left doc pp el =
     (case el of
        None \<Rightarrow> 0
      | Some p \<Rightarrow> if p = pp then 0 else Suc (card {q. node_at doc q \<noteq> None \<and> p < q}))"

lemma walk_left_decreases:
  assumes "p \<noteq> pp" and "\<And>r. el = Some r \<Longrightarrow> r = pp \<or> node_at doc r \<noteq> None \<and> p < r"
  shows "walk_left doc pp el < walk_left doc pp (Some p)"
proof (cases el)
  case None
  with assms(1) show ?thesis by (simp add: walk_left_def)
next
  case (Some r)
  show ?thesis
  proof (cases "r = pp")
    case True
    with assms(1) Some show ?thesis by (simp add: walk_left_def)
  next
    case False
    with assms(2) Some have r: "node_at doc r \<noteq> None" "p < r" by auto
    have "card {q. node_at doc q \<noteq> None \<and> r < q} < card {q. node_at doc q \<noteq> None \<and> p < q}"
    proof (rule psubset_card_mono)
      show "finite {q. node_at doc q \<noteq> None \<and> p < q}"
        by (rule finite_subset [OF _ finite_paths [of doc]]) auto
      have "r \<in> {q. node_at doc q \<noteq> None \<and> p < q} - {q. node_at doc q \<noteq> None \<and> r < q}"
        using r by simp
      moreover have "{q. node_at doc q \<noteq> None \<and> r < q} \<subseteq> {q. node_at doc q \<noteq> None \<and> p < q}"
        using r(2) by (auto intro: less_trans)
      ultimately show "{q. node_at doc q \<noteq> None \<and> r < q} \<subset> {q. node_at doc q \<noteq> None \<and> p < q}"
        by blast
    qed
    with assms(1) Some False show ?thesis by (simp add: walk_left_def)
  qed
qed

function FindChildElement_loop :: "dom \<Rightarrow> path \<Rightarrow> path option \<Rightarrow> path option" where
  "FindChildElement_loop doc pp None = None"
| "FindChildElement_loop doc pp (Some el) =
     (if el = pp then None
      else if is_sr_children doc el then Some el
      else if is_div doc el \<and> firstChild doc el \<noteq> None
      then FindChildElement_loop doc pp (firstChild doc el)
      else (case nextSibling doc el of
              Some s \<Rightarrow> FindChildElement_loop doc pp (Some s)
            | None \<Rightarrow> FindChildElement_loop doc pp (after_climb doc pp el)))"
  by pat_completeness auto
termination
proof (relation "measure (\<lambda>(doc, pp, el). walk_left doc pp el)")
  show "wf (measure (\<lambda>(doc, pp, el). walk_left doc pp el))" by simp
  show "((doc, pp, firstChild doc el), doc, pp, Some el) \<in> measure (\<lambda>(doc, pp, el). walk_left doc pp el)"
    if "el \<noteq> pp" for doc pp el
    using walk_left_decreases [OF that, of "firstChild doc el" doc] firstChild_forward by auto
  show "((doc, pp, after_climb doc pp el), doc, pp, Some el) \<in> measure (\<lambda>(doc, pp, el). walk_left doc pp el)"
    if "el \<noteq> pp" for doc pp el
    using walk_left_decreases [OF that, of "after_climb doc pp el" doc] after_climb_forward by auto
  show "((doc, pp, Some s), doc, pp, Some el) \<in> measure (\<lambda>(doc, pp, el). walk_left doc pp el)"
    if "el \<noteq> pp" "nextSibling doc el = Some s" for doc pp el s
    using walk_left_decreases [OF that(1), of "Some s" doc] nextSibling_forward [OF that(2)] by auto
qed

declare FindChildElement_loop.simps(2) [simp del]

text \<open>\<open>FindChildElement(id)\<close>: a missing element is dereferenced and throws.\<close>

definition FindChildElement :: "dom \<Rightarrow> jsstring \<Rightarrow> js_error + path option" where
  "FindChildElement doc i =
     (case getElementById doc i of
        None \<Rightarrow> Inl TypeError
      | Some pp \<Rightarrow> Inr (FindChildElement_loop doc pp (firstChild doc pp)))"

section \<open>The walk is a depth-first search\<close>

text \<open>
  The specification: below the children of the row, in order, an \<open>SRChildren\<close> division is the
  result; any other division is searched recursively; other elements are skipped.
\<close>

definition sr_children_elt :: "elt \<Rightarrow> bool" where
  "sr_children_elt e \<longleftrightarrow> nodeName e = js ''DIV'' \<and> className e = js ''SRChildren''"

fun sr_dfs :: "path \<Rightarrow> dom \<Rightarrow> path option"
  and sr_dfs_list :: "path \<Rightarrow> nat \<Rightarrow> dom list \<Rightarrow> path option" where
  "sr_dfs p (Elem e ts) =
     (if sr_children_elt e then Some p
      else if nodeName e = js ''DIV'' then sr_dfs_list p 0 ts
      else None)"
| "sr_dfs_list p i [] = None"
| "sr_dfs_list p i (t # ts) =
     (case sr_dfs (p @ [i]) t of Some r \<Rightarrow> Some r | None \<Rightarrow> sr_dfs_list p (Suc i) ts)"

definition walk_next :: "dom \<Rightarrow> path \<Rightarrow> path \<Rightarrow> path option" where
  "walk_next doc pp p =
     (case nextSibling doc p of Some s \<Rightarrow> Some s | None \<Rightarrow> after_climb doc pp p)"

lemma loop_Some:
  "FindChildElement_loop doc pp (Some el) =
     (if el = pp then None
      else if is_sr_children doc el then Some el
      else if is_div doc el \<and> firstChild doc el \<noteq> None
      then FindChildElement_loop doc pp (firstChild doc el)
      else FindChildElement_loop doc pp (walk_next doc pp el))"
  by (cases "nextSibling doc el")
    (auto simp: FindChildElement_loop.simps(2) [of doc pp el] walk_next_def)

lemma walk_next_last_child:
  assumes "node_at doc p = Some (Elem e us)"
  shows "walk_next doc pp (p @ [i]) =
     (if Suc i < length us then Some (p @ [Suc i])
      else if p = pp then Some pp else walk_next doc pp p)"
  using assms
  by (auto simp: walk_next_def after_climb_def nextSibling_def [of doc "p @ [i]"] node_at_snoc
      climb.simps [of doc pp "p @ [i]"] parentNode_def split: option.split)

text \<open>
  The two statements of the simulation, by induction over the search: at an element, the walk
  either returns what the search below it finds, or goes on behind it.
\<close>

lemma loop_dfs:
  "node_at doc p = Some t \<Longrightarrow> strict_prefix pp p \<Longrightarrow>
     FindChildElement_loop doc pp (Some p) =
       (case sr_dfs p t of
          Some r \<Rightarrow> Some r
        | None \<Rightarrow> FindChildElement_loop doc pp (walk_next doc pp p))"
  "node_at doc p = Some (Elem e us) \<Longrightarrow> prefix pp p \<Longrightarrow> ts = drop i us \<Longrightarrow> ts \<noteq> [] \<Longrightarrow>
     FindChildElement_loop doc pp (Some (p @ [i])) =
       (case sr_dfs_list p i ts of
          Some r \<Rightarrow> Some r
        | None \<Rightarrow> FindChildElement_loop doc pp (if p = pp then Some pp else walk_next doc pp p))"
proof (induction p t and p i ts arbitrary: and e us rule: sr_dfs_sr_dfs_list.induct)
  case (1 p e ts)
  have at: "elt_at doc p = Some e" using "1.prems"(1) by (simp add: elt_at_def)
  have ne: "p \<noteq> pp" using "1.prems"(2) by auto
  have div: "is_div doc p \<longleftrightarrow> nodeName e = js ''DIV''"
    and sr: "is_sr_children doc p \<longleftrightarrow> sr_children_elt e"
    by (simp_all add: is_div_def is_sr_children_def at sr_children_elt_def)
  have first: "firstChild doc p = (if ts = [] then None else Some (p @ [0]))"
    using "1.prems"(1) by (simp add: firstChild_def node_at_snoc)
  show ?case
  proof (cases "\<not> sr_children_elt e \<and> nodeName e = js ''DIV'' \<and> ts \<noteq> []")
    case True
    have "prefix pp p" using "1.prems"(2) by auto
    with True "1.IH" [OF _ _ "1.prems"(1)] ne div sr first show ?thesis
      by (simp add: loop_Some [of doc pp p])
  next
    case False
    with ne div sr first show ?thesis
      by (auto simp: loop_Some [of doc pp p])
  qed
next
  case (2 p i)
  then show ?case by simp
next
  case (3 p i t ts)
  have i: "i < length us" "us ! i = t" "ts = drop (Suc i) us"
    using "3.prems"(3,4) by (metis drop_all not_le)
      (metis "3.prems"(3) nth_via_drop, metis "3.prems"(3) drop_Suc tl_drop list.sel(3))
  have node: "node_at doc (p @ [i]) = Some t"
    using "3.prems"(1) i by (simp add: node_at_snoc)
  have pre: "strict_prefix pp (p @ [i])"
    using "3.prems"(2) by (simp add: prefix_snoc strict_prefix_def)
      (metis "3.prems"(2) not_Cons_self2 prefix_length_le append_self_conv same_prefix_nil)
  note step = "3.IH"(1) [OF node pre]
  show ?case
  proof (cases "ts = []")
    case True
    with i have "\<not> Suc i < length us" by auto
    then have last: "walk_next doc pp (p @ [i]) = (if p = pp then Some pp else walk_next doc pp p)"
      by (simp add: walk_next_last_child [OF "3.prems"(1)])
    from step have "FindChildElement_loop doc pp (Some (p @ [i])) =
        (case sr_dfs (p @ [i]) t of
           Some r \<Rightarrow> Some r
         | None \<Rightarrow> FindChildElement_loop doc pp (if p = pp then Some pp else walk_next doc pp p))"
      unfolding last .
    with True show ?thesis by (cases "sr_dfs (p @ [i]) t") simp_all
  next
    case False
    with i have "Suc i < length us" by (metis drop_all not_le)
    then have "walk_next doc pp (p @ [i]) = Some (p @ [Suc i])"
      by (simp add: walk_next_last_child [OF "3.prems"(1)])
    with step "3.IH"(2) [OF _ "3.prems"(1,2) i(3) False] show ?thesis
      by (cases "sr_dfs (p @ [i]) t") simp_all
  qed
qed

lemma loop_is_search:
  assumes "node_at doc pp = Some (Elem e us)"
  shows "FindChildElement_loop doc pp (firstChild doc pp) = sr_dfs_list pp 0 us"
proof (cases us)
  case Nil
  with assms show ?thesis by (simp add: firstChild_def node_at_snoc)
next
  case (Cons u us')
  with assms have "firstChild doc pp = Some (pp @ [0])"
    by (simp add: firstChild_def node_at_snoc)
  with assms Cons show ?thesis
    using loop_dfs(2) [of doc pp e us pp us 0]
    by (simp add: loop_Some [of doc pp pp] split: option.split)
qed

text \<open>
  C9. \<open>FindChildElement\<close> ends on every document. It throws exactly when no element has the
  id, and otherwise returns the first \<open>SRChildren\<close> division in document order that is reached
  from the element through divisions only, if there is one.
\<close>

theorem FindChildElement_search:
  "FindChildElement doc i =
     (case getElementById doc i of
        None \<Rightarrow> Inl TypeError
      | Some pp \<Rightarrow>
          Inr (case node_at doc pp of Some (Elem e us) \<Rightarrow> sr_dfs_list pp 0 us | None \<Rightarrow> None))"
proof (cases "getElementById doc i")
  case (Some pp)
  then obtain e us where "node_at doc pp = Some (Elem e us)"
    by (metis dom.exhaust getElementById_node not_Some_eq)
  with Some show ?thesis by (simp add: FindChildElement_def loop_is_search)
qed (simp add: FindChildElement_def)

end
