(* ===== verification/Search_Results.thy ===== *)
theory Search_Results
  imports Search_Ids Find_Child
begin

text \<open>
  The class \<open>SearchResults\<close> of \<^verbatim>\<open>search.js\<close> and the functions that build the
  results page. The page's document is a \<open>dom\<close>; the handlers return the new state and document
  and the list of effects on focus and on the enclosing window.
\<close>

record searchResults =
  lastMatchCount :: nat
  lastKey :: nat
  repeatOn :: bool

definition SearchResults :: searchResults where
  "SearchResults = \<lparr>lastMatchCount = 0, lastKey = 0, repeatOn = False\<rparr>"

record key_event =
  ev_type :: string
  keyCode :: nat
  shiftKey :: bool

datatype effect = Focus path | FocusSearchField | CloseResults

type_synonym sub_result = "jsstring \<times> nat \<times> jsstring"
type_synonym entry = "jsstring \<times> jsstring \<times> sub_result list"

section \<open>Building the page\<close>

definition setKeyActions :: "elt \<Rightarrow> jsstring \<Rightarrow> elt" where
  "setKeyActions elem action =
     setAttribute (setAttribute (setAttribute elem (js ''onkeydown'') action)
       (js ''onkeypress'') action) (js ''onkeyup'') action"

definition setClassAttr :: "elt \<Rightarrow> jsstring \<Rightarrow> elt" where
  "setClassAttr elem attr = setAttribute (setAttribute elem (js ''class'') attr) (js ''className'') attr"

definition item_id :: "int \<Rightarrow> jsstring" where
  "item_id k = js ''Item'' @ int_to_string k"

definition child_id :: "int \<Rightarrow> int \<Rightarrow> jsstring" where
  "child_id k c = item_id k @ js ''_c'' @ int_to_string c"

definition set_target :: "nat \<Rightarrow> elt \<Rightarrow> elt" where
  "set_target flag elem =
     (if flag \<noteq> 0 then setAttribute elem (js ''target'') (js ''_parent'') else elem)"

text \<open>The link of a row, before its \<open>href\<close> is known.\<close>

definition srLink :: "nat \<Rightarrow> jsstring \<Rightarrow> elt" where
  "srLink e name =
     (setClassAttr
       (setKeyActions (setAttribute (createElement (js ''A'')) (js ''id'') (item_id (int e)))
         (js ''return searchResults.Nav(event,'' @ nat_to_string e @ js '')''))
       (js ''SRSymbol''))\<lparr>innerHTML := name\<rparr>"

definition srScope :: "jsstring \<Rightarrow> elt" where
  "srScope scope = (setClassAttr (createElement (js ''SPAN'')) (js ''SRScope''))\<lparr>innerHTML := scope\<rparr>"

definition srChild :: "nat \<Rightarrow> nat \<Rightarrow> sub_result \<Rightarrow> dom" where
  "srChild e c sub =
     (case sub of (href, flag, scope) \<Rightarrow>
        let a = setAttribute (createElement (js ''A'')) (js ''id'') (child_id (int e) (int c));
            a = setKeyActions a (js ''return searchResults.NavChild(event,'' @ nat_to_string e
                  @ js '','' @ nat_to_string c @ js '')'');
            a = setClassAttr a (js ''SRScope'');
            a = setAttribute a (js ''href'') href;
            a = set_target flag a
        in Elem (a\<lparr>innerHTML := scope\<rparr>) [])"

fun srChildren_from :: "nat \<Rightarrow> nat \<Rightarrow> sub_result list \<Rightarrow> dom list" where
  "srChildren_from e c [] = []"
| "srChildren_from e c (sub # subs) = srChild e c sub # srChildren_from e (Suc c) subs"

definition srEntry :: "nat \<Rightarrow> entry \<Rightarrow> dom" where
  "srEntry e x =
     (case x of (i, name, subs) \<Rightarrow>
        Elem (setClassAttr (createElement (js ''DIV'')) (js ''SREntry''))
          (case subs of
             [(href, flag, scope)] \<Rightarrow>
               [Elem (set_target flag (setAttribute (srLink e name) (js ''href'') href)) [],
                Elem (srScope scope) []]
           | _ \<Rightarrow>
               [Elem (setAttribute (srLink e name) (js ''href'')
                  (js ''javascript:searchResults.Toggle(\"SR_'' @ i @ js ''\")'')) [],
                Elem (setClassAttr (createElement (js ''DIV'')) (js ''SRChildren''))
                  (srChildren_from e 0 subs)]))"

definition srResult :: "nat \<Rightarrow> entry \<Rightarrow> dom" where
  "srResult e x =
     Elem (setClassAttr (setAttribute (createElement (js ''DIV'')) (js ''id'') (js ''SR_'' @ fst x))
            (js ''SRResult''))
       [srEntry e x]"

fun srResults_from :: "nat \<Rightarrow> entry list \<Rightarrow> dom list" where
  "srResults_from e [] = []"
| "srResults_from e (x # xs) = srResult e x # srResults_from (Suc e) xs"

definition createResults :: "entry list \<Rightarrow> dom \<Rightarrow> js_error + dom" where
  "createResults searchData doc =
     (case getElementById doc (js ''SRResults'') of
        Some p \<Rightarrow> Inr (append_at p (srResults_from 0 searchData) doc)
      | None \<Rightarrow> if searchData = [] then Inr doc else Inl TypeError)"

section \<open>Toggling and searching\<close>

definition display_at :: "dom \<Rightarrow> path \<Rightarrow> jsstring" where
  "display_at doc p = (case elt_at doc p of Some e \<Rightarrow> display e | None \<Rightarrow> [])"

definition Toggle :: "jsstring \<Rightarrow> dom \<Rightarrow> js_error + dom" where
  "Toggle i doc =
     bindE (FindChildElement doc i) (\<lambda>element.
       case element of
         None \<Rightarrow> Inr doc
       | Some p \<Rightarrow>
           if display_at doc p = js ''block'' then Inr (set_display doc p (js ''none''))
           else Inr (set_display doc p (js ''block'')))"

text \<open>The search text of the page: the argument, or the query part of the page's address.\<close>

definition search_text :: "jsstring \<Rightarrow> jsstring option \<Rightarrow> jsstring" where
  "search_text location_search search =
     (case search of
        Some s \<Rightarrow> if s = [] then unescape (drop 1 location_search) else s
      | None \<Rightarrow> unescape (drop 1 location_search))"

definition search_id :: "host \<Rightarrow> jsstring \<Rightarrow> jsstring" where
  "search_id h search =
     convertToId (host_toLowerCase h (strip_trailing (strip_leading search)))"

definition is_row :: "elt \<Rightarrow> bool" where
  "is_row e \<longleftrightarrow> nodeName e = js ''DIV'' \<and> className e = js ''SRResult''"

definition row_matches :: "host \<Rightarrow> jsstring \<Rightarrow> elt \<Rightarrow> bool" where
  "row_matches h search e =
     (let rowMatchName = strip_sr (host_toLowerCase h (eid e))
      in length search \<le> length rowMatchName \<and> take (length search) rowMatchName = search)"

definition mark_row :: "host \<Rightarrow> jsstring \<Rightarrow> elt \<Rightarrow> elt" where
  "mark_row h search e =
     (if is_row e
      then e\<lparr>display := if row_matches h search e then js ''block'' else js ''none''\<rparr>
      else e)"

definition SearchResults_Search ::
  "host \<Rightarrow> jsstring \<Rightarrow> jsstring option \<Rightarrow> searchResults \<Rightarrow> dom \<Rightarrow> js_error + (bool \<times> searchResults \<times> dom)"
  where
  "SearchResults_Search h location_search search sr doc =
     (let s = search_id h (search_text location_search search);
          doc1 = map_dom (mark_row h s) doc;
          matches = length (filter (\<lambda>(p, e). is_row e \<and> row_matches h s e) (preorder [] doc))
      in case getElementById doc1 (js ''Searching'') of
           None \<Rightarrow> Inl TypeError
         | Some p \<Rightarrow>
             let doc2 = set_display doc1 p (js ''none'')
             in case getElementById doc2 (js ''NoMatches'') of
                  None \<Rightarrow> Inl TypeError
                | Some q \<Rightarrow>
                    Inr (True, sr\<lparr>lastMatchCount := matches\<rparr>,
                         set_display doc2 q (if matches = 0 then js ''block'' else js ''none'')))"

section \<open>Keyboard navigation\<close>

text \<open>Does the row of the link at this path show? \<open>focusItem.parentNode.parentNode.style.display=='block'\<close>\<close>

definition item_visible :: "dom \<Rightarrow> path \<Rightarrow> js_error + bool" where
  "item_visible doc p =
     (case grandparent p of
        None \<Rightarrow> Inl TypeError
      | Some g \<Rightarrow> Inr (display_at doc g = js ''block''))"

lemma inj_item_id: "inj item_id"
  by (auto simp: inj_def item_id_def)

lemma inj_child_id: "inj (child_id k)"
  by (auto simp: inj_def child_id_def)

lemma finite_items: "finite {k. getElementById doc (item_id k) \<noteq> None}"
  by (rule finite_indices [OF inj_item_id _ finite_ids [of doc]]) simp

lemma finite_item_children: "finite {c. getElementById doc (child_id k c) \<noteq> None}"
  by (rule finite_indices [OF inj_child_id _ finite_ids [of doc]]) simp

function NavNext :: "dom \<Rightarrow> int \<Rightarrow> js_error + path option" where
  "NavNext doc index =
     (case getElementById doc (item_id index) of
        None \<Rightarrow> Inr None
      | Some focusItem \<Rightarrow>
          bindE (item_visible doc focusItem) (\<lambda>v.
            if v then Inr (Some focusItem) else NavNext doc (index + 1)))"
  by pat_completeness auto
termination
  by (relation "measure (\<lambda>(doc, i). card {k. i \<le> k \<and> getElementById doc (item_id k) \<noteq> None})")
    (auto intro: card_scan_up [OF finite_items, simplified])

function NavPrev :: "dom \<Rightarrow> int \<Rightarrow> js_error + path option" where
  "NavPrev doc index =
     (case getElementById doc (item_id index) of
        None \<Rightarrow> Inr None
      | Some focusItem \<Rightarrow>
          bindE (item_visible doc focusItem) (\<lambda>v.
            if v then Inr (Some focusItem) else NavPrev doc (index - 1)))"
  by pat_completeness auto
termination
  by (relation "measure (\<lambda>(doc, i). card {k. k \<le> i \<and> getElementById doc (item_id k) \<noteq> None})")
    (auto intro: card_scan_down [OF finite_items, simplified])

text \<open>The loop of \<open>Nav\<close> that looks for the last child of an item.\<close>

function last_child :: "dom \<Rightarrow> int \<Rightarrow> int \<Rightarrow> path \<Rightarrow> path" where
  "last_child doc newIndex n focusItem =
     (case getElementById doc (child_id newIndex n) of
        Some tmpElem \<Rightarrow> last_child doc newIndex (n + 1) tmpElem
      | None \<Rightarrow> focusItem)"
  by pat_completeness auto
termination
  by (relation "measure (\<lambda>(doc, k, n, f). card {c. n \<le> c \<and> getElementById doc (child_id k c) \<noteq> None})")
    (auto intro: card_scan_up [OF finite_item_children, simplified])

declare NavNext.simps [simp del] NavPrev.simps [simp del] last_child.simps [simp del]

definition ProcessKeys :: "key_event \<Rightarrow> searchResults \<Rightarrow> bool \<times> searchResults" where
  "ProcessKeys e sr =
     (if ev_type e = ''keydown'' then
        let sr = sr\<lparr>repeatOn := False, lastKey := keyCode e\<rparr> in (lastKey sr \<noteq> 0, sr)
      else if ev_type e = ''keypress'' then
        (if \<not> repeatOn sr then (False, if lastKey sr \<noteq> 0 then sr\<lparr>repeatOn := True\<rparr> else sr)
         else (lastKey sr \<noteq> 0, sr))
      else if ev_type e = ''keyup'' then
        let sr = sr\<lparr>lastKey := 0, repeatOn := False\<rparr> in (lastKey sr \<noteq> 0, sr)
      else (lastKey sr \<noteq> 0, sr))"

text \<open>\<open>FindChildElement(item.parentNode.parentNode.id)\<close>\<close>

definition FindChildOfItem :: "dom \<Rightarrow> path \<Rightarrow> js_error + path option" where
  "FindChildOfItem doc item =
     (case Option.bind (grandparent item) (elt_at doc) of
        None \<Rightarrow> Inl TypeError
      | Some row \<Rightarrow> FindChildElement doc (eid row))"

text \<open>\<open>document.getElementById(id)\<close> where the result is dereferenced at once.\<close>

definition getElement :: "dom \<Rightarrow> jsstring \<Rightarrow> js_error + path" where
  "getElement doc i = (case getElementById doc i of None \<Rightarrow> Inl TypeError | Some p \<Rightarrow> Inr p)"

definition Nav_up :: "int \<Rightarrow> dom \<Rightarrow> js_error + effect list" where
  "Nav_up itemIndex doc =
     (let newIndex = itemIndex - 1 in
      bindE (NavPrev doc newIndex) (\<lambda>focusItem.
        case focusItem of
          None \<Rightarrow> Inr [FocusSearchField]
        | Some p \<Rightarrow>
            bindE (FindChildOfItem doc p) (\<lambda>child.
              case child of
                Some c \<Rightarrow>
                  if display_at doc c = js ''block'' then Inr [Focus (last_child doc newIndex 0 p)]
                  else Inr [Focus p]
              | None \<Rightarrow> Inr [Focus p])))"

definition Nav_down :: "int \<Rightarrow> dom \<Rightarrow> js_error + effect list" where
  "Nav_down itemIndex doc =
     bindE (getElement doc (item_id itemIndex)) (\<lambda>item.
     bindE (FindChildOfItem doc item) (\<lambda>elem.
     bindE (case (case elem of
                    Some c \<Rightarrow> if display_at doc c = js ''block''
                              then getElementById doc (child_id itemIndex 0) else None
                  | None \<Rightarrow> None) of
              Some f \<Rightarrow> Inr (Some f)
            | None \<Rightarrow> NavNext doc (itemIndex + 1)) (\<lambda>focusItem.
     case focusItem of Some f \<Rightarrow> Inr [Focus f] | None \<Rightarrow> Inr [])))"

text \<open>Right and left arrow: show or hide the children of the item.\<close>

definition Nav_expand :: "int \<Rightarrow> jsstring \<Rightarrow> dom \<Rightarrow> js_error + dom" where
  "Nav_expand itemIndex v doc =
     bindE (getElement doc (item_id itemIndex)) (\<lambda>item.
     bindE (FindChildOfItem doc item) (\<lambda>elem.
     case elem of Some c \<Rightarrow> Inr (set_display doc c v) | None \<Rightarrow> Inr doc))"

type_synonym nav_result = "js_error + (bool \<times> searchResults \<times> dom \<times> effect list)"

definition Nav :: "key_event \<Rightarrow> int \<Rightarrow> searchResults \<Rightarrow> dom \<Rightarrow> nav_result" where
  "Nav e itemIndex sr doc =
     (if keyCode e = 13 then Inr (True, sr, doc, [])
      else case ProcessKeys e sr of (go, sr) \<Rightarrow>
        if \<not> go then Inr (False, sr, doc, [])
        else if lastKey sr = 38 then
          bindE (Nav_up itemIndex doc) (\<lambda>fx. Inr (False, sr, doc, fx))
        else if lastKey sr = 40 then
          bindE (Nav_down itemIndex doc) (\<lambda>fx. Inr (False, sr, doc, fx))
        else if lastKey sr = 39 then
          bindE (Nav_expand itemIndex (js ''block'') doc) (\<lambda>doc. Inr (False, sr, doc, []))
        else if lastKey sr = 37 then
          bindE (Nav_expand itemIndex (js ''none'') doc) (\<lambda>doc. Inr (False, sr, doc, []))
        else if lastKey sr = 27 then Inr (False, sr, doc, [CloseResults, FocusSearchField])
        else if lastKey sr = 13 then Inr (True, sr, doc, [])
        else Inr (False, sr, doc, []))"

definition NavChild :: "key_event \<Rightarrow> int \<Rightarrow> int \<Rightarrow> searchResults \<Rightarrow> dom \<Rightarrow> nav_result" where
  "NavChild e itemIndex childIndex sr doc =
     (if keyCode e = 13 then Inr (True, sr, doc, [])
      else case ProcessKeys e sr of (go, sr) \<Rightarrow>
        if \<not> go then Inr (False, sr, doc, [])
        else if lastKey sr = 38 then
          bindE (getElement doc (if childIndex > 0 then child_id itemIndex (childIndex - 1)
                                 else item_id itemIndex)) (\<lambda>f. Inr (False, sr, doc, [Focus f]))
        else if lastKey sr = 40 then
          bindE (case getElementById doc (child_id itemIndex (childIndex + 1)) of
                   Some f \<Rightarrow> Inr (Some f)
                 | None \<Rightarrow> NavNext doc (itemIndex + 1)) (\<lambda>elem.
            Inr (False, sr, doc, case elem of Some f \<Rightarrow> [Focus f] | None \<Rightarrow> []))
        else if lastKey sr = 27 then Inr (False, sr, doc, [CloseResults, FocusSearchField])
        else if lastKey sr = 13 then Inr (True, sr, doc, [])
        else Inr (False, sr, doc, []))"

text \<open>
  The static part of a results page (\<^verbatim>\<open>all_0.html\<close> and its kin): the status
  lines and the empty container of the rows, below the body.
\<close>

definition status_div :: "string \<Rightarrow> jsstring \<Rightarrow> elt" where
  "status_div i v =
     \<lparr>nodeName = js ''DIV'', attrs = [(js ''class'', js ''SRStatus''), (js ''id'', js i)],
      display = v, innerHTML = []\<rparr>"

definition results_body :: dom where
  "results_body =
     Elem (createElement (js ''BODY''))
       [Elem (setAttribute (createElement (js ''DIV'')) (js ''id'') (js ''SRIndex''))
          [Elem (status_div ''Loading'' []) [],
           Elem (setAttribute (createElement (js ''DIV'')) (js ''id'') (js ''SRResults'')) [],
           Elem (status_div ''Searching'' []) [],
           Elem (status_div ''NoMatches'' []) []]]"

text \<open>
  Loading a results page: build the rows, hide the two status lines, create the
  \<open>SearchResults\<close> object and search for the text in the page's address.
\<close>

definition hide :: "string \<Rightarrow> dom \<Rightarrow> js_error + dom" where
  "hide i doc = bindE (getElement doc (js i)) (\<lambda>p. Inr (set_display doc p (js ''none'')))"

definition load_results ::
  "host \<Rightarrow> entry list \<Rightarrow> jsstring \<Rightarrow> js_error + (bool \<times> searchResults \<times> dom)" where
  "load_results h searchData location_search =
     bindE (createResults searchData results_body) (\<lambda>doc.
     bindE (hide ''Loading'' doc) (\<lambda>doc.
     bindE (hide ''NoMatches'' doc) (\<lambda>doc.
     SearchResults_Search h location_search None SearchResults doc)))"

section \<open>The contract of the scans\<close>

text \<open>
  \<open>NavNext\<close> and \<open>NavPrev\<close> are the same scan in two directions: from an index on,
  over the items that exist, to the first one that shows.
\<close>

locale item_scan =
  fixes lookup :: "int \<Rightarrow> 'p option" and visible :: "'p \<Rightarrow> 'e + bool" and d :: int
    and scan :: "int \<Rightarrow> 'e + 'p option"
  assumes scan_unfold:
    "scan i = (case lookup i of
                 None \<Rightarrow> Inr None
               | Some p \<Rightarrow> bindE (visible p) (\<lambda>v. if v then Inr (Some p) else scan (i + d)))"
begin

lemma scan_skip:
  "(\<And>m. m < n \<Longrightarrow> \<exists>p. lookup (i + d * int m) = Some p \<and> visible p = Inr False) \<Longrightarrow>
   scan i = scan (i + d * int n)"
proof (induction n arbitrary: i)
  case 0
  then show ?case by simp
next
  case (Suc n)
  from Suc.prems [of 0] have "scan i = scan (i + d)"
    by (auto simp: scan_unfold [of i])
  also have "\<dots> = scan (i + d + d * int n)"
  proof (rule Suc.IH)
    show "\<exists>p. lookup (i + d + d * int m) = Some p \<and> visible p = Inr False" if "m < n" for m
      using Suc.prems [of "Suc m"] that by (simp add: algebra_simps)
  qed
  also have "i + d + d * int n = i + d * int (Suc n)" by (simp add: algebra_simps)
  finally show ?case .
qed

lemma scan_found:
  assumes "\<And>m. m < n \<Longrightarrow> \<exists>p. lookup (i + d * int m) = Some p \<and> visible p = Inr False"
    and "lookup (i + d * int n) = Some p" and "visible p = Inr True"
  shows "scan i = Inr (Some p)"
  using scan_skip [OF assms(1)] assms(2,3) by (simp add: scan_unfold [of "i + d * int n"])

lemma scan_end:
  assumes "\<And>m. m < n \<Longrightarrow> \<exists>p. lookup (i + d * int m) = Some p \<and> visible p = Inr False"
    and "lookup (i + d * int n) = None"
  shows "scan i = Inr None"
  using scan_skip [OF assms(1)] assms(2) by (simp add: scan_unfold [of "i + d * int n"])

end

interpretation navNext: item_scan "\<lambda>k. getElementById doc (item_id k)" "item_visible doc" 1 "NavNext doc"
  for doc
  by unfold_locales (rule NavNext.simps)

interpretation navPrev: item_scan "\<lambda>k. getElementById doc (item_id k)" "item_visible doc" "- 1" "NavPrev doc"
  for doc
proof unfold_locales
  show "NavPrev doc i = (case getElementById doc (item_id i) of
      None \<Rightarrow> Inr None
    | Some p \<Rightarrow> bindE (item_visible doc p) (\<lambda>v. if v then Inr (Some p) else NavPrev doc (i + - 1)))" for i
    unfolding add_uminus_conv_diff by (rule NavPrev.simps)
qed

end
