(* ===== verification/Results_Page.thy ===== *)
theory Results_Page
  imports Search_Results
begin

text \<open>
  The pages that \<open>createResults\<close> builds. The theory describes where every id of such a page
  is, shows that the handlers change nothing but \<open>style.display\<close>, and derives from it what
  the lookups, the search and the navigation do on a results page.
\<close>

definition results_page :: "dom list \<Rightarrow> dom" where
  "results_page rows =
     Elem (createElement (js ''BODY''))
       [Elem (setAttribute (createElement (js ''DIV'')) (js ''id'') (js ''SRIndex''))
          [Elem (status_div ''Loading'' []) [],
           Elem (setAttribute (createElement (js ''DIV'')) (js ''id'') (js ''SRResults'')) rows,
           Elem (status_div ''Searching'' []) [],
           Elem (status_div ''NoMatches'' []) []]]"

definition page_of :: "entry list \<Rightarrow> dom" where
  "page_of searchData = results_page (srResults_from 0 searchData)"

definition id_at :: "dom \<Rightarrow> path \<Rightarrow> jsstring option" where
  "id_at doc p = Option.bind (elt_at doc p) (\<lambda>e. map_of (attrs e) (js ''id''))"

text \<open>The document without the inline styles: what the handlers keep.\<close>

definition unstyled :: "dom \<Rightarrow> dom" where
  "unstyled = map_dom (\<lambda>e. e\<lparr>display := []\<rparr>)"

definition is_results_page :: "entry list \<Rightarrow> dom \<Rightarrow> bool" where
  "is_results_page searchData doc \<longleftrightarrow> unstyled doc = unstyled (page_of searchData)"

section \<open>Where the ids are\<close>

lemma getElementById_iff:
  assumes "\<And>q. id_at doc q = Some i \<Longrightarrow> q = p"
  shows "getElementById doc i = (if id_at doc p = Some i then Some p else None)"
proof (cases "getElementById doc i")
  case None
  then show ?thesis by (auto simp: getElementById_None id_at_def bind_eq_Some_conv)
next
  case (Some q)
  then have "id_at doc q = Some i"
    by (elim getElementById_SomeD) (simp add: id_at_def)
  with assms Some show ?thesis by auto
qed

lemma attrs_setAttribute [simp]:
  "map_of (attrs (setAttribute e a v)) b = (if a = b then Some v else map_of (attrs e) b)"
  by (simp add: setAttribute_def update_conv')

lemma attrs_createElement [simp]: "attrs (createElement t) = []"
  by (simp add: createElement_def)

lemma nodeName_simps [simp]:
  "nodeName (createElement t) = t"
  "nodeName (setAttribute e a v) = nodeName e"
  "nodeName (setClassAttr e c) = nodeName e"
  "nodeName (setKeyActions e c) = nodeName e"
  by (simp_all add: createElement_def setAttribute_def setClassAttr_def setKeyActions_def)

lemma className_simps [simp]:
  "className (setClassAttr e c) = c"
  "className (createElement t) = []"
  by (simp_all add: className_def getAttr_def setClassAttr_def)

lemma id_at_simps [simp]:
  "id_at (Elem e ts) [] = map_of (attrs e) (js ''id'')"
  "id_at (Elem e ts) (i # p) = (if i < length ts then id_at (ts ! i) p else None)"
  by (simp_all add: id_at_def)

lemma length_srChildren [simp]: "length (srChildren_from e c subs) = length subs"
  by (induction e c subs rule: srChildren_from.induct) auto

lemma nth_srChildren:
  "i < length subs \<Longrightarrow> srChildren_from e c subs ! i = srChild e (c + i) (subs ! i)"
  by (induction e c subs arbitrary: i rule: srChildren_from.induct) (auto simp: nth_Cons split: nat.split)

lemma length_srResults [simp]: "length (srResults_from e xs) = length xs"
  by (induction e xs rule: srResults_from.induct) auto

lemma nth_srResults:
  "i < length xs \<Longrightarrow> srResults_from e xs ! i = srResult (e + i) (xs ! i)"
  by (induction e xs arbitrary: i rule: srResults_from.induct) (auto simp: nth_Cons split: nat.split)

lemma srChild_id: "id_at (srChild e c sub) q = (if q = [] then Some (child_id (int e) (int c)) else None)"
  by (cases q) (auto simp: srChild_def Let_def setKeyActions_def setClassAttr_def set_target_def
      split: prod.split)

lemma srLink_id: "map_of (attrs (srLink e name)) (js ''id'') = Some (item_id (int e))"
  by (simp add: srLink_def setKeyActions_def setClassAttr_def)

lemma set_target_id [simp]: "map_of (attrs (set_target f e)) (js ''id'') = map_of (attrs e) (js ''id'')"
  by (simp add: set_target_def)

definition subs :: "entry \<Rightarrow> sub_result list" where
  "subs x = snd (snd x)"

text \<open>The list of links below the link of a row, present when there is not exactly one result.\<close>

definition multiple :: "entry \<Rightarrow> bool" where
  "multiple x \<longleftrightarrow> length (subs x) \<noteq> 1"

lemma srEntry_cases:
  "srEntry e x =
     Elem (setClassAttr (createElement (js ''DIV'')) (js ''SREntry''))
       (if multiple x
        then [Elem (setAttribute (srLink e (fst (snd x))) (js ''href'')
                (js ''javascript:searchResults.Toggle(\"SR_'' @ fst x @ js ''\")'')) [],
              Elem (setClassAttr (createElement (js ''DIV'')) (js ''SRChildren''))
                (srChildren_from e 0 (subs x))]
        else [Elem (set_target (fst (snd (hd (subs x))))
                (setAttribute (srLink e (fst (snd x))) (js ''href'') (fst (hd (subs x))))) [],
              Elem (srScope (snd (snd (hd (subs x))))) []])"
  by (cases x) (auto simp: srEntry_def subs_def multiple_def split: list.splits prod.splits)

lemma srResult_id:
  "id_at (srResult e x) r = Some i \<longleftrightarrow>
     r = [] \<and> i = js ''SR_'' @ fst x \<or>
     r = [0, 0] \<and> i = item_id (int e) \<or>
     (\<exists>c. multiple x \<and> c < length (subs x) \<and> r = [0, 1, c] \<and> i = child_id (int e) (int c))"
proof -
  consider "r = []" | "r = [0]" | j where "r = [0, j]" | j c q where "r = 0 # j # c # q" | a q where "r = Suc a # q"
    by (metis not0_implies_Suc neq_Nil_conv)
  then show ?thesis
  proof cases
    case 1
    then show ?thesis by (auto simp: srResult_def setClassAttr_def)
  next
    case 2
    then show ?thesis by (simp add: srResult_def srEntry_cases setClassAttr_def)
  next
    case (3 j)
    then show ?thesis
      by (auto simp: srResult_def srEntry_cases setClassAttr_def srLink_id srScope_def nth_Cons
          split: nat.split)
  next
    case (4 j c q)
    then show ?thesis
      by (auto simp: srResult_def srEntry_cases nth_Cons nth_srChildren srChild_id split: nat.split
          if_splits)
  next
    case (5 a q)
    then show ?thesis by (simp add: srResult_def)
  qed
qed

lemma page_of_row: "id_at (page_of xs) (0 # 1 # k # r) =
    (if k < length xs then id_at (srResult k (xs ! k)) r else None)"
  by (simp add: page_of_def results_page_def nth_srResults)

lemma page_of_id:
  "id_at (page_of xs) q = Some i \<longleftrightarrow>
     (q, i) \<in> {([0], js ''SRIndex''), ([0, 0], js ''Loading''), ([0, 1], js ''SRResults''),
               ([0, 2], js ''Searching''), ([0, 3], js ''NoMatches'')} \<or>
     (\<exists>k r. q = 0 # 1 # k # r \<and> k < length xs \<and> id_at (srResult k (xs ! k)) r = Some i)"
proof -
  consider "q = []" | "q = [0]" | "q = [0, 1]" | j where "q = [0, j]" "j \<noteq> 1"
    | k r where "q = 0 # 1 # k # r" | j k r where "q = 0 # j # k # r" "j \<noteq> 1" | a r where "q = Suc a # r"
    by (metis not0_implies_Suc neq_Nil_conv)
  then show ?thesis
  proof cases
    case (4 j)
    then show ?thesis
      by (auto simp: page_of_def results_page_def status_div_def nth_Cons' less_Suc_eq numeral_eq_Suc
          split: if_splits)
  next
    case (5 k r)
    then show ?thesis by (auto simp: page_of_row [simplified])
  next
    case (6 j k r)
    then show ?thesis
      by (auto simp: page_of_def results_page_def nth_Cons' split: if_splits)
  qed (auto simp: page_of_def results_page_def)
qed

section \<open>Ids are distinct\<close>

lemma int_to_string_no_underscore: "95 \<notin> set (int_to_string k)"
  using int_to_string_units [of 95 k] by auto

lemma split_at_underscore:
  assumes "int_to_string k @ 95 # s = int_to_string l @ 95 # t"
  shows "k = l \<and> s = t"
proof -
  have "takeWhile (\<lambda>c. c \<noteq> 95) (int_to_string j @ 95 # u) = int_to_string j" for j u
    using int_to_string_no_underscore [of j] by (auto simp: takeWhile_tail)
  with assms have "int_to_string k = int_to_string l" by metis
  with assms show ?thesis by simp
qed

lemma child_id_inject [simp]: "child_id k c = child_id l d \<longleftrightarrow> k = l \<and> c = d"
  by (auto simp: child_id_def item_id_def js_def dest: split_at_underscore)

lemma item_id_inject [simp]: "item_id k = item_id l \<longleftrightarrow> k = l"
  by (simp add: item_id_def)

lemma child_not_item [simp]: "child_id k c \<noteq> item_id l" "item_id l \<noteq> child_id k c"
proof -
  have "95 \<in> set (child_id k c)" by (simp add: child_id_def js_def)
  moreover have "95 \<notin> set (item_id l)"
    using int_to_string_no_underscore [of l] by (simp add: item_id_def js_def)
  ultimately show "child_id k c \<noteq> item_id l" "item_id l \<noteq> child_id k c" by metis+
qed

text \<open>The first three units tell the kinds of ids apart.\<close>

lemma id_kind:
  "take 3 (item_id k) = js ''Ite''"
  "take 3 (child_id k c) = js ''Ite''"
  "take 3 (js ''SR_'' @ s) = js ''SR_''"
  "take 3 (js i) = js (take 3 i)"
  by (simp_all add: item_id_def child_id_def js_def take_map)

lemma item_not_row [simp]:
  "item_id k \<noteq> js ''SR_'' @ s" "child_id k c \<noteq> js ''SR_'' @ s"
  "js ''SR_'' @ s \<noteq> item_id k" "js ''SR_'' @ s \<noteq> child_id k c"
  by (simp_all add: item_id_def child_id_def js_def)

lemma id_not_literal [simp]:
  "take 3 i \<noteq> ''Ite'' \<Longrightarrow> item_id k \<noteq> js i" "take 3 i \<noteq> ''Ite'' \<Longrightarrow> js i \<noteq> item_id k"
  "take 3 i \<noteq> ''Ite'' \<Longrightarrow> child_id k c \<noteq> js i" "take 3 i \<noteq> ''Ite'' \<Longrightarrow> js i \<noteq> child_id k c"
  "take 3 i \<noteq> ''SR_'' \<Longrightarrow> js ''SR_'' @ s \<noteq> js i" "take 3 i \<noteq> ''SR_'' \<Longrightarrow> js i \<noteq> js ''SR_'' @ s"
  by (metis id_kind js_inject)+

section \<open>Lookup on a page\<close>

lemma page_item:
  "getElementById (page_of xs) (item_id k) =
     (if 0 \<le> k \<and> k < int (length xs) then Some [0, 1, nat k, 0, 0] else None)"
proof -
  have uniq: "q = [0, 1, nat k, 0, 0] \<and> 0 \<le> k \<and> k < int (length xs)"
    if "id_at (page_of xs) q = Some (item_id k)" for q
    using that by (auto simp: page_of_id srResult_id)
  have "id_at (page_of xs) [0, 1, nat k, 0, 0] = Some (item_id k) \<longleftrightarrow> 0 \<le> k \<and> k < int (length xs)"
    using uniq [of "[0, 1, nat k, 0, 0]"] by (auto simp: page_of_id srResult_id)
  then show ?thesis
    using getElementById_iff [of "page_of xs" "item_id k" "[0, 1, nat k, 0, 0]"] uniq by auto
qed

lemma page_child:
  "getElementById (page_of xs) (child_id k c) =
     (if 0 \<le> k \<and> k < int (length xs) \<and> multiple (xs ! nat k) \<and> 0 \<le> c \<and>
         c < int (length (subs (xs ! nat k)))
      then Some [0, 1, nat k, 0, 1, nat c] else None)"
proof -
  let ?in = "0 \<le> k \<and> k < int (length xs) \<and> multiple (xs ! nat k) \<and> 0 \<le> c \<and>
         c < int (length (subs (xs ! nat k)))"
  have uniq: "q = [0, 1, nat k, 0, 1, nat c] \<and> ?in"
    if "id_at (page_of xs) q = Some (child_id k c)" for q
    using that by (auto simp: page_of_id srResult_id)
  have "id_at (page_of xs) [0, 1, nat k, 0, 1, nat c] = Some (child_id k c) \<longleftrightarrow> ?in"
    using uniq [of "[0, 1, nat k, 0, 1, nat c]"] by (auto simp: page_of_id srResult_id)
  then show ?thesis
    using getElementById_iff [of "page_of xs" "child_id k c" "[0, 1, nat k, 0, 1, nat c]"] uniq by auto
qed

lemma page_status:
  "getElementById (page_of xs) (js ''Loading'') = Some [0, 0]"
  "getElementById (page_of xs) (js ''Searching'') = Some [0, 2]"
  "getElementById (page_of xs) (js ''NoMatches'') = Some [0, 3]"
  using getElementById_iff [of "page_of xs" "js ''Loading''" "[0, 0]"]
    getElementById_iff [of "page_of xs" "js ''Searching''" "[0, 2]"]
    getElementById_iff [of "page_of xs" "js ''NoMatches''" "[0, 3]"]
  by (auto simp: page_of_id srResult_id)

lemma page_row:
  assumes "distinct (map fst xs)" and "k < length xs"
  shows "getElementById (page_of xs) (js ''SR_'' @ fst (xs ! k)) = Some [0, 1, k]"
proof -
  have uniq: "q = [0, 1, k]" if "id_at (page_of xs) q = Some (js ''SR_'' @ fst (xs ! k))" for q
    using that assms
    by (auto simp: page_of_id srResult_id dest: nth_eq_iff_index_eq)
  have "id_at (page_of xs) [0, 1, k] = Some (js ''SR_'' @ fst (xs ! k))"
    using assms by (simp add: page_of_id srResult_id)
  then show ?thesis by (simp only: getElementById_iff [OF uniq] if_True simp_thms)
qed

section \<open>The handlers only change styles\<close>

lemma node_at_map_dom: "node_at (map_dom g t) p = map_option (map_dom g) (node_at t p)"
proof (induction p arbitrary: t)
  case (Cons i p)
  then show ?case by (cases t) simp
qed simp

lemma sr_dfs_map_dom:
  assumes "\<And>e. nodeName (g e) = nodeName e" and "\<And>e. attrs (g e) = attrs e"
  shows "sr_dfs p (map_dom g t) = sr_dfs p t"
    and "sr_dfs_list p i (map (map_dom g) ts) = sr_dfs_list p i ts"
  by (induction p t and p i ts rule: sr_dfs_sr_dfs_list.induct)
    (auto simp: assms sr_children_elt_def className_def getAttr_def split: option.split)

lemma getElementById_unstyled: "getElementById (unstyled doc) i = getElementById doc i"
  by (simp add: unstyled_def getElementById_map_dom)

lemma FindChildElement_unstyled: "FindChildElement (unstyled doc) i = FindChildElement doc i"
proof (cases "getElementById doc i")
  case None
  then show ?thesis by (simp add: FindChildElement_def getElementById_unstyled)
next
  case (Some pp)
  then obtain e ts where node: "node_at doc pp = Some (Elem e ts)"
    using getElementById_node by (metis dom.exhaust option.exhaust)
  then have "node_at (unstyled doc) pp =
      Some (Elem (e\<lparr>display := []\<rparr>) (map (map_dom (\<lambda>e. e\<lparr>display := []\<rparr>)) ts))"
    by (simp add: unstyled_def node_at_map_dom)
  from loop_is_search [OF this] loop_is_search [OF node] Some show ?thesis
    by (simp add: FindChildElement_def getElementById_unstyled sr_dfs_map_dom)
qed

lemma unstyled_update:
  "unstyled (update_at p (\<lambda>e. e\<lparr>display := v\<rparr>) doc) = unstyled doc"
  by (simp add: unstyled_def map_dom_update)

lemma unstyled_map_dom:
  assumes "\<And>e. (g e)\<lparr>display := []\<rparr> = e\<lparr>display := []\<rparr>"
  shows "unstyled (map_dom g doc) = unstyled doc"
proof -
  have "map_dom (\<lambda>e. e\<lparr>display := []\<rparr>) (map_dom g t) = map_dom (\<lambda>e. e\<lparr>display := []\<rparr>) t" for t
    by (induction t) (simp add: assms)
  then show ?thesis by (simp add: unstyled_def)
qed

lemma is_results_page_of [simp]: "is_results_page xs (page_of xs)"
  by (simp add: is_results_page_def)

lemma is_results_page_display [simp]:
  "is_results_page xs (set_display doc p v) \<longleftrightarrow> is_results_page xs doc"
  by (simp add: is_results_page_def set_display_def unstyled_update)

lemma is_results_page_mark [simp]:
  "is_results_page xs (map_dom (mark_row h s) doc) \<longleftrightarrow> is_results_page xs doc"
  by (simp add: is_results_page_def unstyled_map_dom mark_row_def)

lemma page_lookup: "is_results_page xs doc \<Longrightarrow> getElementById doc i = getElementById (page_of xs) i"
  by (metis getElementById_unstyled is_results_page_def)

lemma page_find: "is_results_page xs doc \<Longrightarrow> FindChildElement doc i = FindChildElement (page_of xs) i"
  by (metis FindChildElement_unstyled is_results_page_def)

lemma page_elt:
  assumes "is_results_page xs doc"
  shows "map_option (\<lambda>e. e\<lparr>display := []\<rparr>) (elt_at doc p) =
         map_option (\<lambda>e. e\<lparr>display := []\<rparr>) (elt_at (page_of xs) p)"
  using assms by (metis elt_at_map_dom is_results_page_def unstyled_def)

section \<open>Rows\<close>

definition row_shown :: "dom \<Rightarrow> nat \<Rightarrow> bool" where
  "row_shown doc k \<longleftrightarrow> display_at doc [0, 1, k] = js ''block''"

lemma page_node_row:
  "k < length xs \<Longrightarrow> node_at (page_of xs) [0, 1, k] = Some (srResult k (xs ! k))"
  by (simp add: page_of_def results_page_def nth_srResults)

lemma srResult_row:
  "nodeName (root_elt (srResult k x)) = js ''DIV''"
  "className (root_elt (srResult k x)) = js ''SRResult''"
  "eid (root_elt (srResult k x)) = js ''SR_'' @ fst x"
  by (simp_all add: srResult_def eid_def getAttr_def setClassAttr_def className_def)

lemma page_row_elt:
  assumes "is_results_page xs doc" and "k < length xs"
  obtains e where "elt_at doc [0, 1, k] = Some e" and "eid e = js ''SR_'' @ fst (xs ! k)"
    and "is_row e"
proof -
  have "elt_at (page_of xs) [0, 1, k] = Some (root_elt (srResult k (xs ! k)))"
    using assms(2) by (simp add: elt_at_def page_node_row [simplified])
  with page_elt [OF assms(1), of "[0, 1, k]"] obtain e where e: "elt_at doc [0, 1, k] = Some e"
    and "e\<lparr>display := []\<rparr> = (root_elt (srResult k (xs ! k)))\<lparr>display := []\<rparr>"
    by auto
  then have "attrs e = attrs (root_elt (srResult k (xs ! k)))"
    and "nodeName e = nodeName (root_elt (srResult k (xs ! k)))"
    by (metis elt.select_convs(2) elt.update_convs(3) elt.surjective)
      (metis \<open>e\<lparr>display := []\<rparr> = _\<close> elt.select_convs(1) elt.update_convs(3) elt.surjective)
  then have "eid e = js ''SR_'' @ fst (xs ! k)" and "is_row e"
    using srResult_row [of k "xs ! k"] by (simp_all add: eid_def is_row_def className_def getAttr_def)
  with e that show thesis by blast
qed

text \<open>The sub-results of a row are found exactly when the row has several results.\<close>

lemma page_FindChild:
  assumes "is_results_page xs doc" and "distinct (map fst xs)" and "k < length xs"
  shows "FindChildElement doc (js ''SR_'' @ fst (xs ! k)) =
     Inr (if multiple (xs ! k) then Some [0, 1, k, 0, 1] else None)"
proof -
  have node: "node_at (page_of xs) [0, 1, k] =
      Some (Elem (root_elt (srResult k (xs ! k))) [srEntry k (xs ! k)])"
    using assms(3) by (simp add: page_node_row [simplified] srResult_def)
  have "FindChildElement (page_of xs) (js ''SR_'' @ fst (xs ! k)) =
      Inr (sr_dfs_list [0, 1, k] 0 [srEntry k (xs ! k)])"
    using page_row [OF assms(2,3)] loop_is_search [OF node] by (simp add: FindChildElement_def)
  also have "sr_dfs_list [0, 1, k] 0 [srEntry k (xs ! k)] =
      (if multiple (xs ! k) then Some [0, 1, k, 0, 1] else None)"
    by (simp add: srEntry_cases sr_children_elt_def srLink_def srScope_def set_target_def)
  finally show ?thesis by (simp add: page_find [OF assms(1)])
qed

lemma page_item_visible:
  "item_visible doc [0, 1, k, 0, 0] = Inr (row_shown doc k)"
  by (simp add: item_visible_def grandparent_def parentNode_def row_shown_def)

lemma page_FindChildOfItem:
  assumes "is_results_page xs doc" and "distinct (map fst xs)" and "k < length xs"
  shows "FindChildOfItem doc [0, 1, k, 0, 0] =
     Inr (if multiple (xs ! k) then Some [0, 1, k, 0, 1] else None)"
proof -
  obtain e where "elt_at doc [0, 1, k] = Some e" and "eid e = js ''SR_'' @ fst (xs ! k)"
    using assms(1,3) by (rule page_row_elt)
  then show ?thesis
    by (simp add: FindChildOfItem_def grandparent_def parentNode_def page_FindChild [OF assms])
qed

end
