(* ===== verification/Page_Search.thy ===== *)
theory Page_Search
  imports Results_Page
begin

text \<open>
  What the search and the keyboard navigation do on a results page: \<open>NavNext\<close> and
  \<open>NavPrev\<close> find the nearest row that shows, a search shows exactly the rows whose id starts
  with the encoded search text, and no key makes a handler throw.
\<close>

section \<open>Navigation between rows\<close>

lemma find_upt_Some:
  "find P [i..<n] = Some k \<longleftrightarrow> i \<le> k \<and> k < n \<and> P k \<and> (\<forall>j. i \<le> j \<longrightarrow> j < k \<longrightarrow> \<not> P j)"
proof (induction "n - i" arbitrary: i)
  case 0
  then show ?case by auto
next
  case (Suc m)
  then have "i < n" by simp
  with Suc.hyps(1) [of "Suc i"] Suc.hyps(2) show ?case
    by (auto simp: upt_conv_Cons Suc_le_eq) (metis le_neq_implies_less)+
qed

lemma find_upt_None: "find P [i..<n] = None \<longleftrightarrow> (\<forall>j. i \<le> j \<longrightarrow> j < n \<longrightarrow> \<not> P j)"
  by (auto simp: find_None_iff)

lemma find_rev_upt_Some:
  "find P (rev [0..<n]) = Some k \<longleftrightarrow> k < n \<and> P k \<and> (\<forall>j. k < j \<longrightarrow> j < n \<longrightarrow> \<not> P j)"
  by (induction n) (auto simp: less_Suc_eq)

lemma page_scan_item:
  assumes "is_results_page xs doc"
  shows "getElementById doc (item_id k) =
     (if 0 \<le> k \<and> k < int (length xs) then Some [0, 1, nat k, 0, 0] else None)"
  by (simp add: page_lookup [OF assms] page_item)

text \<open>The next row that shows, from row \<open>i\<close> on; the previous one, from row \<open>i\<close> back.\<close>

definition next_shown :: "entry list \<Rightarrow> dom \<Rightarrow> int \<Rightarrow> nat option" where
  "next_shown xs doc i = (if i < 0 then None else find (row_shown doc) [nat i..<length xs])"

definition prev_shown :: "entry list \<Rightarrow> dom \<Rightarrow> int \<Rightarrow> nat option" where
  "prev_shown xs doc i =
     (if 0 \<le> i \<and> i < int (length xs) then find (row_shown doc) (rev [0..<Suc (nat i)]) else None)"

lemma page_NavNext:
  assumes page: "is_results_page xs doc"
  shows "NavNext doc i = Inr (map_option (\<lambda>k. [0, 1, k, 0, 0]) (next_shown xs doc i))"
proof (cases "0 \<le> i \<and> i < int (length xs)")
  case False
  then show ?thesis
    by (auto simp: NavNext.simps [of doc i] page_scan_item [OF page] next_shown_def)
next
  case True
  then obtain n where n: "i = int n" "n < length xs" by (metis nat_0_le zless_nat_conj nat_int of_nat_less_iff)
  have hidden: "\<exists>p. getElementById doc (item_id (i + 1 * int m)) = Some p \<and> item_visible doc p = Inr False"
    if "n + m < length xs" "\<not> row_shown doc (n + m)" for m
    using that n by (simp add: page_scan_item [OF page] page_item_visible [simplified] nat_add_distrib)
  show ?thesis
  proof (cases "find (row_shown doc) [n..<length xs]")
    case None
    then have "NavNext doc i = Inr None"
      using n hidden by (intro navNext.scan_end [of "length xs - n"])
        (auto simp: find_upt_None page_scan_item [OF page])
    with None n show ?thesis by (simp add: next_shown_def)
  next
    case (Some k)
    then have k: "n \<le> k" "k < length xs" "row_shown doc k" "\<And>j. n \<le> j \<Longrightarrow> j < k \<Longrightarrow> \<not> row_shown doc j"
      by (auto simp: find_upt_Some)
    then have "NavNext doc i = Inr (Some [0, 1, k, 0, 0])"
      using n hidden by (intro navNext.scan_found [of "k - n"])
        (auto simp: page_scan_item [OF page] page_item_visible [simplified] of_nat_diff)
    with Some n show ?thesis by (simp add: next_shown_def)
  qed
qed

lemma page_NavPrev:
  assumes page: "is_results_page xs doc"
  shows "NavPrev doc i = Inr (map_option (\<lambda>k. [0, 1, k, 0, 0]) (prev_shown xs doc i))"
proof (cases "0 \<le> i \<and> i < int (length xs)")
  case False
  then show ?thesis
    by (auto simp: NavPrev.simps [of doc i] page_scan_item [OF page] prev_shown_def)
next
  case True
  then obtain n where n: "i = int n" "n < length xs" by (metis nat_0_le zless_nat_conj nat_int of_nat_less_iff)
  have hidden: "\<exists>p. getElementById doc (item_id (i + - 1 * int m)) = Some p \<and> item_visible doc p = Inr False"
    if "m \<le> n" "\<not> row_shown doc (n - m)" for m
    using that n by (simp add: page_scan_item [OF page] page_item_visible [simplified] nat_diff_distrib)
  show ?thesis
  proof (cases "find (row_shown doc) (rev [0..<Suc n])")
    case None
    then have "\<not> row_shown doc j" if "j < Suc n" for j
      using that unfolding find_None_iff set_rev set_upt by auto
    then have "NavPrev doc i = Inr None"
      using n hidden by (intro navPrev.scan_end [of "Suc n"]) (auto simp: page_scan_item [OF page])
    with None n show ?thesis by (simp add: prev_shown_def)
  next
    case (Some k)
    then have k: "k < Suc n" "row_shown doc k" "\<And>j. k < j \<Longrightarrow> j < Suc n \<Longrightarrow> \<not> row_shown doc j"
      unfolding find_rev_upt_Some by auto
    then have "NavPrev doc i = Inr (Some [0, 1, k, 0, 0])"
      using n hidden by (intro navPrev.scan_found [of "n - k"])
        (auto simp: page_scan_item [OF page] page_item_visible [simplified] of_nat_diff)
    with Some n show ?thesis by (simp add: prev_shown_def)
  qed
qed

section \<open>Searching a page\<close>

text \<open>Does the row of an entry match the encoded search text? On ids that are lower-case ASCII ids.\<close>

definition entry_matches :: "host \<Rightarrow> jsstring \<Rightarrow> entry \<Rightarrow> bool" where
  "entry_matches h s x \<longleftrightarrow> prefix s (strip_sr (host_toLowerCase h (js ''SR_'' @ fst x)))"

definition wf_id :: "jsstring \<Rightarrow> bool" where
  "wf_id i \<longleftrightarrow> ascii i \<and> (\<forall>c \<in> set i. id_char c)"

lemma row_matches_prefix: "row_matches h s e \<longleftrightarrow> prefix s (strip_sr (host_toLowerCase h (eid e)))"
  by (simp add: row_matches_def Let_def take_eq_iff_prefix)

lemma ascii_append [simp]: "ascii (s @ t) \<longleftrightarrow> ascii s \<and> ascii t"
  by (auto simp: ascii_def)

lemma strip_sr_row:
  assumes "host_ok h" and "wf_id i"
  shows "strip_sr (host_toLowerCase h (js ''SR_'' @ i)) = i"
proof -
  have "ascii (js ''SR_'' @ i)" using assms(2) by (simp add: wf_id_def) (simp add: ascii_def js_def)
  then have "host_toLowerCase h (js ''SR_'' @ i) = map ascii_lower (js ''SR_'' @ i)"
    using assms(1) by (simp add: host_ok_def)
  also have "map ascii_lower i = i"
    using assms(2) by (intro map_idI) (simp add: wf_id_def id_char_lower)
  then have "map ascii_lower (js ''SR_'' @ i) = js ''sr_'' @ i"
    by (simp add: js_def ascii_lower_def)
  finally show ?thesis by (simp add: strip_sr_def js_def is_digit_unit_def)
qed

lemma entry_matches_id:
  "host_ok h \<Longrightarrow> wf_id (fst x) \<Longrightarrow> entry_matches h s x \<longleftrightarrow> prefix s (fst x)"
  by (simp add: entry_matches_def strip_sr_row)

lemma srEntry_no_rows:
  "filter (\<lambda>(p, e). is_row e) (preorder q (srEntry k x)) = []"
proof -
  have "filter (\<lambda>(p, e). is_row e) (preorder_list r c (srChildren_from k c ys)) = []" for r c ys
    by (induction k c ys rule: srChildren_from.induct)
      (auto simp: srChild_def Let_def is_row_def set_target_def split: prod.split)
  then show ?thesis
    by (auto simp: srEntry_cases is_row_def srLink_def srScope_def set_target_def)
qed

lemma srResults_rows:
  "filter (\<lambda>(p, e). is_row e) (preorder_list q n (srResults_from n xs)) =
   map (\<lambda>(k, x). (q @ [k], root_elt (srResult k x))) (zip [n..<n + length xs] xs)"
proof (induction n xs rule: srResults_from.induct)
  case (2 n x xs)
  have "is_row (root_elt (srResult n x))"
    using srResult_row [of n x] by (simp add: is_row_def)
  with 2 srEntry_no_rows [of "q @ [n, 0]" n x] show ?case
    by (simp add: srResult_def upt_conv_Cons del: upt_Suc)
qed simp

lemma page_rows:
  "filter (\<lambda>(p, e). is_row e) (preorder [] (page_of xs)) =
   map (\<lambda>(k, x). ([0, 1, k], root_elt (srResult k x))) (zip [0..<length xs] xs)"
proof -
  have "\<not> is_row (createElement (js ''BODY''))"
    "\<not> is_row (setAttribute (createElement (js ''DIV'')) (js ''id'') i)"
    "\<not> is_row (status_div s v)" for i s v
    by (simp_all add: is_row_def className_def getAttr_def status_div_def)
  then show ?thesis
    using srResults_rows [of "[0, 1]" 0 xs] by (simp add: page_of_def results_page_def)
qed

lemma page_matches:
  assumes "is_results_page xs doc"
  shows "length (filter (\<lambda>(p, e). is_row e \<and> row_matches h s e) (preorder [] doc)) =
         length (filter (entry_matches h s) xs)"
proof -
  define u :: "elt \<Rightarrow> elt" where "u = (\<lambda>e. e\<lparr>display := []\<rparr>)"
  define R where "R = (\<lambda>(p :: path, e). is_row e)"
  define M where "M = (\<lambda>(p :: path, e). row_matches h s e)"
  have u: "R (apsnd u x) = R x" "M (apsnd u x) = M x" for x
    by (cases x; simp add: R_def M_def u_def is_row_def className_def getAttr_def row_matches_prefix
        eid_def)+
  have count: "length (filter (\<lambda>x. R x \<and> M x) (preorder [] (unstyled d))) =
      length (filter (\<lambda>x. R x \<and> M x) (preorder [] d))" for d
    by (simp add: unstyled_def preorder_map_dom u_def [symmetric] filter_map o_def u)
  have "length (filter (\<lambda>x. R x \<and> M x) (preorder [] doc)) =
      length (filter (\<lambda>x. R x \<and> M x) (preorder [] (page_of xs)))"
    using count [of doc] count [of "page_of xs"] assms by (simp add: is_results_page_def)
  also have "\<dots> = length (filter M (filter R (preorder [] (page_of xs))))"
    by (simp add: conj_commute)
  also have "\<dots> = length (filter (\<lambda>kx. entry_matches h s (snd kx)) (zip [0..<length xs] xs))"
    by (simp add: R_def page_rows filter_map o_def M_def split_beta row_matches_prefix srResult_row
        entry_matches_def)
  also have "\<dots> = length (filter (entry_matches h s) (map snd (zip [0..<length xs] xs)))"
    by (simp only: filter_map o_def length_map)
  finally show ?thesis by (simp add: R_def M_def case_prod_unfold)
qed

lemma SearchResults_Search_page:
  assumes page: "is_results_page xs doc" and s: "s = search_id h (search_text loc search)"
  obtains doc' where
    "SearchResults_Search h loc search sr doc =
       Inr (True, sr\<lparr>lastMatchCount := length (filter (entry_matches h s) xs)\<rparr>, doc')"
    and "is_results_page xs doc'"
    and "\<And>k. k < length xs \<Longrightarrow>
       display_at doc' [0, 1, k] = (if entry_matches h s (xs ! k) then js ''block'' else js ''none'')"
    and "display_at doc' [0, 3] =
       (if \<exists>x \<in> set xs. entry_matches h s x then js ''none'' else js ''block'')"
proof -
  define doc1 where "doc1 = map_dom (mark_row h s) doc"
  have doc1: "is_results_page xs doc1" using page by (simp add: doc1_def)
  define m where "m = length (filter (entry_matches h s) xs)"
  define doc' where "doc' = set_display (set_display doc1 [0, 2] (js ''none'')) [0, 3]
    (if m = 0 then js ''block'' else js ''none'')"
  have "SearchResults_Search h loc search sr doc = Inr (True, sr\<lparr>lastMatchCount := m\<rparr>, doc')"
    using page_matches [OF page, of h s] doc1
    by (simp add: SearchResults_Search_def Let_def s [symmetric] doc1_def [symmetric]
        page_lookup [OF doc1] page_status m_def doc'_def)
  moreover have "is_results_page xs doc'" using doc1 by (simp add: doc'_def)
  moreover have "display_at doc' [0, 1, k] =
      (if entry_matches h s (xs ! k) then js ''block'' else js ''none'')" if k: "k < length xs" for k
  proof -
    obtain e where "elt_at doc [0, 1, k] = Some e" "eid e = js ''SR_'' @ fst (xs ! k)" "is_row e"
      using page k by (rule page_row_elt)
    then show ?thesis
      by (simp add: display_at_def doc'_def elt_at_set_display doc1_def elt_at_map_dom mark_row_def
          row_matches_prefix entry_matches_def)
  qed
  moreover have "elt_at doc1 [0, 3] \<noteq> None"
    using page_lookup [OF doc1, of "js ''NoMatches''"] by (auto simp: page_status elim: getElementById_SomeD)
  then have "display_at doc' [0, 3] = (if m = 0 then js ''block'' else js ''none'')"
    by (auto simp: display_at_def doc'_def elt_at_set_display)
  then have "display_at doc' [0, 3] =
      (if \<exists>x \<in> set xs. entry_matches h s x then js ''none'' else js ''block'')"
    by (auto simp: m_def filter_empty_conv)
  ultimately show thesis using that by (simp add: m_def)
qed

section \<open>Loading a page\<close>

lemma results_body_page: "results_body = page_of []"
  by (simp add: results_body_def page_of_def results_page_def)

lemma createResults_page: "createResults xs results_body = Inr (page_of xs)"
proof -
  have "getElementById (page_of []) (js ''SRResults'') = Some [0, 1]"
    using getElementById_iff [of "page_of []" "js ''SRResults''" "[0, 1]"] by (auto simp: page_of_id)
  then show ?thesis
    by (simp add: createResults_def results_body_page) (simp add: page_of_def results_page_def)
qed

lemma hide_page:
  "is_results_page xs doc \<Longrightarrow> i \<in> {''Loading'', ''NoMatches''} \<Longrightarrow>
   \<exists>doc'. hide i doc = Inr doc' \<and> is_results_page xs doc'"
  by (auto simp: hide_def getElement_def page_lookup page_status)

lemma load_results_page:
  obtains doc where "is_results_page xs doc"
    and "load_results h xs loc = SearchResults_Search h loc None SearchResults doc"
proof -
  obtain doc1 where "hide ''Loading'' (page_of xs) = Inr doc1" and doc1: "is_results_page xs doc1"
    using hide_page [of xs "page_of xs" "''Loading''"] by auto
  moreover obtain doc2 where "hide ''NoMatches'' doc1 = Inr doc2" and "is_results_page xs doc2"
    using hide_page [OF doc1, of "''NoMatches''"] by auto
  ultimately show thesis
    using that by (simp add: load_results_def createResults_page)
qed

section \<open>Navigation from a row\<close>

text \<open>Effects that stay on the page: the focus goes to an element that exists.\<close>

definition effect_ok :: "dom \<Rightarrow> effect \<Rightarrow> bool" where
  "effect_ok doc fx \<longleftrightarrow> (case fx of Focus p \<Rightarrow> node_at doc p \<noteq> None | _ \<Rightarrow> True)"

lemma last_child_node:
  "node_at doc p \<noteq> None \<Longrightarrow> node_at doc (last_child doc k n p) \<noteq> None"
proof (induction doc k n p rule: last_child.induct)
  case (1 doc k n p)
  show ?case
  proof (cases "getElementById doc (child_id k n)")
    case None
    with "1.prems" show ?thesis by (simp add: last_child.simps [of doc k n p])
  next
    case (Some q)
    from "1.IH" [OF Some getElementById_node [OF Some]] Some show ?thesis
      by (simp only: last_child.simps [of doc k n p] option.case simp_thms)
  qed
qed

lemma page_item_node: "is_results_page xs doc \<Longrightarrow> k < length xs \<Longrightarrow> node_at doc [0, 1, k, 0, 0] \<noteq> None"
  using getElementById_node [of doc "item_id (int k)" "[0, 1, k, 0, 0]"] by (simp add: page_scan_item)

lemma prev_shown_less: "prev_shown xs doc i = Some k \<Longrightarrow> k < length xs \<and> row_shown doc k"
proof -
  assume k: "prev_shown xs doc i = Some k"
  then have i: "0 \<le> i" "i < int (length xs)" and "find (row_shown doc) (rev [0..<Suc (nat i)]) = Some k"
    by (auto simp: prev_shown_def simp del: upt_Suc split: if_splits)
  then have "k < Suc (nat i)" and "row_shown doc k" unfolding find_rev_upt_Some by auto
  with i show ?thesis by linarith
qed

lemma page_Nav_up:
  assumes page: "is_results_page xs doc" and dist: "distinct (map fst xs)"
  shows "Nav_up i doc =
     Inr [case prev_shown xs doc (i - 1) of
            None \<Rightarrow> FocusSearchField
          | Some k \<Rightarrow>
              Focus (if multiple (xs ! k) \<and> display_at doc [0, 1, k, 0, 1] = js ''block''
                     then last_child doc (i - 1) 0 [0, 1, k, 0, 0] else [0, 1, k, 0, 0])]"
proof (cases "prev_shown xs doc (i - 1)")
  case None
  then show ?thesis by (simp add: Nav_up_def page_NavPrev [OF page])
next
  case (Some k)
  then have "k < length xs" using prev_shown_less by blast
  with Some show ?thesis
    using page_FindChildOfItem [OF page dist, of k] by (simp add: Nav_up_def page_NavPrev [OF page])
qed

lemma page_Nav_down:
  assumes page: "is_results_page xs doc" and dist: "distinct (map fst xs)" and k: "k < length xs"
  shows "Nav_down (int k) doc =
     Inr (if multiple (xs ! k) \<and> display_at doc [0, 1, k, 0, 1] = js ''block'' \<and> subs (xs ! k) \<noteq> []
          then [Focus [0, 1, k, 0, 1, 0]]
          else case next_shown xs doc (int k + 1) of
                 None \<Rightarrow> [] | Some j \<Rightarrow> [Focus [0, 1, j, 0, 0]])"
proof -
  have item: "getElement doc (item_id (int k)) = Inr [0, 1, k, 0, 0]"
    using k by (simp add: getElement_def page_scan_item [OF page])
  have child: "getElementById doc (child_id (int k) 0) =
      (if multiple (xs ! k) \<and> subs (xs ! k) \<noteq> [] then Some [0, 1, k, 0, 1, 0] else None)"
    using k by (auto simp: page_lookup [OF page] page_child)
  show ?thesis
    using page_FindChildOfItem [OF page dist k]
    by (auto simp: Nav_down_def item child page_NavNext [OF page] split: option.split)
qed

lemma page_Nav_expand:
  assumes page: "is_results_page xs doc" and dist: "distinct (map fst xs)" and k: "k < length xs"
  shows "Nav_expand (int k) v doc =
     Inr (if multiple (xs ! k) then set_display doc [0, 1, k, 0, 1] v else doc)"
proof -
  have "getElement doc (item_id (int k)) = Inr [0, 1, k, 0, 0]"
    using k by (simp add: getElement_def page_scan_item [OF page])
  then show ?thesis
    using page_FindChildOfItem [OF page dist k] by (simp add: Nav_expand_def)
qed

lemma next_shown_less: "next_shown xs doc i = Some k \<Longrightarrow> k < length xs \<and> row_shown doc k"
  by (auto simp: next_shown_def find_upt_Some split: if_splits)

lemma page_Nav_up_ok:
  assumes page: "is_results_page xs doc" and dist: "distinct (map fst xs)"
  shows "\<exists>fx. Nav_up i doc = Inr fx \<and> list_all (effect_ok doc) fx"
proof (cases "prev_shown xs doc (i - 1)")
  case None
  then show ?thesis by (simp add: page_Nav_up [OF assms] effect_ok_def)
next
  case (Some k)
  then have "node_at doc [0, 1, k, 0, 0] \<noteq> None"
    by (intro page_item_node [OF page]) (simp add: prev_shown_less)
  then show ?thesis
    using Some last_child_node [of doc "[0, 1, k, 0, 0]" "i - 1" 0]
    by (simp add: page_Nav_up [OF assms] effect_ok_def)
qed

lemma page_Nav_down_ok:
  assumes page: "is_results_page xs doc" and dist: "distinct (map fst xs)" and k: "k < length xs"
  shows "\<exists>fx. Nav_down (int k) doc = Inr fx \<and> list_all (effect_ok doc) fx"
proof (cases "multiple (xs ! k) \<and> display_at doc [0, 1, k, 0, 1] = js ''block'' \<and> subs (xs ! k) \<noteq> []")
  case True
  then have "getElementById doc (child_id (int k) 0) = Some [0, 1, k, 0, 1, 0]"
    using k by (auto simp: page_lookup [OF page] page_child)
  with True show ?thesis
    using getElementById_node by (auto simp: page_Nav_down [OF assms] effect_ok_def)
next
  case False
  show ?thesis
  proof (cases "next_shown xs doc (int k + 1)")
    case None
    with False show ?thesis by (auto simp: page_Nav_down [OF assms])
  next
    case (Some j)
    then have "node_at doc [0, 1, j, 0, 0] \<noteq> None"
      by (intro page_item_node [OF page]) (simp add: next_shown_less)
    with False Some show ?thesis by (auto simp: page_Nav_down [OF assms] effect_ok_def)
  qed
qed

section \<open>What the user sees\<close>

text \<open>
  The entries that the index generator writes: the id of an entry encodes its name in lower case.
\<close>

definition indexed :: "entry \<Rightarrow> bool" where
  "indexed x \<longleftrightarrow> ascii (fst (snd x)) \<and> fst x = convertToId (map ascii_lower (fst (snd x)))"

definition trim :: "jsstring \<Rightarrow> jsstring" where
  "trim s = strip_trailing (strip_leading s)"

lemma set_strip_leading: "set (strip_leading s) \<subseteq> set s"
  by (auto simp: strip_leading_def dest: set_dropWhileD)

lemma set_strip_trailing: "set (strip_trailing s) \<subseteq> set s"
  by (auto simp: strip_trailing_def dest: set_dropWhileD)

lemma ascii_trim: "ascii s \<Longrightarrow> ascii (trim s)"
  using set_strip_leading [of s] set_strip_trailing [of "strip_leading s"]
  by (auto simp: ascii_def trim_def)

lemma ascii_lower_ascii: "ascii s \<Longrightarrow> ascii (map ascii_lower s)"
  by (auto simp: ascii_def ascii_lower_def word_le_nat_alt word_less_nat_alt unat_word_ariths)

lemma indexed_wf: "indexed x \<Longrightarrow> wf_id (fst x)"
  by (auto simp: indexed_def wf_id_def convertToId_ascii ascii_lower_ascii dest: convertToId_chars)

text \<open>Comparing the encoded search text with the id is comparing the text with the name.\<close>

lemma entry_matches_name:
  assumes "host_ok h" and "ascii q" and "indexed x"
  shows "entry_matches h (search_id h q) x \<longleftrightarrow>
    prefix (map ascii_lower (trim q)) (map ascii_lower (fst (snd x)))"
proof -
  have "search_id h q = convertToId (map ascii_lower (trim q))"
    using assms(1,2) by (simp add: search_id_def trim_def [symmetric] host_lower_ascii ascii_trim)
  moreover have "fst x = convertToId (map ascii_lower (fst (snd x)))"
    using assms(3) by (simp add: indexed_def)
  ultimately show ?thesis
    using entry_matches_id [OF assms(1) indexed_wf [OF assms(3)]] by simp
qed

lemma search_text_query: "search_text (63 # escape q) None = q"
  by (simp add: search_text_def)

lemma load_results_search:
  assumes "host_ok h" and "ascii q" and "\<forall>x \<in> set xs. indexed x"
  shows "\<exists>sr doc. load_results h xs (63 # escape q) = Inr (True, sr, doc) \<and> is_results_page xs doc \<and>
    lastMatchCount sr =
      length (filter (\<lambda>x. prefix (map ascii_lower (trim q)) (map ascii_lower (fst (snd x)))) xs) \<and>
    (\<forall>k < length xs. row_shown doc k \<longleftrightarrow>
       prefix (map ascii_lower (trim q)) (map ascii_lower (fst (snd (xs ! k))))) \<and>
    (display_at doc [0, 3] = js ''block'' \<longleftrightarrow> lastMatchCount sr = 0)"
proof -
  define s where "s = search_id h q"
  define P where "P = (\<lambda>x :: entry. prefix (map ascii_lower (trim q)) (map ascii_lower (fst (snd x))))"
  have match: "entry_matches h s x \<longleftrightarrow> P x" if "x \<in> set xs" for x
    using assms that by (simp add: s_def P_def entry_matches_name)
  then have count: "filter (entry_matches h s) xs = filter P xs"
    by (intro filter_cong) simp_all
  obtain doc where doc: "is_results_page xs doc"
    and load: "load_results h xs (63 # escape q) = SearchResults_Search h (63 # escape q) None SearchResults doc"
    by (rule load_results_page)
  obtain doc' where
    "load_results h xs (63 # escape q) =
       Inr (True, SearchResults\<lparr>lastMatchCount := length (filter (entry_matches h s) xs)\<rparr>, doc')"
    "is_results_page xs doc'"
    "\<And>k. k < length xs \<Longrightarrow>
       display_at doc' [0, 1, k] = (if entry_matches h s (xs ! k) then js ''block'' else js ''none'')"
    "display_at doc' [0, 3] = (if \<exists>x \<in> set xs. entry_matches h s x then js ''none'' else js ''block'')"
    using SearchResults_Search_page [OF doc, of s h "63 # escape q" None SearchResults]
    by (auto simp: load s_def search_text_query)
  then have "\<exists>sr doc. load_results h xs (63 # escape q) = Inr (True, sr, doc) \<and> is_results_page xs doc \<and>
      lastMatchCount sr = length (filter P xs) \<and> (\<forall>k < length xs. row_shown doc k \<longleftrightarrow> P (xs ! k)) \<and>
      (display_at doc [0, 3] = js ''block'' \<longleftrightarrow> lastMatchCount sr = 0)"
    by (intro exI [of _ "SearchResults\<lparr>lastMatchCount := length (filter (entry_matches h s) xs)\<rparr>"] exI [of _ doc'])
      (auto simp: row_shown_def count match filter_empty_conv)
  then show ?thesis unfolding P_def .
qed

text \<open>
  C2. A results page that is loaded for a query shows exactly the rows whose name starts with the
  query, up to case and the query's leading and trailing spaces; it counts them, and shows the line
  \<open>No Matches\<close> exactly when there are none.
\<close>

theorem load_results_shows_matches:
  assumes "host_ok h" and "ascii q" and "\<forall>x \<in> set xs. indexed x"
  shows "\<exists>sr doc. load_results h xs (63 # escape q) = Inr (True, sr, doc) \<and> is_results_page xs doc \<and>
    lastMatchCount sr =
      length (filter (\<lambda>x. prefix (map ascii_lower (trim q)) (map ascii_lower (fst (snd x)))) xs) \<and>
    (\<forall>k < length xs. row_shown doc k \<longleftrightarrow>
       prefix (map ascii_lower (trim q)) (map ascii_lower (fst (snd (xs ! k))))) \<and>
    (display_at doc [0, 3] = js ''block'' \<longleftrightarrow> lastMatchCount sr = 0)"
  using assms by (rule load_results_search)

definition parse_entries :: "entry list" where
  "parse_entries =
     [(js ''parseinitialize'', js ''parseInitialize'', [(js ''u'', 1, js ''parse.h'')]),
      (js ''parse_2eh'', js ''parse.h'', [(js ''u'', 0, js ''.'')])]"

lemma parse_entries_indexed: "\<forall>x \<in> set parse_entries. indexed x"
  by (simp add: parse_entries_def indexed_def js_def ascii_def ascii_lower_def convertToId_code id_code_def
      id_unit_def hex_digit_def word_less_nat_alt)

theorem load_results_shows_matches_witness:
  "ascii (js ''Parse.'') \<and> (\<exists>sr doc.
     load_results ascii_host parse_entries (63 # escape (js ''Parse.'')) = Inr (True, sr, doc) \<and>
     lastMatchCount sr = 1 \<and> \<not> row_shown doc 0 \<and> row_shown doc 1)"
proof -
  have q: "ascii (js ''Parse.'')" by (simp add: ascii_def js_def)
  have "map ascii_lower (trim (js ''Parse.'')) = js ''parse.''"
    by (simp add: js_def trim_def strip_trailing_def strip_leading_def ascii_lower_def)
  then show ?thesis
    using load_results_shows_matches [OF ascii_host_ok q parse_entries_indexed] q
    by (auto simp: parse_entries_def js_def ascii_lower_def)
qed

text \<open>
  \<open>Toggle\<close> on the id of a row with several results opens its list of children when it is
  closed and closes it when it is open; on a row with one result it does nothing.
\<close>

theorem Toggle_row:
  assumes "is_results_page xs doc" and "distinct (map fst xs)" and "k < length xs"
  shows "Toggle (js ''SR_'' @ fst (xs ! k)) doc =
    Inr (if multiple (xs ! k)
         then set_display doc [0, 1, k, 0, 1]
                (if display_at doc [0, 1, k, 0, 1] = js ''block'' then js ''none'' else js ''block'')
         else doc)"
  using assms by (simp add: Toggle_def page_FindChild)

theorem Toggle_row_witness:
  "\<exists>doc. Toggle (js ''SR_parse_2eh'') (page_of parse_entries) = Inr doc \<and> doc = page_of parse_entries"
  using Toggle_row [of parse_entries "page_of parse_entries" 1]
  by (simp add: parse_entries_def multiple_def subs_def js_def)

end
