(* ===== verification/Page_Nav.thy ===== *)
theory Page_Nav
  imports Page_Search
begin

text \<open>
  The keyboard handlers \<open>Nav\<close> and \<open>NavChild\<close> on a results page: no key makes them throw,
  they change nothing but which children show, and the focus stays on the page or goes back to the
  search field. The key filter \<open>ProcessKeys\<close> passes one action for each key press and each
  repeat.
\<close>

section \<open>Children of a row\<close>

lemma page_child_path:
  assumes "is_results_page xs doc"
  shows "getElementById doc (child_id (int k) (int c)) =
     (if k < length xs \<and> multiple (xs ! k) \<and> c < length (subs (xs ! k))
      then Some [0, 1, k, 0, 1, c] else None)"
  by (auto simp: page_lookup [OF assms] page_child)

lemma last_child_from:
  assumes page: "is_results_page xs doc" and k: "k < length xs" "multiple (xs ! k)"
  shows "c \<le> length (subs (xs ! k)) \<Longrightarrow>
    last_child doc (int k) (int c) p =
      (if c = length (subs (xs ! k)) then p else [0, 1, k, 0, 1, length (subs (xs ! k)) - 1])"
proof (induction "length (subs (xs ! k)) - c" arbitrary: c p)
  case 0
  then show ?case using k by (simp add: last_child.simps page_child_path [OF page])
next
  case (Suc n)
  have "last_child doc (int k) (int c) p = last_child doc (int k) (int (Suc c)) [0, 1, k, 0, 1, c]"
  proof -
    have "c < length (subs (xs ! k))" using Suc.hyps(2) by linarith
    then show ?thesis
      using k by (simp add: last_child.simps [of doc "int k" "int c" p] page_child_path [OF page] add.commute)
  qed
  also have "\<dots> = [0, 1, k, 0, 1, length (subs (xs ! k)) - 1]"
    using Suc.hyps(1) [of "Suc c" "[0, 1, k, 0, 1, c]"] Suc.hyps(2) by auto
  finally show ?case using Suc.hyps(2) by auto
qed

lemma page_last_child:
  assumes "is_results_page xs doc" and "k < length xs"
  shows "last_child doc (int k) 0 p =
     (if multiple (xs ! k) \<and> subs (xs ! k) \<noteq> [] then [0, 1, k, 0, 1, length (subs (xs ! k)) - 1] else p)"
proof (cases "multiple (xs ! k)")
  case True
  with last_child_from [OF assms True, of 0 p] show ?thesis by auto
next
  case False
  then show ?thesis
    using page_child_path [OF assms(1), of k 0] by (simp add: last_child.simps [of doc "int k" 0 p])
qed

section \<open>An example page\<close>

text \<open>
  Three rows: two with two results each and one with a single result. In \<open>sample_doc\<close> the first
  row shows with its children open, the second is hidden and the third shows.
\<close>

definition sample_entries :: "entry list" where
  "sample_entries =
     [(js ''a'', js ''A'', [(js ''u'', 1, js ''x''), (js ''v'', 1, js ''y'')]),
      (js ''b'', js ''B'', [(js ''u'', 1, js ''x''), (js ''v'', 1, js ''y'')]),
      (js ''c'', js ''C'', [(js ''u'', 1, js ''x'')])]"

definition sample_doc :: dom where
  "sample_doc =
     set_display (set_display (set_display (set_display (page_of sample_entries)
       [0, 1, 0] (js ''block'')) [0, 1, 0, 0, 1] (js ''block'')) [0, 1, 1] (js ''none'')) [0, 1, 2] (js ''block'')"

lemma sample_page:
  "is_results_page sample_entries sample_doc" "distinct (map fst sample_entries)" "length sample_entries = 3"
  by (simp_all add: sample_doc_def) (simp_all add: sample_entries_def)

lemma sample_rows:
  "multiple (sample_entries ! 0)" "multiple (sample_entries ! 1)" "\<not> multiple (sample_entries ! 2)"
  "length (subs (sample_entries ! 0)) = 2" "length (subs (sample_entries ! 1)) = 2" "subs (sample_entries ! 1) \<noteq> []"
  by (simp_all add: sample_entries_def multiple_def subs_def)

lemma sample_shown:
  "row_shown sample_doc 0" "\<not> row_shown sample_doc 1" "row_shown sample_doc 2"
  "display_at sample_doc [0, 1, 0, 0, 1] = js ''block''"
proof -
  have page: "is_results_page sample_entries (page_of sample_entries)" by simp
  have row: "elt_at (page_of sample_entries) [0, 1, k] \<noteq> None" if "k < 3" for k
    using page_row_elt [OF page, of k] that sample_page(3) by auto
  have "getElementById (page_of sample_entries) (child_id (int 0) (int 0)) = Some [0, 1, 0, 0, 1, 0]"
    using page_child [of sample_entries 0 0] sample_page(3) sample_rows by simp
  then have "node_at (page_of sample_entries) [0, 1, 0, 0, 1, 0] \<noteq> None" by (rule getElementById_node)
  then have "elt_at (page_of sample_entries) [0, 1, 0, 0, 1] \<noteq> None"
    using node_at_append [of "page_of sample_entries" "[0, 1, 0, 0, 1]" "[0]"]
    by (auto simp: elt_at_def bind_eq_Some_conv split: option.splits)
  with row [of 0] row [of 1] row [of 2] show
    "row_shown sample_doc 0" "\<not> row_shown sample_doc 1" "row_shown sample_doc 2"
    "display_at sample_doc [0, 1, 0, 0, 1] = js ''block''"
    by (auto simp: row_shown_def display_at_def sample_doc_def elt_at_set_display)
qed

section \<open>The key filter\<close>

fun ProcessKeys_run :: "key_event list \<Rightarrow> searchResults \<Rightarrow> bool list \<times> searchResults" where
  "ProcessKeys_run [] sr = ([], sr)"
| "ProcessKeys_run (e # es) sr =
     (case ProcessKeys e sr of (b, sr1) \<Rightarrow> case ProcessKeys_run es sr1 of (bs, sr2) \<Rightarrow> (b # bs, sr2))"

lemma ProcessKeys_repeats:
  "ev_type e = ''keypress'' \<Longrightarrow> repeatOn sr \<Longrightarrow>
   ProcessKeys_run (replicate n e) sr = (replicate n (lastKey sr \<noteq> 0), sr)"
  by (induction n) (auto simp: ProcessKeys_def)

lemma ProcessKeys_run_append:
  "ProcessKeys_run (es @ fs) sr =
     (case ProcessKeys_run es sr of (bs, sr1) \<Rightarrow> case ProcessKeys_run fs sr1 of (cs, sr2) \<Rightarrow> (bs @ cs, sr2))"
  by (induction es arbitrary: sr) (auto split: prod.splits)

abbreviation key :: "string \<Rightarrow> nat \<Rightarrow> key_event" where
  "key t k \<equiv> \<lparr>ev_type = t, keyCode = k, shiftKey = False\<rparr>"

text \<open>
  A key that is pressed, held for \<open>n\<close> repeats and released passes the filter once when it
  goes down and once for each repeat; the first \<open>keypress\<close> and the release are filtered out,
  and afterwards no key is remembered.
\<close>

theorem ProcessKeys_hold:
  assumes "k \<noteq> 0"
  shows "ProcessKeys_run (key ''keydown'' k # replicate (Suc n) (key ''keypress'' k) @ [key ''keyup'' k]) sr =
    (True # False # replicate n True @ [False], sr\<lparr>lastKey := 0, repeatOn := False\<rparr>)"
proof -
  define s where "s = sr\<lparr>lastKey := k, repeatOn := True\<rparr>"
  have "ProcessKeys_run (replicate n (key ''keypress'' k)) s = (replicate n True, s)"
    using ProcessKeys_repeats [of "key ''keypress'' k" s n] assms by (simp add: s_def)
  then show ?thesis
    using assms by (simp add: ProcessKeys_def ProcessKeys_run_append s_def)
qed

theorem ProcessKeys_hold_witness:
  "(40 :: nat) \<noteq> 0 \<and>
   fst (ProcessKeys_run (key ''keydown'' 40 # replicate 3 (key ''keypress'' 40) @ [key ''keyup'' 40]) SearchResults) =
     [True, False, True, True, False]"
  using ProcessKeys_hold [of 40 2 SearchResults] by (simp add: numeral_2_eq_2 numeral_3_eq_3)

section \<open>The handlers\<close>

lemma Nav_expand_ok:
  assumes "is_results_page xs doc" and "distinct (map fst xs)" and "k < length xs"
  shows "\<exists>doc'. Nav_expand (int k) v doc = Inr doc' \<and> is_results_page xs doc'"
  using assms(1) by (simp add: page_Nav_expand [OF assms])

lemma page_NavNext_ok:
  assumes page: "is_results_page xs doc"
  obtains r where "NavNext doc i = Inr r" and "\<And>p. r = Some p \<Longrightarrow> node_at doc p \<noteq> None"
proof (cases "next_shown xs doc i")
  case None
  then show ?thesis using that [of None] by (simp add: page_NavNext [OF page])
next
  case (Some k)
  then have "node_at doc [0, 1, k, 0, 0] \<noteq> None"
    using next_shown_less by (intro page_item_node [OF page]) blast
  then show ?thesis using that [of "Some [0, 1, k, 0, 0]"] Some by (simp add: page_NavNext [OF page])
qed

definition nav_ok :: "entry list \<Rightarrow> nav_result \<Rightarrow> bool" where
  "nav_ok xs r \<longleftrightarrow>
     (case r of Inl _ \<Rightarrow> False
      | Inr (b, sr, doc, fx) \<Rightarrow> is_results_page xs doc \<and> list_all (effect_ok doc) fx)"

lemma nav_ok_simps [simp]:
  "nav_ok xs (Inr (b, sr, doc, fx)) \<longleftrightarrow> is_results_page xs doc \<and> list_all (effect_ok doc) fx"
  "effect_ok doc CloseResults" "effect_ok doc FocusSearchField"
  "effect_ok doc (Focus p) \<longleftrightarrow> node_at doc p \<noteq> None"
  by (simp_all add: nav_ok_def effect_ok_def)

text \<open>
  C23. On a results page with distinct ids, \<open>Nav\<close> called for an existing row never throws, for no
  key event and in no state of the key filter: it returns, the page is the same up to which children
  show, and a focus change goes to an element of the page or to the search field.
\<close>

theorem Nav_safe:
  assumes page: "is_results_page xs doc" and dist: "distinct (map fst xs)" and k: "k < length xs"
  shows "nav_ok xs (Nav e (int k) sr doc)"
proof -
  obtain fu where "Nav_up (int k) doc = Inr fu" "list_all (effect_ok doc) fu"
    using page_Nav_up_ok [OF page dist] by blast
  moreover obtain fd where "Nav_down (int k) doc = Inr fd" "list_all (effect_ok doc) fd"
    using page_Nav_down_ok [OF page dist k] by blast
  moreover obtain d1 where "Nav_expand (int k) (js ''block'') doc = Inr d1" "is_results_page xs d1"
    using Nav_expand_ok [OF page dist k] by blast
  moreover obtain d2 where "Nav_expand (int k) (js ''none'') doc = Inr d2" "is_results_page xs d2"
    using Nav_expand_ok [OF page dist k] by blast
  ultimately show ?thesis
    using page by (simp add: Nav_def split: prod.split)
qed

theorem Nav_safe_witness: "nav_ok sample_entries (Nav (key ''keydown'' 38) 2 SearchResults sample_doc)"
  using Nav_safe [OF sample_page(1,2), of 2] sample_page(3) by simp

text \<open>
  On a results page, \<open>NavChild\<close> called for an existing child of a row never throws either,
  leaves the document as it is and moves the focus only to elements of the page or to the search
  field.
\<close>

theorem NavChild_safe:
  assumes page: "is_results_page xs doc" and k: "k < length xs"
    and c: "multiple (xs ! k)" "c < length (subs (xs ! k))"
  shows "nav_ok xs (NavChild e (int k) (int c) sr doc)"
proof -
  define up where "up = (if 0 < int c then child_id (int k) (int c - 1) else item_id (int k))"
  obtain f where f: "getElementById doc up = Some f" "node_at doc f \<noteq> None"
  proof (cases c)
    case 0
    then have "getElementById doc up = Some [0, 1, k, 0, 0]"
      using k by (simp add: up_def page_scan_item [OF page])
    then show thesis using that getElementById_node by blast
  next
    case (Suc d)
    then have "getElementById doc up = Some [0, 1, k, 0, 1, d]"
      using page_child_path [OF page, of k d] k c by (simp add: up_def)
    then show thesis using that getElementById_node by blast
  qed
  obtain r where r: "NavNext doc (int k + 1) = Inr r" "\<And>p. r = Some p \<Longrightarrow> node_at doc p \<noteq> None"
    using page_NavNext_ok [OF page] by blast
  have "\<And>p. getElementById doc (child_id (int k) (int c + 1)) = Some p \<Longrightarrow> node_at doc p \<noteq> None"
    using getElementById_node by blast
  with f r page show ?thesis
    by (auto simp: NavChild_def up_def getElement_def split: prod.split option.split)
qed

theorem NavChild_safe_witness: "nav_ok sample_entries (NavChild (key ''keydown'' 38) 0 1 SearchResults sample_doc)"
  using NavChild_safe [OF sample_page(1), of 0 1] sample_page(3) sample_rows sample_shown by simp

text \<open>
  C39. Pressing \<open>Down\<close> on a row focuses its first child when its list of children is open and
  otherwise the nearest row below it that shows; when there is none the focus stays.
\<close>

theorem Nav_down_target:
  assumes "is_results_page xs doc" and "distinct (map fst xs)" and "k < length xs"
  shows "Nav (key ''keydown'' 40) (int k) sr doc =
     Inr (False, sr\<lparr>repeatOn := False, lastKey := 40\<rparr>, doc,
       if multiple (xs ! k) \<and> display_at doc [0, 1, k, 0, 1] = js ''block'' \<and> subs (xs ! k) \<noteq> []
       then [Focus [0, 1, k, 0, 1, 0]]
       else case find (row_shown doc) [Suc k..<length xs] of
              None \<Rightarrow> [] | Some j \<Rightarrow> [Focus [0, 1, j, 0, 0]])"
  using page_Nav_down [OF assms]
  by (simp add: Nav_def ProcessKeys_def next_shown_def nat_add_distrib)

theorem Nav_down_target_witness:
  "Nav (key ''keydown'' 40) 0 SearchResults sample_doc =
     Inr (False, SearchResults\<lparr>repeatOn := False, lastKey := 40\<rparr>, sample_doc, [Focus [0, 1, 0, 0, 1, 0]])"
  using Nav_down_target [OF sample_page(1,2), of 0 SearchResults] sample_page(3) sample_rows sample_shown by auto

text \<open>
  Pressing \<open>Up\<close> on a row goes to the nearest row above it that shows (to the search field
  when there is none). When that row's list of children is open, the handler looks for the last child
  by the number of the row directly above, whether or not that row shows.
\<close>

theorem Nav_up_target:
  assumes "is_results_page xs doc" and "distinct (map fst xs)" and "Suc k < length xs"
  shows "Nav_up (int (Suc k)) doc =
     Inr [case find (row_shown doc) (rev [0..<Suc k]) of
            None \<Rightarrow> FocusSearchField
          | Some j \<Rightarrow>
              if multiple (xs ! j) \<and> display_at doc [0, 1, j, 0, 1] = js ''block''
              then Focus (if multiple (xs ! k) \<and> subs (xs ! k) \<noteq> []
                          then [0, 1, k, 0, 1, length (subs (xs ! k)) - 1] else [0, 1, j, 0, 0])
              else Focus [0, 1, j, 0, 0]]"
proof -
  have k: "k < length xs" using assms(3) by simp
  then show ?thesis
    using page_Nav_up [OF assms(1,2), of "int (Suc k)"]
    by (auto simp: prev_shown_def page_last_child [OF assms(1) k] simp del: upt_Suc rev_rev_ident split: option.split)
qed

theorem Nav_up_target_witness:
  "Nav_up 1 sample_doc = Inr [Focus [0, 1, 0, 0, 1, 1]]"
  using Nav_up_target [OF sample_page(1,2), of 0] sample_page(3) sample_rows sample_shown by auto

text \<open>
  Hence \<open>Up\<close> may focus a link that does not show: when the row directly above is hidden
  and the row above that one shows with its children open, the focus goes to the last child of the
  hidden row.
\<close>

theorem Nav_up_hidden_child:
  assumes page: "is_results_page xs doc" and dist: "distinct (map fst xs)" and k: "Suc (Suc k) < length xs"
    and hidden: "\<not> row_shown doc (Suc k)" "multiple (xs ! Suc k)" "subs (xs ! Suc k) \<noteq> []"
    and shown: "row_shown doc k" "multiple (xs ! k)" "display_at doc [0, 1, k, 0, 1] = js ''block''"
  shows "Nav_up (int (Suc (Suc k))) doc = Inr [Focus [0, 1, Suc k, 0, 1, length (subs (xs ! Suc k)) - 1]]"
proof -
  have "find (row_shown doc) (rev [0..<Suc (Suc k)]) = Some k"
    using hidden(1) shown(1) by simp
  moreover have "prev_shown xs doc (int (Suc k)) = find (row_shown doc) (rev [0..<Suc (Suc k)])"
    using k by (simp add: prev_shown_def nat_add_distrib del: upt_Suc)
  ultimately show ?thesis
    using page_Nav_up [OF page dist, of "int (Suc (Suc k))"] hidden shown k
      page_last_child [OF page, of "Suc k"] by simp
qed

theorem Nav_up_hidden_child_witness:
  "\<not> row_shown sample_doc 1 \<and> Nav_up 2 sample_doc = Inr [Focus [0, 1, 1, 0, 1, 1]]"
  using Nav_up_hidden_child [OF sample_page(1,2), of 0] sample_page(3) sample_rows sample_shown by auto

end
