(* ===== verification/Search_Data.thy ===== *)
theory Search_Data
  imports Search_Results
begin

text \<open>
  The data of the two documentation sites: \<^verbatim>\<open>docs/html/search\<close> (the C SDK)
  and \<^verbatim>\<open>docs/yun/html/search\<close> (the Arduino library). For each site the three
  objects of \<^verbatim>\<open>searchdata.js\<close>, and for each results page the array
  \<open>searchData\<close> of the script with the page's name: id, name, and the results with address,
  target flag and scope.
\<close>

type_synonym raw_entry = "string \<times> string \<times> (string \<times> nat \<times> string) list"

definition entry_of :: "raw_entry \<Rightarrow> entry" where
  "entry_of x =
     (case x of (i, name, rs) \<Rightarrow> (js i, js name, map (\<lambda>(href, flag, scope). (js href, flag, js scope)) rs))"

text \<open>A site: the objects of \<^verbatim>\<open>searchdata.js\<close> (keys in order) and the pages by name.\<close>

record site =
  indexSectionsWithContent :: "(nat \<times> string) list"
  indexSectionNames :: "(nat \<times> string) list"
  indexSectionLabels :: "(nat \<times> string) list"
  pages :: "(string \<times> raw_entry list) list"

section \<open>The site of the C SDK\<close>

definition html_indexSectionsWithContent :: "(nat \<times> string) list" where
  "html_indexSectionsWithContent =
    [(0, ''aciops''), (1, ''p''), (2, ''p''), (3, ''p''), (4, ''acios''), (5, ''p'')]"

definition html_indexSectionNames :: "(nat \<times> string) list" where
  "html_indexSectionNames =
    [(0, ''all''), (1, ''files''), (2, ''functions''), (3, ''typedefs''), (4, ''defines''), (5, ''pages'')]"

definition html_indexSectionLabels :: "(nat \<times> string) list" where
  "html_indexSectionLabels =
    [(0, ''All''), (1, ''Files''), (2, ''Functions''), (3, ''Typedefs''), (4, ''Macros''), (5, ''Pages'')]"

definition html_all_0 :: "raw_entry list" where
  "html_all_0 =
    [(''application_5fid_5fmax_5flen'', ''APPLICATION_ID_MAX_LEN'',
      [(''../parse_8h.html#afef987cd7d5dcb13ace78e5c739203db'', 1, ''parse.h'')])]"

definition html_all_1 :: "raw_entry list" where
  "html_all_1 =
    [(''client_5fkey_5fmax_5flen'', ''CLIENT_KEY_MAX_LEN'',
      [(''../parse_8h.html#a99031ce313ebf12cb3d83da1e942ea88'', 1, ''parse.h'')])]"

definition html_all_2 :: "raw_entry list" where
  "html_all_2 =
    [(''installation_5fid_5fmax_5flen'', ''INSTALLATION_ID_MAX_LEN'',
      [(''../parse_8h.html#a28667e1c558af9a01f05d19eca25dcb1'', 1, ''parse.h'')])]"

definition html_all_3 :: "raw_entry list" where
  "html_all_3 =
    [(''object_5fid_5fmax_5flen'', ''OBJECT_ID_MAX_LEN'',
      [(''../parse_8h.html#a43c70f14c9f8e27bd8f555a8610fd9cf'', 1, ''parse.h'')])]"

definition html_all_4 :: "raw_entry list" where
  "html_all_4 =
    [(''parse_20embedded_20c_20sdk'', ''Parse Embedded C SDK'',
      [(''../index.html'', 1, '''')]),
     (''parse_2eh'', ''parse.h'',
      [(''../parse_8h.html'', 1, '''')]),
     (''parseclearsessiontoken'', ''parseClearSessionToken'',
      [(''../parse_8h.html#a32ae41797a6a551fd0311a413f94b294'', 1, ''parse.h'')]),
     (''parseclient'', ''ParseClient'',
      [(''../parse_8h.html#ae7445d5516cd7069d413a350b3119e41'', 1, ''parse.h'')]),
     (''parsegeterrorcode'', ''parseGetErrorCode'',
      [(''../parse_8h.html#adff0c82bf9083c1befb02c07656d5295'', 1, ''parse.h'')]),
     (''parsegetinstallationid'', ''parseGetInstallationId'',
      [(''../parse_8h.html#aa43366546613d49321c96a46c6d5a295'', 1, ''parse.h'')]),
     (''parsegetpushsocket'', ''parseGetPushSocket'',
      [(''../parse_8h.html#a2de71ba30eff463d9d232e2b64ec0311'', 1, ''parse.h'')]),
     (''parsegetsessiontoken'', ''parseGetSessionToken'',
      [(''../parse_8h.html#a4c82debd7046a9b4e0da41b0573701fd'', 1, ''parse.h'')]),
     (''parseinitialize'', ''parseInitialize'',
      [(''../parse_8h.html#aad7b0e96f115846958f4e1f2b29e6b2b'', 1, ''parse.h'')]),
     (''parseprocessnextpushnotification'', ''parseProcessNextPushNotification'',
      [(''../parse_8h.html#a2ec677433a1b24eb26ca0250f61ae385'', 1, ''parse.h'')]),
     (''parsepushcallback'', ''parsePushCallback'',
      [(''../parse_8h.html#afd508ae8370e6c7e8919032fcacf8d07'', 1, ''parse.h'')]),
     (''parserequestcallback'', ''parseRequestCallback'',
      [(''../parse_8h.html#aae3c7b9a43204100f702654c2393260e'', 1, ''parse.h'')]),
     (''parserunpushloop'', ''parseRunPushLoop'',
      [(''../parse_8h.html#a15be1ba39b90c15dc478c70f89e093c9'', 1, ''parse.h'')]),
     (''parsesendrequest'', ''parseSendRequest'',
      [(''../parse_8h.html#af8230e72d4f6c07cb16b4675003a18fe'', 1, ''parse.h'')]),
     (''parsesetinstallationid'', ''parseSetInstallationId'',
      [(''../parse_8h.html#ac6ec4bdc3d75d508a68662cea24010bf'', 1, ''parse.h'')]),
     (''parsesetpushcallback'', ''parseSetPushCallback'',
      [(''../parse_8h.html#a597ea71545c6e1e6e01497edd39dcece'', 1, ''parse.h'')]),
     (''parsesetsessiontoken'', ''parseSetSessionToken'',
      [(''../parse_8h.html#ad1a1eab66749c2ecc3f47b7f6e279679'', 1, ''parse.h'')]),
     (''parsestartpushservice'', ''parseStartPushService'',
      [(''../parse_8h.html#aaebc5ccfcf1667a66856d75a7efc30ec'', 1, ''parse.h'')]),
     (''parsestoppushservice'', ''parseStopPushService'',
      [(''../parse_8h.html#ac6fcdfb6a1d04f885c3de2f7c361e3f5'', 1, ''parse.h'')])]"

definition html_all_5 :: "raw_entry list" where
  "html_all_5 =
    [(''session_5ftoken_5fmax_5flen'', ''SESSION_TOKEN_MAX_LEN'',
      [(''../parse_8h.html#ace6a40c8d30d196052ab0746aa13876b'', 1, ''parse.h'')])]"

definition html_defines_0 :: "raw_entry list" where
  "html_defines_0 =
    [(''application_5fid_5fmax_5flen'', ''APPLICATION_ID_MAX_LEN'',
      [(''../parse_8h.html#afef987cd7d5dcb13ace78e5c739203db'', 1, ''parse.h'')])]"

definition html_defines_1 :: "raw_entry list" where
  "html_defines_1 =
    [(''client_5fkey_5fmax_5flen'', ''CLIENT_KEY_MAX_LEN'',
      [(''../parse_8h.html#a99031ce313ebf12cb3d83da1e942ea88'', 1, ''parse.h'')])]"

definition html_defines_2 :: "raw_entry list" where
  "html_defines_2 =
    [(''installation_5fid_5fmax_5flen'', ''INSTALLATION_ID_MAX_LEN'',
      [(''../parse_8h.html#a28667e1c558af9a01f05d19eca25dcb1'', 1, ''parse.h'')])]"

definition html_defines_3 :: "raw_entry list" where
  "html_defines_3 =
    [(''object_5fid_5fmax_5flen'', ''OBJECT_ID_MAX_LEN'',
      [(''../parse_8h.html#a43c70f14c9f8e27bd8f555a8610fd9cf'', 1, ''parse.h'')])]"

definition html_defines_4 :: "raw_entry list" where
  "html_defines_4 =
    [(''session_5ftoken_5fmax_5flen'', ''SESSION_TOKEN_MAX_LEN'',
      [(''../parse_8h.html#ace6a40c8d30d196052ab0746aa13876b'', 1, ''parse.h'')])]"

definition html_files_0 :: "raw_entry list" where
  "html_files_0 =
    [(''parse_2eh'', ''parse.h'',
      [(''../parse_8h.html'', 1, '''')])]"

definition html_functions_0 :: "raw_entry list" where
  "html_functions_0 =
    [(''parseclearsessiontoken'', ''parseClearSessionToken'',
      [(''../parse_8h.html#a32ae41797a6a551fd0311a413f94b294'', 1, ''parse.h'')]),
     (''parsegeterrorcode'', ''parseGetErrorCode'',
      [(''../parse_8h.html#adff0c82bf9083c1befb02c07656d5295'', 1, ''parse.h'')]),
     (''parsegetinstallationid'', ''parseGetInstallationId'',
      [(''../parse_8h.html#aa43366546613d49321c96a46c6d5a295'', 1, ''parse.h'')]),
     (''parsegetpushsocket'', ''parseGetPushSocket'',
      [(''../parse_8h.html#a2de71ba30eff463d9d232e2b64ec0311'', 1, ''parse.h'')]),
     (''parsegetsessiontoken'', ''parseGetSessionToken'',
      [(''../parse_8h.html#a4c82debd7046a9b4e0da41b0573701fd'', 1, ''parse.h'')]),
     (''parseinitialize'', ''parseInitialize'',
      [(''../parse_8h.html#aad7b0e96f115846958f4e1f2b29e6b2b'', 1, ''parse.h'')]),
     (''parseprocessnextpushnotification'', ''parseProcessNextPushNotification'',
      [(''../parse_8h.html#a2ec677433a1b24eb26ca0250f61ae385'', 1, ''parse.h'')]),
     (''parserunpushloop'', ''parseRunPushLoop'',
      [(''../parse_8h.html#a15be1ba39b90c15dc478c70f89e093c9'', 1, ''parse.h'')]),
     (''parsesendrequest'', ''parseSendRequest'',
      [(''../parse_8h.html#af8230e72d4f6c07cb16b4675003a18fe'', 1, ''parse.h'')]),
     (''parsesetinstallationid'', ''parseSetInstallationId'',
      [(''../parse_8h.html#ac6ec4bdc3d75d508a68662cea24010bf'', 1, ''parse.h'')]),
     (''parsesetpushcallback'', ''parseSetPushCallback'',
      [(''../parse_8h.html#a597ea71545c6e1e6e01497edd39dcece'', 1, ''parse.h'')]),
     (''parsesetsessiontoken'', ''parseSetSessionToken'',
      [(''../parse_8h.html#ad1a1eab66749c2ecc3f47b7f6e279679'', 1, ''parse.h'')]),
     (''parsestartpushservice'', ''parseStartPushService'',
      [(''../parse_8h.html#aaebc5ccfcf1667a66856d75a7efc30ec'', 1, ''parse.h'')]),
     (''parsestoppushservice'', ''parseStopPushService'',
      [(''../parse_8h.html#ac6fcdfb6a1d04f885c3de2f7c361e3f5'', 1, ''parse.h'')])]"

definition html_pages_0 :: "raw_entry list" where
  "html_pages_0 =
    [(''parse_20embedded_20c_20sdk'', ''Parse Embedded C SDK'',
      [(''../index.html'', 1, '''')])]"

definition html_typedefs_0 :: "raw_entry list" where
  "html_typedefs_0 =
    [(''parseclient'', ''ParseClient'',
      [(''../parse_8h.html#ae7445d5516cd7069d413a350b3119e41'', 1, ''parse.h'')]),
     (''parsepushcallback'', ''parsePushCallback'',
      [(''../parse_8h.html#afd508ae8370e6c7e8919032fcacf8d07'', 1, ''parse.h'')]),
     (''parserequestcallback'', ''parseRequestCallback'',
      [(''../parse_8h.html#aae3c7b9a43204100f702654c2393260e'', 1, ''parse.h'')])]"

definition html_site :: site where
  "html_site =
    \<lparr>indexSectionsWithContent = html_indexSectionsWithContent,
     indexSectionNames = html_indexSectionNames,
     indexSectionLabels = html_indexSectionLabels,
     pages =
      [(''all_0'', html_all_0),
       (''all_1'', html_all_1),
       (''all_2'', html_all_2),
       (''all_3'', html_all_3),
       (''all_4'', html_all_4),
       (''all_5'', html_all_5),
       (''defines_0'', html_defines_0),
       (''defines_1'', html_defines_1),
       (''defines_2'', html_defines_2),
       (''defines_3'', html_defines_3),
       (''defines_4'', html_defines_4),
       (''files_0'', html_files_0),
       (''functions_0'', html_functions_0),
       (''pages_0'', html_pages_0),
       (''typedefs_0'', html_typedefs_0)]\<rparr>"

section \<open>The site of the Arduino library\<close>

definition yun_indexSectionsWithContent :: "(nat \<times> string) list" where
  "yun_indexSectionsWithContent =
    [(0, ''abcegnopsw~''), (1, ''p''), (2, ''p''), (3, ''abcegnopsw~''), (4, ''p''), (5, ''p'')]"

definition yun_indexSectionNames :: "(nat \<times> string) list" where
  "yun_indexSectionNames =
    [(0, ''all''), (1, ''classes''), (2, ''files''), (3, ''functions''), (4, ''variables''), (5, ''pages'')]"

definition yun_indexSectionLabels :: "(nat \<times> string) list" where
  "yun_indexSectionLabels =
    [(0, ''All''), (1, ''Data Structures''), (2, ''Files''), (3, ''Functions''), (4, ''Variables''), (5, ''Pages'')]"

definition yun_all_0 :: "raw_entry list" where
  "yun_all_0 =
    [(''add'', ''add'',
      [(''../class_parse_object_create.html#aef6a2f97213830e6bed87072582cacd2'', 1, ''ParseObjectCreate::add(const char *key, int d)''), (''../class_parse_object_create.html#a387eeceadeff3ee518bb0d7799e64079'', 1, ''ParseObjectCreate::add(const char *key, double d)''), (''../class_parse_object_create.html#acfe8ab5db42e693229572f3ac026e59d'', 1, ''ParseObjectCreate::add(const char *key, const char *s)''), (''../class_parse_object_create.html#aaae9d6ef53dfab038595042411ea87b5'', 1, ''ParseObjectCreate::add(const char *key, bool b)'')]),
     (''addgeopoint'', ''addGeoPoint'',
      [(''../class_parse_object_create.html#a26e0614e39b039b2bea157215f559c24'', 1, ''ParseObjectCreate'')]),
     (''addjsonvalue'', ''addJSONValue'',
      [(''../class_parse_object_create.html#a396da194e7cea55e5a791420cfa3d3e9'', 1, ''ParseObjectCreate::addJSONValue(const char *key, const char *json)''), (''../class_parse_object_create.html#ae6930463963df8a280177050ac91c231'', 1, ''ParseObjectCreate::addJSONValue(const char *key, const String &amp;json)'')])]"

definition yun_all_1 :: "raw_entry list" where
  "yun_all_1 =
    [(''begin'', ''begin'',
      [(''../class_parse_client.html#ae5097b8b723649d6cbc009a9238ba7d4'', 1, ''ParseClient'')])]"

definition yun_all_2 :: "raw_entry list" where
  "yun_all_2 =
    [(''clearsessiontoken'', ''clearSessionToken'',
      [(''../class_parse_client.html#a685e9c99ec9f20b705f9899c10f64176'', 1, ''ParseClient'')]),
     (''close'', ''close'',
      [(''../class_parse_push.html#a8cf8b847119d5ff71745f7adcaf9e505'', 1, ''ParsePush::close()''), (''../class_parse_response.html#a65132729c860ac5dae2a8b577d2baff1'', 1, ''ParseResponse::close()'')]),
     (''count'', ''count'',
      [(''../class_parse_response.html#ac1b5565ac916af000400e6b82582ac8a'', 1, ''ParseResponse'')])]"

definition yun_all_3 :: "raw_entry list" where
  "yun_all_3 =
    [(''end'', ''end'',
      [(''../class_parse_client.html#aa7c418e4e8a16da240a87eee507ca63b'', 1, ''ParseClient'')])]"

definition yun_all_4 :: "raw_entry list" where
  "yun_all_4 =
    [(''getboolean'', ''getBoolean'',
      [(''../class_parse_response.html#a7dbf50e42fac3f77874b3cde805da90b'', 1, ''ParseResponse'')]),
     (''getdouble'', ''getDouble'',
      [(''../class_parse_response.html#a94b430cf9e2f5c2c5f0aae8229bdc008'', 1, ''ParseResponse'')]),
     (''geterrorcode'', ''getErrorCode'',
      [(''../class_parse_response.html#afc24c31ee5fd115c2c15eeb2e472de81'', 1, ''ParseResponse'')]),
     (''getfloatfromjson'', ''getFloatFromJSON'',
      [(''../class_parse_utils.html#a43a6539b67c90089772da5adb4a2cc24'', 1, ''ParseUtils'')]),
     (''getinstallationid'', ''getInstallationId'',
      [(''../class_parse_client.html#a62061244233569123c7bbc57dc3173f0'', 1, ''ParseClient'')]),
     (''getint'', ''getInt'',
      [(''../class_parse_response.html#accd6ffcbab68b2937e61babc09228662'', 1, ''ParseResponse'')]),
     (''getintfromjson'', ''getIntFromJSON'',
      [(''../class_parse_utils.html#aab3a15b915d2504eaf0c448a92baf654'', 1, ''ParseUtils'')]),
     (''getjsonbody'', ''getJSONBody'',
      [(''../class_parse_response.html#a4f36729ef06400907b5006e51d32900a'', 1, ''ParseResponse'')]),
     (''getsessiontoken'', ''getSessionToken'',
      [(''../class_parse_client.html#ad447c906041ec4aaf331f029096722de'', 1, ''ParseClient'')]),
     (''getstring'', ''getString'',
      [(''../class_parse_response.html#a1e2e7d5252bf98793b6f1d49004b3568'', 1, ''ParseResponse'')]),
     (''getstringfromjson'', ''getStringFromJSON'',
      [(''../class_parse_utils.html#a12ad329aa86297b4fbd040f457e4dc17'', 1, ''ParseUtils'')])]"

definition yun_all_5 :: "raw_entry list" where
  "yun_all_5 =
    [(''nextobject'', ''nextObject'',
      [(''../class_parse_response.html#ad6b1c9d00fcf27a7387d1d9da957751e'', 1, ''ParseResponse'')]),
     (''nextpush'', ''nextPush'',
      [(''../class_parse_client.html#a83d0d717e2b9f548dc4de48f9c49458e'', 1, ''ParseClient'')])]"

definition yun_all_6 :: "raw_entry list" where
  "yun_all_6 =
    [(''orderby'', ''orderBy'',
      [(''../class_parse_query.html#abcb70b64088699eb2b92f9d62338d08c'', 1, ''ParseQuery'')])]"

definition yun_all_7 :: "raw_entry list" where
  "yun_all_7 =
    [(''parse_20arduino_20yun_20sdk'', ''Parse Arduino Yun SDK'',
      [(''../index.html'', 1, '''')]),
     (''parse'', ''Parse'',
      [(''../_parse_client_8h.html#a4ab6a3466993c967326e8663a3d7815d'', 1, ''ParseClient.cpp'')]),
     (''parse_2eh'', ''Parse.h'',
      [(''../_parse_8h.html'', 1, '''')]),
     (''parseclient'', ''ParseClient'',
      [(''../class_parse_client.html'', 1, ''ParseClient''), (''../class_parse_client.html#a63ff8b1516844dc8bb5ad42ed06c0da5'', 1, ''ParseClient::ParseClient()'')]),
     (''parseclient_2eh'', ''ParseClient.h'',
      [(''../_parse_client_8h.html'', 1, '''')]),
     (''parsecloudfunction'', ''ParseCloudFunction'',
      [(''../class_parse_cloud_function.html'', 1, ''ParseCloudFunction''), (''../class_parse_cloud_function.html#ae59c8ad61a4acac144c84b43b7db0333'', 1, ''ParseCloudFunction::ParseCloudFunction()'')]),
     (''parsecloudfunction_2eh'', ''ParseCloudFunction.h'',
      [(''../_parse_cloud_function_8h.html'', 1, '''')]),
     (''parseobjectcreate'', ''ParseObjectCreate'',
      [(''../class_parse_object_create.html'', 1, ''ParseObjectCreate''), (''../class_parse_object_create.html#a58ad91e3b7de9ee07fce6dfa7d9e99cb'', 1, ''ParseObjectCreate::ParseObjectCreate()'')]),
     (''parseobjectcreate_2eh'', ''ParseObjectCreate.h'',
      [(''../_parse_object_create_8h.html'', 1, '''')]),
     (''parseobjectdelete'', ''ParseObjectDelete'',
      [(''../class_parse_object_delete.html'', 1, ''ParseObjectDelete''), (''../class_parse_object_delete.html#a8239a0107aee9c566f659a57d2b7145c'', 1, ''ParseObjectDelete::ParseObjectDelete()'')]),
     (''parseobjectdelete_2eh'', ''ParseObjectDelete.h'',
      [(''../_parse_object_delete_8h.html'', 1, '''')]),
     (''parseobjectget'', ''ParseObjectGet'',
      [(''../class_parse_object_get.html'', 1, ''ParseObjectGet''), (''../class_parse_object_get.html#a2b694290c552c349ea38179150f09b78'', 1, ''ParseObjectGet::ParseObjectGet()'')]),
     (''parseobjectget_2eh'', ''ParseObjectGet.h'',
      [(''../_parse_object_get_8h.html'', 1, '''')]),
     (''parseobjectupdate'', ''ParseObjectUpdate'',
      [(''../class_parse_object_update.html'', 1, ''ParseObjectUpdate''), (''../class_parse_object_update.html#a780fb4f2a706e0b9648d7eb61215cad9'', 1, ''ParseObjectUpdate::ParseObjectUpdate()'')]),
     (''parseobjectupdate_2eh'', ''ParseObjectUpdate.h'',
      [(''../_parse_object_update_8h.html'', 1, '''')]),
     (''parsepush'', ''ParsePush'',
      [(''../class_parse_push.html'', 1, '''')]),
     (''parsepush_2eh'', ''ParsePush.h'',
      [(''../_parse_push_8h.html'', 1, '''')]),
     (''parsequery'', ''ParseQuery'',
      [(''../class_parse_query.html'', 1, ''ParseQuery''), (''../class_parse_query.html#a413af1b059fa4be6952d5cac515f4403'', 1, ''ParseQuery::ParseQuery()'')]),
     (''parsequery_2eh'', ''ParseQuery.h'',
      [(''../_parse_query_8h.html'', 1, '''')]),
     (''parserequest'', ''ParseRequest'',
      [(''../class_parse_request.html'', 1, ''ParseRequest''), (''../class_parse_request.html#a54113afd5f546382608bb2e715df759e'', 1, ''ParseRequest::ParseRequest()'')]),
     (''parserequest_2eh'', ''ParseRequest.h'',
      [(''../_parse_request_8h.html'', 1, '''')]),
     (''parseresponse'', ''ParseResponse'',
      [(''../class_parse_response.html'', 1, '''')]),
     (''parseresponse_2eh'', ''ParseResponse.h'',
      [(''../_parse_response_8h.html'', 1, '''')]),
     (''parsetrackevent'', ''ParseTrackEvent'',
      [(''../class_parse_track_event.html'', 1, ''ParseTrackEvent''), (''../class_parse_track_event.html#a2d737963ecd1b4b91c44ad4f82e15114'', 1, ''ParseTrackEvent::ParseTrackEvent()'')]),
     (''parsetrackevent_2eh'', ''ParseTrackEvent.h'',
      [(''../_parse_track_event_8h.html'', 1, '''')]),
     (''parseutils'', ''ParseUtils'',
      [(''../class_parse_utils.html'', 1, '''')]),
     (''parseutils_2eh'', ''ParseUtils.h'',
      [(''../_parse_utils_8h.html'', 1, '''')]),
     (''pushavailable'', ''pushAvailable'',
      [(''../class_parse_client.html#a5a2f119a0ed474ff6fc4d237b3811ef1'', 1, ''ParseClient'')])]"

definition yun_all_8 :: "raw_entry list" where
  "yun_all_8 =
    [(''send'', ''send'',
      [(''../class_parse_object_create.html#a1c7e621bb8f39cf5a2aa021ffa1f6908'', 1, ''ParseObjectCreate::send()''), (''../class_parse_object_delete.html#aea9dcc637eb588dbadad3480d63e21be'', 1, ''ParseObjectDelete::send()''), (''../class_parse_object_get.html#a8b0cc2f15010b9bdac7d5b456ec5471c'', 1, ''ParseObjectGet::send()''), (''../class_parse_object_update.html#aef12792ac96ce3fdc8066516bb179d3c'', 1, ''ParseObjectUpdate::send()''), (''../class_parse_query.html#ab24f41950db633142e72b7b74a24f60b'', 1, ''ParseQuery::send()''), (''../class_parse_request.html#a94ae6331b50d13b098396d6d64edb925'', 1, ''ParseRequest::send()'')]),
     (''sendrequest'', ''sendRequest'',
      [(''../class_parse_client.html#a9a4f874b27c0b4b021d385a62b1c6a3a'', 1, ''ParseClient::sendRequest(const char *httpVerb, const char *httpPath, const char *requestBody, const char *urlParams)''), (''../class_parse_client.html#a7f18dabea5c6e52f91c416bcd6c68973'', 1, ''ParseClient::sendRequest(const String &amp;httpVerb, const String &amp;httpPath, const String &amp;requestBody, const String &amp;urlParams)'')]),
     (''setbuffer'', ''setBuffer'',
      [(''../class_parse_response.html#ab327ef0c96075549038d2b9e07b82be2'', 1, ''ParseResponse'')]),
     (''setclassname'', ''setClassName'',
      [(''../class_parse_request.html#a317a43653c851029b16926b29b20a38e'', 1, ''ParseRequest'')]),
     (''seteventname'', ''setEventName'',
      [(''../class_parse_track_event.html#a9639acbb98451b508a09c0b07419088d'', 1, ''ParseTrackEvent'')]),
     (''setfunctionname'', ''setFunctionName'',
      [(''../class_parse_cloud_function.html#a0fe5b325ba052fd3eab8f775bb17d075'', 1, ''ParseCloudFunction'')]),
     (''setinstallationid'', ''setInstallationId'',
      [(''../class_parse_client.html#ab2eb607c50543c9d4e5e2125dd577913'', 1, ''ParseClient'')]),
     (''setjsonbody'', ''setJSONBody'',
      [(''../class_parse_object_create.html#ab4f6fc00da920d83931157d3e1385c72'', 1, ''ParseObjectCreate::setJSONBody(const char *jsonBody)''), (''../class_parse_object_create.html#a863a8e68391f3244e24f837a1dc4e5f8'', 1, ''ParseObjectCreate::setJSONBody(const String &amp;jsonBody)'')]),
     (''setkeys'', ''setKeys'',
      [(''../class_parse_query.html#aa46f5231317defc7a7bdfcce76119612'', 1, ''ParseQuery'')]),
     (''setlimit'', ''setLimit'',
      [(''../class_parse_query.html#a2f07b93e013e2ae0d1e35421d6b59163'', 1, ''ParseQuery'')]),
     (''setobjectid'', ''setObjectId'',
      [(''../class_parse_request.html#ae982bf62d800ef113f7c8eb0a556ae85'', 1, ''ParseRequest'')]),
     (''setsessiontoken'', ''setSessionToken'',
      [(''../class_parse_client.html#a86c8c25d224f8cf32094675f7e0011a6'', 1, ''ParseClient'')]),
     (''setskip'', ''setSkip'',
      [(''../class_parse_query.html#a239d7dca72045e15ccdfa8cba948b938'', 1, ''ParseQuery'')]),
     (''startpushservice'', ''startPushService'',
      [(''../class_parse_client.html#abe27dde51d9b0ed225d8d7b7c40ea8cd'', 1, ''ParseClient'')]),
     (''stoppushservice'', ''stopPushService'',
      [(''../class_parse_client.html#a42656d96d7c1b1290f3331f7470a8bc4'', 1, ''ParseClient'')])]"

definition yun_all_9 :: "raw_entry list" where
  "yun_all_9 =
    [(''wheredoesnotexist'', ''whereDoesNotExist'',
      [(''../class_parse_query.html#a0154916f6f156339ae901b1469eb5a4f'', 1, ''ParseQuery'')]),
     (''whereequalto'', ''whereEqualTo'',
      [(''../class_parse_query.html#a92a0d44c79ee52d1b25f6c80fa70c695'', 1, ''ParseQuery::whereEqualTo(const char *key, const char *value)''), (''../class_parse_query.html#af62f7f2b5263c1bae1607c203eeaeaae'', 1, ''ParseQuery::whereEqualTo(const char *key, bool value)''), (''../class_parse_query.html#a6c8576302805235cd231b96f18750244'', 1, ''ParseQuery::whereEqualTo(const char *key, int value)''), (''../class_parse_query.html#aafa37b4bef8b0125947140e135de814f'', 1, ''ParseQuery::whereEqualTo(const char *key, double value)'')]),
     (''whereexists'', ''whereExists'',
      [(''../class_parse_query.html#a1a7896ed55ecd4a90a9fc5d751d4ff7f'', 1, ''ParseQuery'')]),
     (''wheregreaterthan'', ''whereGreaterThan'',
      [(''../class_parse_query.html#a9628971ef6764775a8dd1162c4565355'', 1, ''ParseQuery::whereGreaterThan(const char *key, int value)''), (''../class_parse_query.html#af7eafd34e792718867ab3c804f3593a5'', 1, ''ParseQuery::whereGreaterThan(const char *key, double value)'')]),
     (''wheregreaterthanorequalto'', ''whereGreaterThanOrEqualTo'',
      [(''../class_parse_query.html#affeef69a24c11890121b4d6e3807af61'', 1, ''ParseQuery::whereGreaterThanOrEqualTo(const char *key, int value)''), (''../class_parse_query.html#a642ccb7bbacbd63b786465d6b3276dfc'', 1, ''ParseQuery::whereGreaterThanOrEqualTo(const char *key, double value)'')]),
     (''wherelessthan'', ''whereLessThan'',
      [(''../class_parse_query.html#ac7d07317480fbb7c6c1ac06b949543b1'', 1, ''ParseQuery::whereLessThan(const char *key, int value)''), (''../class_parse_query.html#a00a92c633a6b50084dc05131980947cc'', 1, ''ParseQuery::whereLessThan(const char *key, double value)'')]),
     (''wherelessthanorequalto'', ''whereLessThanOrEqualTo'',
      [(''../class_parse_query.html#a933747c5946c3ad045ca75ed04b95b60'', 1, ''ParseQuery::whereLessThanOrEqualTo(const char *key, int value)''), (''../class_parse_query.html#adec4cbd1a18d3305a17f8c85144d5390'', 1, ''ParseQuery::whereLessThanOrEqualTo(const char *key, double value)'')]),
     (''wherenotequalto'', ''whereNotEqualTo'',
      [(''../class_parse_query.html#a973d921e93c8387f25cfa4964503e5c9'', 1, ''ParseQuery::whereNotEqualTo(const char *key, const char *value)''), (''../class_parse_query.html#a4c7dda9ae274a4da9e2a74f058ab5338'', 1, ''ParseQuery::whereNotEqualTo(const char *key, bool value)''), (''../class_parse_query.html#a246447ae403c40bf32b9a7ff891f113a'', 1, ''ParseQuery::whereNotEqualTo(const char *key, int value)''), (''../class_parse_query.html#a9d45e4448a4d64567b586bdb1d76ad4e'', 1, ''ParseQuery::whereNotEqualTo(const char *key, double value)'')])]"

definition yun_all_a :: "raw_entry list" where
  "yun_all_a =
    [(''_7eparserequest'', ''~ParseRequest'',
      [(''../class_parse_request.html#a1737a36f832f1870da5fa75f1c2b8a59'', 1, ''ParseRequest'')])]"

definition yun_classes_0 :: "raw_entry list" where
  "yun_classes_0 =
    [(''parseclient'', ''ParseClient'',
      [(''../class_parse_client.html'', 1, '''')]),
     (''parsecloudfunction'', ''ParseCloudFunction'',
      [(''../class_parse_cloud_function.html'', 1, '''')]),
     (''parseobjectcreate'', ''ParseObjectCreate'',
      [(''../class_parse_object_create.html'', 1, '''')]),
     (''parseobjectdelete'', ''ParseObjectDelete'',
      [(''../class_parse_object_delete.html'', 1, '''')]),
     (''parseobjectget'', ''ParseObjectGet'',
      [(''../class_parse_object_get.html'', 1, '''')]),
     (''parseobjectupdate'', ''ParseObjectUpdate'',
      [(''../class_parse_object_update.html'', 1, '''')]),
     (''parsepush'', ''ParsePush'',
      [(''../class_parse_push.html'', 1, '''')]),
     (''parsequery'', ''ParseQuery'',
      [(''../class_parse_query.html'', 1, '''')]),
     (''parserequest'', ''ParseRequest'',
      [(''../class_parse_request.html'', 1, '''')]),
     (''parseresponse'', ''ParseResponse'',
      [(''../class_parse_response.html'', 1, '''')]),
     (''parsetrackevent'', ''ParseTrackEvent'',
      [(''../class_parse_track_event.html'', 1, '''')]),
     (''parseutils'', ''ParseUtils'',
      [(''../class_parse_utils.html'', 1, '''')])]"

definition yun_files_0 :: "raw_entry list" where
  "yun_files_0 =
    [(''parse_2eh'', ''Parse.h'',
      [(''../_parse_8h.html'', 1, '''')]),
     (''parseclient_2eh'', ''ParseClient.h'',
      [(''../_parse_client_8h.html'', 1, '''')]),
     (''parsecloudfunction_2eh'', ''ParseCloudFunction.h'',
      [(''../_parse_cloud_function_8h.html'', 1, '''')]),
     (''parseobjectcreate_2eh'', ''ParseObjectCreate.h'',
      [(''../_parse_object_create_8h.html'', 1, '''')]),
     (''parseobjectdelete_2eh'', ''ParseObjectDelete.h'',
      [(''../_parse_object_delete_8h.html'', 1, '''')]),
     (''parseobjectget_2eh'', ''ParseObjectGet.h'',
      [(''../_parse_object_get_8h.html'', 1, '''')]),
     (''parseobjectupdate_2eh'', ''ParseObjectUpdate.h'',
      [(''../_parse_object_update_8h.html'', 1, '''')]),
     (''parsepush_2eh'', ''ParsePush.h'',
      [(''../_parse_push_8h.html'', 1, '''')]),
     (''parsequery_2eh'', ''ParseQuery.h'',
      [(''../_parse_query_8h.html'', 1, '''')]),
     (''parserequest_2eh'', ''ParseRequest.h'',
      [(''../_parse_request_8h.html'', 1, '''')]),
     (''parseresponse_2eh'', ''ParseResponse.h'',
      [(''../_parse_response_8h.html'', 1, '''')]),
     (''parsetrackevent_2eh'', ''ParseTrackEvent.h'',
      [(''../_parse_track_event_8h.html'', 1, '''')]),
     (''parseutils_2eh'', ''ParseUtils.h'',
      [(''../_parse_utils_8h.html'', 1, '''')])]"

definition yun_functions_0 :: "raw_entry list" where
  "yun_functions_0 =
    [(''add'', ''add'',
      [(''../class_parse_object_create.html#aef6a2f97213830e6bed87072582cacd2'', 1, ''ParseObjectCreate::add(const char *key, int d)''), (''../class_parse_object_create.html#a387eeceadeff3ee518bb0d7799e64079'', 1, ''ParseObjectCreate::add(const char *key, double d)''), (''../class_parse_object_create.html#acfe8ab5db42e693229572f3ac026e59d'', 1, ''ParseObjectCreate::add(const char *key, const char *s)''), (''../class_parse_object_create.html#aaae9d6ef53dfab038595042411ea87b5'', 1, ''ParseObjectCreate::add(const char *key, bool b)'')]),
     (''addgeopoint'', ''addGeoPoint'',
      [(''../class_parse_object_create.html#a26e0614e39b039b2bea157215f559c24'', 1, ''ParseObjectCreate'')]),
     (''addjsonvalue'', ''addJSONValue'',
      [(''../class_parse_object_create.html#a396da194e7cea55e5a791420cfa3d3e9'', 1, ''ParseObjectCreate::addJSONValue(const char *key, const char *json)''), (''../class_parse_object_create.html#ae6930463963df8a280177050ac91c231'', 1, ''ParseObjectCreate::addJSONValue(const char *key, const String &amp;json)'')])]"

definition yun_functions_1 :: "raw_entry list" where
  "yun_functions_1 =
    [(''begin'', ''begin'',
      [(''../class_parse_client.html#ae5097b8b723649d6cbc009a9238ba7d4'', 1, ''ParseClient'')])]"

definition yun_functions_2 :: "raw_entry list" where
  "yun_functions_2 =
    [(''clearsessiontoken'', ''clearSessionToken'',
      [(''../class_parse_client.html#a685e9c99ec9f20b705f9899c10f64176'', 1, ''ParseClient'')]),
     (''close'', ''close'',
      [(''../class_parse_push.html#a8cf8b847119d5ff71745f7adcaf9e505'', 1, ''ParsePush::close()''), (''../class_parse_response.html#a65132729c860ac5dae2a8b577d2baff1'', 1, ''ParseResponse::close()'')]),
     (''count'', ''count'',
      [(''../class_parse_response.html#ac1b5565ac916af000400e6b82582ac8a'', 1, ''ParseResponse'')])]"

definition yun_functions_3 :: "raw_entry list" where
  "yun_functions_3 =
    [(''end'', ''end'',
      [(''../class_parse_client.html#aa7c418e4e8a16da240a87eee507ca63b'', 1, ''ParseClient'')])]"

definition yun_functions_4 :: "raw_entry list" where
  "yun_functions_4 =
    [(''getboolean'', ''getBoolean'',
      [(''../class_parse_response.html#a7dbf50e42fac3f77874b3cde805da90b'', 1, ''ParseResponse'')]),
     (''getdouble'', ''getDouble'',
      [(''../class_parse_response.html#a94b430cf9e2f5c2c5f0aae8229bdc008'', 1, ''ParseResponse'')]),
     (''geterrorcode'', ''getErrorCode'',
      [(''../class_parse_response.html#afc24c31ee5fd115c2c15eeb2e472de81'', 1, ''ParseResponse'')]),
     (''getfloatfromjson'', ''getFloatFromJSON'',
      [(''../class_parse_utils.html#a43a6539b67c90089772da5adb4a2cc24'', 1, ''ParseUtils'')]),
     (''getinstallationid'', ''getInstallationId'',
      [(''../class_parse_client.html#a62061244233569123c7bbc57dc3173f0'', 1, ''ParseClient'')]),
     (''getint'', ''getInt'',
      [(''../class_parse_response.html#accd6ffcbab68b2937e61babc09228662'', 1, ''ParseResponse'')]),
     (''getintfromjson'', ''getIntFromJSON'',
      [(''../class_parse_utils.html#aab3a15b915d2504eaf0c448a92baf654'', 1, ''ParseUtils'')]),
     (''getjsonbody'', ''getJSONBody'',
      [(''../class_parse_response.html#a4f36729ef06400907b5006e51d32900a'', 1, ''ParseResponse'')]),
     (''getsessiontoken'', ''getSessionToken'',
      [(''../class_parse_client.html#ad447c906041ec4aaf331f029096722de'', 1, ''ParseClient'')]),
     (''getstring'', ''getString'',
      [(''../class_parse_response.html#a1e2e7d5252bf98793b6f1d49004b3568'', 1, ''ParseResponse'')]),
     (''getstringfromjson'', ''getStringFromJSON'',
      [(''../class_parse_utils.html#a12ad329aa86297b4fbd040f457e4dc17'', 1, ''ParseUtils'')])]"

definition yun_functions_5 :: "raw_entry list" where
  "yun_functions_5 =
    [(''nextobject'', ''nextObject'',
      [(''../class_parse_response.html#ad6b1c9d00fcf27a7387d1d9da957751e'', 1, ''ParseResponse'')]),
     (''nextpush'', ''nextPush'',
      [(''../class_parse_client.html#a83d0d717e2b9f548dc4de48f9c49458e'', 1, ''ParseClient'')])]"

definition yun_functions_6 :: "raw_entry list" where
  "yun_functions_6 =
    [(''orderby'', ''orderBy'',
      [(''../class_parse_query.html#abcb70b64088699eb2b92f9d62338d08c'', 1, ''ParseQuery'')])]"

definition yun_functions_7 :: "raw_entry list" where
  "yun_functions_7 =
    [(''parseclient'', ''ParseClient'',
      [(''../class_parse_client.html#a63ff8b1516844dc8bb5ad42ed06c0da5'', 1, ''ParseClient'')]),
     (''parsecloudfunction'', ''ParseCloudFunction'',
      [(''../class_parse_cloud_function.html#ae59c8ad61a4acac144c84b43b7db0333'', 1, ''ParseCloudFunction'')]),
     (''parseobjectcreate'', ''ParseObjectCreate'',
      [(''../class_parse_object_create.html#a58ad91e3b7de9ee07fce6dfa7d9e99cb'', 1, ''ParseObjectCreate'')]),
     (''parseobjectdelete'', ''ParseObjectDelete'',
      [(''../class_parse_object_delete.html#a8239a0107aee9c566f659a57d2b7145c'', 1, ''ParseObjectDelete'')]),
     (''parseobjectget'', ''ParseObjectGet'',
      [(''../class_parse_object_get.html#a2b694290c552c349ea38179150f09b78'', 1, ''ParseObjectGet'')]),
     (''parseobjectupdate'', ''ParseObjectUpdate'',
      [(''../class_parse_object_update.html#a780fb4f2a706e0b9648d7eb61215cad9'', 1, ''ParseObjectUpdate'')]),
     (''parsequery'', ''ParseQuery'',
      [(''../class_parse_query.html#a413af1b059fa4be6952d5cac515f4403'', 1, ''ParseQuery'')]),
     (''parserequest'', ''ParseRequest'',
      [(''../class_parse_request.html#a54113afd5f546382608bb2e715df759e'', 1, ''ParseRequest'')]),
     (''parsetrackevent'', ''ParseTrackEvent'',
      [(''../class_parse_track_event.html#a2d737963ecd1b4b91c44ad4f82e15114'', 1, ''ParseTrackEvent'')]),
     (''pushavailable'', ''pushAvailable'',
      [(''../class_parse_client.html#a5a2f119a0ed474ff6fc4d237b3811ef1'', 1, ''ParseClient'')])]"

definition yun_functions_8 :: "raw_entry list" where
  "yun_functions_8 =
    [(''send'', ''send'',
      [(''../class_parse_object_create.html#a1c7e621bb8f39cf5a2aa021ffa1f6908'', 1, ''ParseObjectCreate::send()''), (''../class_parse_object_delete.html#aea9dcc637eb588dbadad3480d63e21be'', 1, ''ParseObjectDelete::send()''), (''../class_parse_object_get.html#a8b0cc2f15010b9bdac7d5b456ec5471c'', 1, ''ParseObjectGet::send()''), (''../class_parse_object_update.html#aef12792ac96ce3fdc8066516bb179d3c'', 1, ''ParseObjectUpdate::send()''), (''../class_parse_query.html#ab24f41950db633142e72b7b74a24f60b'', 1, ''ParseQuery::send()''), (''../class_parse_request.html#a94ae6331b50d13b098396d6d64edb925'', 1, ''ParseRequest::send()'')]),
     (''sendrequest'', ''sendRequest'',
      [(''../class_parse_client.html#a9a4f874b27c0b4b021d385a62b1c6a3a'', 1, ''ParseClient::sendRequest(const char *httpVerb, const char *httpPath, const char *requestBody, const char *urlParams)''), (''../class_parse_client.html#a7f18dabea5c6e52f91c416bcd6c68973'', 1, ''ParseClient::sendRequest(const String &amp;httpVerb, const String &amp;httpPath, const String &amp;requestBody, const String &amp;urlParams)'')]),
     (''setbuffer'', ''setBuffer'',
      [(''../class_parse_response.html#ab327ef0c96075549038d2b9e07b82be2'', 1, ''ParseResponse'')]),
     (''setclassname'', ''setClassName'',
      [(''../class_parse_request.html#a317a43653c851029b16926b29b20a38e'', 1, ''ParseRequest'')]),
     (''seteventname'', ''setEventName'',
      [(''../class_parse_track_event.html#a9639acbb98451b508a09c0b07419088d'', 1, ''ParseTrackEvent'')]),
     (''setfunctionname'', ''setFunctionName'',
      [(''../class_parse_cloud_function.html#a0fe5b325ba052fd3eab8f775bb17d075'', 1, ''ParseCloudFunction'')]),
     (''setinstallationid'', ''setInstallationId'',
      [(''../class_parse_client.html#ab2eb607c50543c9d4e5e2125dd577913'', 1, ''ParseClient'')]),
     (''setjsonbody'', ''setJSONBody'',
      [(''../class_parse_object_create.html#ab4f6fc00da920d83931157d3e1385c72'', 1, ''ParseObjectCreate::setJSONBody(const char *jsonBody)''), (''../class_parse_object_create.html#a863a8e68391f3244e24f837a1dc4e5f8'', 1, ''ParseObjectCreate::setJSONBody(const String &amp;jsonBody)'')]),
     (''setkeys'', ''setKeys'',
      [(''../class_parse_query.html#aa46f5231317defc7a7bdfcce76119612'', 1, ''ParseQuery'')]),
     (''setlimit'', ''setLimit'',
      [(''../class_parse_query.html#a2f07b93e013e2ae0d1e35421d6b59163'', 1, ''ParseQuery'')]),
     (''setobjectid'', ''setObjectId'',
      [(''../class_parse_request.html#ae982bf62d800ef113f7c8eb0a556ae85'', 1, ''ParseRequest'')]),
     (''setsessiontoken'', ''setSessionToken'',
      [(''../class_parse_client.html#a86c8c25d224f8cf32094675f7e0011a6'', 1, ''ParseClient'')]),
     (''setskip'', ''setSkip'',
      [(''../class_parse_query.html#a239d7dca72045e15ccdfa8cba948b938'', 1, ''ParseQuery'')]),
     (''startpushservice'', ''startPushService'',
      [(''../class_parse_client.html#abe27dde51d9b0ed225d8d7b7c40ea8cd'', 1, ''ParseClient'')]),
     (''stoppushservice'', ''stopPushService'',
      [(''../class_parse_client.html#a42656d96d7c1b1290f3331f7470a8bc4'', 1, ''ParseClient'')])]"

definition yun_functions_9 :: "raw_entry list" where
  "yun_functions_9 =
    [(''wheredoesnotexist'', ''whereDoesNotExist'',
      [(''../class_parse_query.html#a0154916f6f156339ae901b1469eb5a4f'', 1, ''ParseQuery'')]),
     (''whereequalto'', ''whereEqualTo'',
      [(''../class_parse_query.html#a92a0d44c79ee52d1b25f6c80fa70c695'', 1, ''ParseQuery::whereEqualTo(const char *key, const char *value)''), (''../class_parse_query.html#af62f7f2b5263c1bae1607c203eeaeaae'', 1, ''ParseQuery::whereEqualTo(const char *key, bool value)''), (''../class_parse_query.html#a6c8576302805235cd231b96f18750244'', 1, ''ParseQuery::whereEqualTo(const char *key, int value)''), (''../class_parse_query.html#aafa37b4bef8b0125947140e135de814f'', 1, ''ParseQuery::whereEqualTo(const char *key, double value)'')]),
     (''whereexists'', ''whereExists'',
      [(''../class_parse_query.html#a1a7896ed55ecd4a90a9fc5d751d4ff7f'', 1, ''ParseQuery'')]),
     (''wheregreaterthan'', ''whereGreaterThan'',
      [(''../class_parse_query.html#a9628971ef6764775a8dd1162c4565355'', 1, ''ParseQuery::whereGreaterThan(const char *key, int value)''), (''../class_parse_query.html#af7eafd34e792718867ab3c804f3593a5'', 1, ''ParseQuery::whereGreaterThan(const char *key, double value)'')]),
     (''wheregreaterthanorequalto'', ''whereGreaterThanOrEqualTo'',
      [(''../class_parse_query.html#affeef69a24c11890121b4d6e3807af61'', 1, ''ParseQuery::whereGreaterThanOrEqualTo(const char *key, int value)''), (''../class_parse_query.html#a642ccb7bbacbd63b786465d6b3276dfc'', 1, ''ParseQuery::whereGreaterThanOrEqualTo(const char *key, double value)'')]),
     (''wherelessthan'', ''whereLessThan'',
      [(''../class_parse_query.html#ac7d07317480fbb7c6c1ac06b949543b1'', 1, ''ParseQuery::whereLessThan(const char *key, int value)''), (''../class_parse_query.html#a00a92c633a6b50084dc05131980947cc'', 1, ''ParseQuery::whereLessThan(const char *key, double value)'')]),
     (''wherelessthanorequalto'', ''whereLessThanOrEqualTo'',
      [(''../class_parse_query.html#a933747c5946c3ad045ca75ed04b95b60'', 1, ''ParseQuery::whereLessThanOrEqualTo(const char *key, int value)''), (''../class_parse_query.html#adec4cbd1a18d3305a17f8c85144d5390'', 1, ''ParseQuery::whereLessThanOrEqualTo(const char *key, double value)'')]),
     (''wherenotequalto'', ''whereNotEqualTo'',
      [(''../class_parse_query.html#a973d921e93c8387f25cfa4964503e5c9'', 1, ''ParseQuery::whereNotEqualTo(const char *key, const char *value)''), (''../class_parse_query.html#a4c7dda9ae274a4da9e2a74f058ab5338'', 1, ''ParseQuery::whereNotEqualTo(const char *key, bool value)''), (''../class_parse_query.html#a246447ae403c40bf32b9a7ff891f113a'', 1, ''ParseQuery::whereNotEqualTo(const char *key, int value)''), (''../class_parse_query.html#a9d45e4448a4d64567b586bdb1d76ad4e'', 1, ''ParseQuery::whereNotEqualTo(const char *key, double value)'')])]"

definition yun_functions_a :: "raw_entry list" where
  "yun_functions_a =
    [(''_7eparserequest'', ''~ParseRequest'',
      [(''../class_parse_request.html#a1737a36f832f1870da5fa75f1c2b8a59'', 1, ''ParseRequest'')])]"

definition yun_pages_0 :: "raw_entry list" where
  "yun_pages_0 =
    [(''parse_20arduino_20yun_20sdk'', ''Parse Arduino Yun SDK'',
      [(''../index.html'', 1, '''')])]"

definition yun_variables_0 :: "raw_entry list" where
  "yun_variables_0 =
    [(''parse'', ''Parse'',
      [(''../_parse_client_8h.html#a4ab6a3466993c967326e8663a3d7815d'', 1, ''ParseClient.cpp'')])]"

definition yun_site :: site where
  "yun_site =
    \<lparr>indexSectionsWithContent = yun_indexSectionsWithContent,
     indexSectionNames = yun_indexSectionNames,
     indexSectionLabels = yun_indexSectionLabels,
     pages =
      [(''all_0'', yun_all_0),
       (''all_1'', yun_all_1),
       (''all_2'', yun_all_2),
       (''all_3'', yun_all_3),
       (''all_4'', yun_all_4),
       (''all_5'', yun_all_5),
       (''all_6'', yun_all_6),
       (''all_7'', yun_all_7),
       (''all_8'', yun_all_8),
       (''all_9'', yun_all_9),
       (''all_a'', yun_all_a),
       (''classes_0'', yun_classes_0),
       (''files_0'', yun_files_0),
       (''functions_0'', yun_functions_0),
       (''functions_1'', yun_functions_1),
       (''functions_2'', yun_functions_2),
       (''functions_3'', yun_functions_3),
       (''functions_4'', yun_functions_4),
       (''functions_5'', yun_functions_5),
       (''functions_6'', yun_functions_6),
       (''functions_7'', yun_functions_7),
       (''functions_8'', yun_functions_8),
       (''functions_9'', yun_functions_9),
       (''functions_a'', yun_functions_a),
       (''pages_0'', yun_pages_0),
       (''variables_0'', yun_variables_0)]\<rparr>"

end
