(* ===== verification/Char_Ids.thy ===== *)
theory Char_Ids
  imports Search_Data Page_Search
begin

text \<open>
  \<open>convertToId\<close> of a lower-cased name, computed on characters instead of code units, and the lemma
  that both agree. The index tables are checked with the version on characters, which evaluates fast.
\<close>

section \<open>The encoding on characters\<close>

definition lower_char :: "char \<Rightarrow> char" where
  "lower_char c = (let n = of_char c :: nat in if 65 \<le> n \<and> n \<le> 90 then char_of (n + 32) else c)"

definition hex_char :: "nat \<Rightarrow> char" where
  "hex_char n = ''0123456789abcdef'' ! n"

definition id_of_char :: "char \<Rightarrow> string" where
  "id_of_char c =
     (let n = of_char c :: nat in
      if 97 \<le> n \<and> n \<le> 122 \<or> 48 \<le> n \<and> n \<le> 57 then [c]
      else if 65 \<le> n \<and> n \<le> 90 then [char_of (n + 32)]
      else [CHR ''_'', hex_char (n div 16), hex_char (n mod 16)])"

definition ascii_char :: "char \<Rightarrow> bool" where
  "ascii_char c \<longleftrightarrow> of_char c < (128 :: nat)"

definition raw_ok :: "raw_entry \<Rightarrow> bool" where
  "raw_ok x \<longleftrightarrow> list_all ascii_char (fst (snd x)) \<and> fst x = concat (map id_of_char (fst (snd x)))"

section \<open>From characters to code units\<close>

lemma of_char_unit: "(of_char c :: code_unit) = of_nat (of_char c)"
  by (metis of_nat_of_char)

lemma of_char_char_of: "n < 256 \<Longrightarrow> (of_char (char_of n :: char) :: code_unit) = of_nat n" for n :: nat
  by (simp add: of_char_unit of_char_of)

lemma of_char_hex_char:
  assumes "n < 16"
  shows "(of_char (hex_char n) :: code_unit) = hex_digit n"
proof -
  have "n \<in> set [0..<16]" using assms by simp
  also have "[0..<16] = [0, 1, 2, 3, 4, 5, 6, 7, 8, 9, 10, 11, 12, 13, 14, 15 :: nat]"
    by (simp add: upt_rec)
  finally show ?thesis by (auto simp: hex_char_def hex_digit_def)
qed

lemma unit_bounds:
  fixes n :: nat
  assumes "n < 128"
  shows "48 \<le> (of_nat n :: code_unit) \<longleftrightarrow> 48 \<le> n" "(of_nat n :: code_unit) \<le> 57 \<longleftrightarrow> n \<le> 57"
    "65 \<le> (of_nat n :: code_unit) \<longleftrightarrow> 65 \<le> n" "(of_nat n :: code_unit) \<le> 90 \<longleftrightarrow> n \<le> 90"
    "97 \<le> (of_nat n :: code_unit) \<longleftrightarrow> 97 \<le> n" "(of_nat n :: code_unit) \<le> 122 \<longleftrightarrow> n \<le> 122"
    "128 \<le> (of_nat n :: code_unit) \<longleftrightarrow> False"
  using assms unat_of_nat_small [of n] by (simp_all add: word_le_nat_alt)

lemma js_id_of_char:
  assumes "ascii_char c"
  shows "js (id_of_char c) = id_code (ascii_lower (of_char c))"
proof -
  define n :: nat where "n = of_char c"
  have n: "n < 128" using assms by (simp add: n_def ascii_char_def)
  have c: "(of_char c :: code_unit) = of_nat n" by (simp add: n_def of_char_unit)
  consider "97 \<le> n \<and> n \<le> 122 \<or> 48 \<le> n \<and> n \<le> 57" | "65 \<le> n \<and> n \<le> 90"
    | "\<not> (97 \<le> n \<and> n \<le> 122 \<or> 48 \<le> n \<and> n \<le> 57)" "\<not> (65 \<le> n \<and> n \<le> 90)" by blast
  then show ?thesis
  proof cases
    case 1
    then have "ascii_lower (of_char c) = of_nat n" and "id_unit (of_nat n)"
      using n by (auto simp: ascii_lower_def id_unit_def c unit_bounds)
    with 1 show ?thesis by (simp add: id_of_char_def n_def [symmetric] id_code_def js_def c)
  next
    case 2
    then have "ascii_lower (of_char c) = of_nat (n + 32)" and "id_unit (of_nat (n + 32))"
      using n unit_bounds [of "n + 32"] by (auto simp: ascii_lower_def id_unit_def c unit_bounds)
    with 2 show ?thesis
      using of_char_char_of [of "n + 32"] by (simp add: id_of_char_def n_def [symmetric] id_code_def js_def)
  next
    case 3
    then have "ascii_lower (of_char c) = of_nat n" and "\<not> id_unit (of_nat n)" and "unat (of_nat n :: code_unit) = n"
      using n unat_of_nat_small [of n] by (auto simp: ascii_lower_def id_unit_def c unit_bounds)
    moreover have "n div 16 < 16" using n by (simp add: div_less_iff_less_mult)
    ultimately show ?thesis
      using 3 by (auto simp: id_of_char_def n_def [symmetric] id_code_def js_def of_char_hex_char)
  qed
qed

lemma js_ascii: "list_all ascii_char s \<Longrightarrow> ascii (js s)"
  by (auto simp: ascii_def js_def list_all_iff ascii_char_def word_less_nat_alt unat_of_char)

lemma convertToId_js:
  "list_all ascii_char s \<Longrightarrow> convertToId (map ascii_lower (js s)) = js (concat (map id_of_char s))"
proof (induction s)
  case (Cons c s)
  then show ?case
    using js_id_of_char [of c] by (simp add: convertToId_code js_append) (simp add: js_def)
qed simp

lemma raw_ok_indexed: "raw_ok x \<Longrightarrow> indexed (entry_of x)"
  by (auto simp: raw_ok_def indexed_def entry_of_def js_ascii convertToId_js split: prod.split)

end
