(* ===== verification/Index_Check.thy ===== *)
theory Index_Check
  imports Char_Ids
begin

text \<open>
  The index tables of the two sites are what the scripts expect: every section has a name and a
  label, every initial in \<open>indexSectionsWithContent\<close> has its page, and a page lists entries with
  distinct ids, each the encoding of a name that starts with the page's initial. The check is done by
  evaluation on characters; a bridging lemma connects it with \<open>convertToId\<close> on code units.
\<close>

definition page_ok :: "char \<Rightarrow> raw_entry list \<Rightarrow> bool" where
  "page_ok c es \<longleftrightarrow>
     list_all (\<lambda>x. raw_ok x \<and> map lower_char (take 1 (fst (snd x))) = [c]) es \<and> distinct (map fst es)"

section \<open>The check of a site\<close>

definition section_page :: "string \<Rightarrow> nat \<Rightarrow> string" where
  "section_page nm j = nm @ [CHR ''_'', hex_char j]"

definition section_ok :: "site \<Rightarrow> nat \<times> string \<Rightarrow> bool" where
  "section_ok st sc \<longleftrightarrow>
     (case (sc, map_of (indexSectionNames st) (fst sc)) of
        ((s, cs), Some nm) \<Rightarrow>
          length cs \<le> 16 \<and> distinct cs \<and> list_all ascii_char cs \<and>
          list_all (\<lambda>(j, c). case map_of (pages st) (section_page nm j) of
                               Some es \<Rightarrow> page_ok c es | None \<Rightarrow> False) (enumerate 0 cs)
      | _ \<Rightarrow> False)"

definition tables_ok :: "site \<Rightarrow> bool" where
  "tables_ok st \<longleftrightarrow>
     map fst (indexSectionsWithContent st) = [0..<length (indexSectionNames st)] \<and>
     map fst (indexSectionLabels st) = [0..<length (indexSectionNames st)] \<and>
     map fst (indexSectionNames st) = [0..<length (indexSectionNames st)] \<and>
     distinct (map fst (pages st))"

definition site_ok :: "site \<Rightarrow> bool" where
  "site_ok st \<longleftrightarrow> tables_ok st \<and> list_all (section_ok st) (indexSectionsWithContent st)"

lemma id_of_char_table:
  "id_of_char CHR '' '' = ''_20''" "id_of_char CHR ''.'' = ''_2e''" "id_of_char CHR ''A'' = ''a''"
  "id_of_char CHR ''B'' = ''b''" "id_of_char CHR ''C'' = ''c''" "id_of_char CHR ''D'' = ''d''"
  "id_of_char CHR ''E'' = ''e''" "id_of_char CHR ''F'' = ''f''" "id_of_char CHR ''G'' = ''g''"
  "id_of_char CHR ''I'' = ''i''" "id_of_char CHR ''J'' = ''j''" "id_of_char CHR ''K'' = ''k''"
  "id_of_char CHR ''L'' = ''l''" "id_of_char CHR ''M'' = ''m''" "id_of_char CHR ''N'' = ''n''"
  "id_of_char CHR ''O'' = ''o''" "id_of_char CHR ''P'' = ''p''" "id_of_char CHR ''Q'' = ''q''"
  "id_of_char CHR ''R'' = ''r''" "id_of_char CHR ''S'' = ''s''" "id_of_char CHR ''T'' = ''t''"
  "id_of_char CHR ''U'' = ''u''" "id_of_char CHR ''V'' = ''v''" "id_of_char CHR ''X'' = ''x''"
  "id_of_char CHR ''Y'' = ''y''" "id_of_char CHR ''_'' = ''_5f''" "id_of_char CHR ''a'' = ''a''"
  "id_of_char CHR ''b'' = ''b''" "id_of_char CHR ''c'' = ''c''" "id_of_char CHR ''d'' = ''d''"
  "id_of_char CHR ''e'' = ''e''" "id_of_char CHR ''f'' = ''f''" "id_of_char CHR ''g'' = ''g''"
  "id_of_char CHR ''h'' = ''h''" "id_of_char CHR ''i'' = ''i''" "id_of_char CHR ''j'' = ''j''"
  "id_of_char CHR ''k'' = ''k''" "id_of_char CHR ''l'' = ''l''" "id_of_char CHR ''m'' = ''m''"
  "id_of_char CHR ''n'' = ''n''" "id_of_char CHR ''o'' = ''o''" "id_of_char CHR ''p'' = ''p''"
  "id_of_char CHR ''q'' = ''q''" "id_of_char CHR ''r'' = ''r''" "id_of_char CHR ''s'' = ''s''"
  "id_of_char CHR ''t'' = ''t''" "id_of_char CHR ''u'' = ''u''" "id_of_char CHR ''v'' = ''v''"
  "id_of_char CHR ''w'' = ''w''" "id_of_char CHR ''x'' = ''x''" "id_of_char CHR ''y'' = ''y''"
  "id_of_char CHR ''z'' = ''z''" "id_of_char CHR ''~'' = ''_7e''"
  by code_simp+

lemma ascii_char_table:
  "ascii_char CHR '' ''" "ascii_char CHR ''.''" "ascii_char CHR ''A''" "ascii_char CHR ''B''"
  "ascii_char CHR ''C''" "ascii_char CHR ''D''" "ascii_char CHR ''E''" "ascii_char CHR ''F''"
  "ascii_char CHR ''G''" "ascii_char CHR ''I''" "ascii_char CHR ''J''" "ascii_char CHR ''K''"
  "ascii_char CHR ''L''" "ascii_char CHR ''M''" "ascii_char CHR ''N''" "ascii_char CHR ''O''"
  "ascii_char CHR ''P''" "ascii_char CHR ''Q''" "ascii_char CHR ''R''" "ascii_char CHR ''S''"
  "ascii_char CHR ''T''" "ascii_char CHR ''U''" "ascii_char CHR ''V''" "ascii_char CHR ''X''"
  "ascii_char CHR ''Y''" "ascii_char CHR ''_''" "ascii_char CHR ''a''" "ascii_char CHR ''b''"
  "ascii_char CHR ''c''" "ascii_char CHR ''d''" "ascii_char CHR ''e''" "ascii_char CHR ''f''"
  "ascii_char CHR ''g''" "ascii_char CHR ''h''" "ascii_char CHR ''i''" "ascii_char CHR ''j''"
  "ascii_char CHR ''k''" "ascii_char CHR ''l''" "ascii_char CHR ''m''" "ascii_char CHR ''n''"
  "ascii_char CHR ''o''" "ascii_char CHR ''p''" "ascii_char CHR ''q''" "ascii_char CHR ''r''"
  "ascii_char CHR ''s''" "ascii_char CHR ''t''" "ascii_char CHR ''u''" "ascii_char CHR ''v''"
  "ascii_char CHR ''w''" "ascii_char CHR ''x''" "ascii_char CHR ''y''" "ascii_char CHR ''z''"
  "ascii_char CHR ''~''"
  by code_simp+

lemma lower_char_table:
  "lower_char CHR '' '' = CHR '' ''" "lower_char CHR ''.'' = CHR ''.''" "lower_char CHR ''A'' = CHR ''a''"
  "lower_char CHR ''B'' = CHR ''b''" "lower_char CHR ''C'' = CHR ''c''" "lower_char CHR ''D'' = CHR ''d''"
  "lower_char CHR ''E'' = CHR ''e''" "lower_char CHR ''F'' = CHR ''f''" "lower_char CHR ''G'' = CHR ''g''"
  "lower_char CHR ''I'' = CHR ''i''" "lower_char CHR ''J'' = CHR ''j''" "lower_char CHR ''K'' = CHR ''k''"
  "lower_char CHR ''L'' = CHR ''l''" "lower_char CHR ''M'' = CHR ''m''" "lower_char CHR ''N'' = CHR ''n''"
  "lower_char CHR ''O'' = CHR ''o''" "lower_char CHR ''P'' = CHR ''p''" "lower_char CHR ''Q'' = CHR ''q''"
  "lower_char CHR ''R'' = CHR ''r''" "lower_char CHR ''S'' = CHR ''s''" "lower_char CHR ''T'' = CHR ''t''"
  "lower_char CHR ''U'' = CHR ''u''" "lower_char CHR ''V'' = CHR ''v''" "lower_char CHR ''X'' = CHR ''x''"
  "lower_char CHR ''Y'' = CHR ''y''" "lower_char CHR ''_'' = CHR ''_''" "lower_char CHR ''a'' = CHR ''a''"
  "lower_char CHR ''b'' = CHR ''b''" "lower_char CHR ''c'' = CHR ''c''" "lower_char CHR ''d'' = CHR ''d''"
  "lower_char CHR ''e'' = CHR ''e''" "lower_char CHR ''f'' = CHR ''f''" "lower_char CHR ''g'' = CHR ''g''"
  "lower_char CHR ''h'' = CHR ''h''" "lower_char CHR ''i'' = CHR ''i''" "lower_char CHR ''j'' = CHR ''j''"
  "lower_char CHR ''k'' = CHR ''k''" "lower_char CHR ''l'' = CHR ''l''" "lower_char CHR ''m'' = CHR ''m''"
  "lower_char CHR ''n'' = CHR ''n''" "lower_char CHR ''o'' = CHR ''o''" "lower_char CHR ''p'' = CHR ''p''"
  "lower_char CHR ''q'' = CHR ''q''" "lower_char CHR ''r'' = CHR ''r''" "lower_char CHR ''s'' = CHR ''s''"
  "lower_char CHR ''t'' = CHR ''t''" "lower_char CHR ''u'' = CHR ''u''" "lower_char CHR ''v'' = CHR ''v''"
  "lower_char CHR ''w'' = CHR ''w''" "lower_char CHR ''x'' = CHR ''x''" "lower_char CHR ''y'' = CHR ''y''"
  "lower_char CHR ''z'' = CHR ''z''" "lower_char CHR ''~'' = CHR ''~''"
  by code_simp+

lemmas char_tables = id_of_char_table ascii_char_table lower_char_table

lemmas html_page_defs =
  html_all_0_def html_all_1_def html_all_2_def html_all_3_def html_all_4_def html_all_5_def html_files_0_def
  html_functions_0_def html_typedefs_0_def html_defines_0_def html_defines_1_def html_defines_2_def
  html_defines_3_def html_defines_4_def html_pages_0_def

lemma html_pages_ok:
  "page_ok CHR ''a'' html_all_0" "page_ok CHR ''c'' html_all_1" "page_ok CHR ''i'' html_all_2"
  "page_ok CHR ''o'' html_all_3" "page_ok CHR ''p'' html_all_4" "page_ok CHR ''s'' html_all_5"
  "page_ok CHR ''p'' html_files_0" "page_ok CHR ''p'' html_functions_0" "page_ok CHR ''p'' html_typedefs_0"
  "page_ok CHR ''a'' html_defines_0" "page_ok CHR ''c'' html_defines_1" "page_ok CHR ''i'' html_defines_2"
  "page_ok CHR ''o'' html_defines_3" "page_ok CHR ''s'' html_defines_4" "page_ok CHR ''p'' html_pages_0"
  by (simp_all add: page_ok_def raw_ok_def html_page_defs char_tables)

lemma html_site_ok: "site_ok html_site"
  by (simp add: site_ok_def tables_ok_def html_site_def html_indexSectionsWithContent_def html_indexSectionNames_def
      html_indexSectionLabels_def section_ok_def section_page_def hex_char_def ascii_char_table html_pages_ok upt_rec)

lemmas yun_page_defs =
  yun_all_0_def yun_all_1_def yun_all_2_def yun_all_3_def yun_all_4_def yun_all_5_def yun_all_6_def
  yun_all_7_def yun_all_8_def yun_all_9_def yun_all_a_def yun_classes_0_def yun_files_0_def
  yun_functions_0_def yun_functions_1_def yun_functions_2_def yun_functions_3_def yun_functions_4_def
  yun_functions_5_def yun_functions_6_def yun_functions_7_def yun_functions_8_def yun_functions_9_def
  yun_functions_a_def yun_variables_0_def yun_pages_0_def

lemma yun_pages_ok:
  "page_ok CHR ''a'' yun_all_0" "page_ok CHR ''b'' yun_all_1" "page_ok CHR ''c'' yun_all_2"
  "page_ok CHR ''e'' yun_all_3" "page_ok CHR ''g'' yun_all_4" "page_ok CHR ''n'' yun_all_5"
  "page_ok CHR ''o'' yun_all_6" "page_ok CHR ''p'' yun_all_7" "page_ok CHR ''s'' yun_all_8"
  "page_ok CHR ''w'' yun_all_9" "page_ok CHR ''~'' yun_all_a" "page_ok CHR ''p'' yun_classes_0"
  "page_ok CHR ''p'' yun_files_0" "page_ok CHR ''a'' yun_functions_0" "page_ok CHR ''b'' yun_functions_1"
  "page_ok CHR ''c'' yun_functions_2" "page_ok CHR ''e'' yun_functions_3" "page_ok CHR ''g'' yun_functions_4"
  "page_ok CHR ''n'' yun_functions_5" "page_ok CHR ''o'' yun_functions_6" "page_ok CHR ''p'' yun_functions_7"
  "page_ok CHR ''s'' yun_functions_8" "page_ok CHR ''w'' yun_functions_9" "page_ok CHR ''~'' yun_functions_a"
  "page_ok CHR ''p'' yun_variables_0" "page_ok CHR ''p'' yun_pages_0"
  by (simp_all add: page_ok_def raw_ok_def yun_page_defs char_tables)

lemma yun_site_ok: "site_ok yun_site"
  by (simp add: site_ok_def tables_ok_def yun_site_def yun_indexSectionsWithContent_def yun_indexSectionNames_def
      yun_indexSectionLabels_def section_ok_def section_page_def hex_char_def ascii_char_table yun_pages_ok upt_rec)

text \<open>
  The index tables of both documentation sites are consistent: sections, names and labels have the
  same keys \<open>0, 1, ...\<close>; every initial of a section has its page; the entries of a page have
  distinct ids, each id encodes the entry's name in lower case, and the name starts with the page's
  initial.
\<close>

theorem index_tables_consistent: "site_ok html_site \<and> site_ok yun_site"
  by (simp add: html_site_ok yun_site_ok)

end
