(* ===== verification/Search_Box.thy ===== *)
theory Search_Box
  imports Search_Data
begin

text \<open>
  The class \<open>SearchBox\<close> of \<^verbatim>\<open>search.js\<close>: the search field, the menu of index
  sections and the popup with the results. A state is the object's fields together with what the
  handlers read and write of the page: the values and styles of the elements, the focus, the pending
  timers and the address of the results frame. A handler returns the new state and the exception it
  ends with, if any; changes made before an exception stay.
\<close>

section \<open>Positions on the page\<close>

text \<open>
  The geometry that the browser computes: an element and the chain of its \<open>offsetParent\<close>s.
\<close>

record box =
  offsetLeft :: int
  offsetTop :: int
  offsetWidth :: int
  offsetHeight :: int
  is_body :: bool

text \<open>The loops of \<open>getXPos\<close> and \<open>getYPos\<close> run from the item through its \<open>offsetParent\<close>s.\<close>

fun getXPos_loop :: "int \<Rightarrow> box list \<Rightarrow> int" where
  "getXPos_loop x [] = x"
| "getXPos_loop x (item # ps) = (if is_body item then x else getXPos_loop (x + offsetLeft item) ps)"

fun getYPos_loop :: "int \<Rightarrow> box list \<Rightarrow> int" where
  "getYPos_loop y [] = y"
| "getYPos_loop y (item # ps) = (if is_body item then y else getYPos_loop (y + offsetTop item) ps)"

definition getXPos :: "box \<Rightarrow> box list \<Rightarrow> int" where
  "getXPos item ps = (if offsetWidth item \<noteq> 0 then getXPos_loop 0 (item # ps) else 0)"

definition getYPos :: "box \<Rightarrow> box list \<Rightarrow> int" where
  "getYPos item ps = (if offsetWidth item \<noteq> 0 then getYPos_loop 0 (item # ps) else 0)"

text \<open>What the handlers read of the layout.\<close>

record geometry =
  searchSelect :: "box \<times> box list"
  searchBoxPos :: "box \<times> box list"
  selectWindowWidth :: int
  resultsWidth :: int
  clientWidth :: int

section \<open>The state\<close>

record searchBox =
  sb_name :: jsstring
  resultsPath :: jsstring
  keyTimeout :: nat
  keyTimeoutLength :: nat
  closeSelectionTimeout :: nat
  lastSearchValue :: jsstring
  lastResultsPage :: jsstring
  hideTimeout :: nat
  searchIndex :: nat
  searchActive :: bool
  insideFrame :: bool
  searchLabel :: jsstring

record style =
  st_display :: jsstring
  st_position :: jsstring
  st_left :: jsstring
  st_top :: jsstring
  st_width :: jsstring

definition no_style :: style where
  "no_style = \<lparr>st_display = [], st_position = [], st_left = [], st_top = [], st_width = []\<rparr>"

text \<open>
  The children of the selection window: text between the elements, and the links that
  \<open>init_search\<close> adds, each with a mark in its first child and a label.
\<close>

datatype select_node = TextNode | SelectNode (node_class: jsstring) (onclick: jsstring) (mark: jsstring) (label: jsstring)

datatype focus = NoFocus | FieldFocus | ItemFocus nat | FrameFocus path

datatype timer = CloseSelectionTimer | SearchTimer

record page =
  fieldValue :: jsstring
  boxClass :: jsstring
  selectNodes :: "select_node list"
  selectWindow :: style
  resultsWindow :: style
  results :: style
  closeDisplay :: jsstring
  frameLocation :: jsstring
  frameResults :: "(searchResults \<times> dom) option"
  focused :: focus
  timers :: "(nat \<times> timer \<times> nat) list"
  nextTimer :: nat

type_synonym state = "searchBox \<times> page"
type_synonym outcome = "state \<times> js_error option"

definition SearchBox :: "jsstring \<Rightarrow> jsstring \<Rightarrow> bool \<Rightarrow> jsstring \<Rightarrow> searchBox" where
  "SearchBox name path inFrame lbl =
     \<lparr>sb_name = name, resultsPath = path, keyTimeout = 0, keyTimeoutLength = 500,
      closeSelectionTimeout = 300, lastSearchValue = [], lastResultsPage = [], hideTimeout = 0,
      searchIndex = 0, searchActive = False, insideFrame = inFrame, searchLabel = lbl\<rparr>"

text \<open>Timers of the window: ids are positive and never reused.\<close>

definition setTimeout :: "timer \<Rightarrow> nat \<Rightarrow> page \<Rightarrow> nat \<times> page" where
  "setTimeout t ms pg =
     (nextTimer pg, pg\<lparr>timers := timers pg @ [(nextTimer pg, t, ms)], nextTimer := Suc (nextTimer pg)\<rparr>)"

definition clearTimeout :: "nat \<Rightarrow> page \<Rightarrow> page" where
  "clearTimeout i pg = pg\<lparr>timers := filter (\<lambda>x. fst x \<noteq> i) (timers pg)\<rparr>"

definition px :: "int \<Rightarrow> jsstring" where
  "px n = int_to_string n @ js ''px''"

section \<open>Activation and focus\<close>

definition Activate :: "bool \<Rightarrow> state \<Rightarrow> state" where
  "Activate isActive s =
     (case s of (sb, pg) \<Rightarrow>
        if isActive \<or> st_display (resultsWindow pg) = js ''block'' then
          (let pg = pg\<lparr>boxClass := js ''MSearchBoxActive''\<rparr> in
           if fieldValue pg = searchLabel sb
           then (sb\<lparr>searchActive := True\<rparr>, pg\<lparr>fieldValue := []\<rparr>)
           else (sb, pg))
        else
          (sb\<lparr>searchActive := False, lastSearchValue := [], lastResultsPage := []\<rparr>,
           pg\<lparr>boxClass := js ''MSearchBoxInactive'', fieldValue := searchLabel sb\<rparr>))"

definition OnSearchFieldFocus :: "bool \<Rightarrow> state \<Rightarrow> state" where
  "OnSearchFieldFocus isActive s = Activate isActive s"

text \<open>
  \<open>element.focus()\<close> and \<open>field.blur()\<close>. The page's markup binds the focus events of the
  search field to \<open>OnSearchFieldFocus\<close>; they are dispatched before the call returns.
\<close>

definition focus_on :: "focus \<Rightarrow> state \<Rightarrow> state" where
  "focus_on f s =
     (case s of (sb, pg) \<Rightarrow>
        if focused pg = f then s
        else let s1 = (sb, pg\<lparr>focused := f\<rparr>);
                 s2 = (if focused pg = FieldFocus then OnSearchFieldFocus False s1 else s1)
             in if f = FieldFocus then OnSearchFieldFocus True s2 else s2)"

definition blur_field :: "state \<Rightarrow> state" where
  "blur_field s =
     (case s of (sb, pg) \<Rightarrow>
        if focused pg = FieldFocus then OnSearchFieldFocus False (sb, pg\<lparr>focused := NoFocus\<rparr>) else s)"

section \<open>The selection window\<close>

definition OnSearchSelectShow :: "geometry \<Rightarrow> state \<Rightarrow> state" where
  "OnSearchSelectShow g s =
     (case s of (sb, pg) \<Rightarrow>
        let field = fst (searchSelect g);
            left = case_prod getXPos (searchSelect g);
            top = case_prod getYPos (searchSelect g);
            left = (if insideFrame sb then left + offsetWidth field + 6 else left);
            top = top + offsetHeight field;
            left = (if insideFrame sb then left - selectWindowWidth g else left);
            pg = pg\<lparr>selectWindow :=
                   (selectWindow pg)\<lparr>st_display := js ''block'', st_left := px left, st_top := px top\<rparr>\<rparr>
        in if hideTimeout sb \<noteq> 0
           then (sb\<lparr>hideTimeout := 0\<rparr>, clearTimeout (hideTimeout sb) pg)
           else (sb, pg))"

definition OnSearchSelectHide :: "state \<Rightarrow> state" where
  "OnSearchSelectHide s =
     (case s of (sb, pg) \<Rightarrow>
        case setTimeout CloseSelectionTimer (closeSelectionTimeout sb) pg of
          (i, pg) \<Rightarrow> (sb\<lparr>hideTimeout := i\<rparr>, pg))"

definition CloseSelectionWindow :: "state \<Rightarrow> state" where
  "CloseSelectionWindow s =
     (case s of (sb, pg) \<Rightarrow> (sb, pg\<lparr>selectWindow := (selectWindow pg)\<lparr>st_display := js ''none''\<rparr>\<rparr>))"

definition is_select_item :: "select_node \<Rightarrow> bool" where
  "is_select_item n \<longleftrightarrow> (case n of TextNode \<Rightarrow> False | SelectNode c _ _ _ \<Rightarrow> c = js ''SelectItem'')"

fun SelectItemCount_loop :: "nat \<Rightarrow> select_node list \<Rightarrow> nat" where
  "SelectItemCount_loop count [] = count"
| "SelectItemCount_loop count (child # ns) =
     SelectItemCount_loop (if is_select_item child then count + 1 else count) ns"

definition SelectItemCount :: "page \<Rightarrow> nat" where
  "SelectItemCount pg = SelectItemCount_loop 0 (selectNodes pg)"

definition set_mark :: "jsstring \<Rightarrow> select_node \<Rightarrow> select_node" where
  "set_mark v n = (case n of TextNode \<Rightarrow> TextNode | SelectNode c k _ l \<Rightarrow> SelectNode c k v l)"

fun SelectItemSet_loop :: "nat \<Rightarrow> nat \<Rightarrow> select_node list \<Rightarrow> select_node list" where
  "SelectItemSet_loop i j [] = []"
| "SelectItemSet_loop i j (child # ns) =
     (if is_select_item child
      then set_mark (if j = i then js ''&#8226;'' else js ''&#160;'') child # SelectItemSet_loop i (j + 1) ns
      else child # SelectItemSet_loop i j ns)"

definition SelectItemSet :: "nat \<Rightarrow> page \<Rightarrow> page" where
  "SelectItemSet i pg = pg\<lparr>selectNodes := SelectItemSet_loop i 0 (selectNodes pg)\<rparr>"

text \<open>The loop of \<open>OnSearchFieldChange\<close> that focuses the first item: its position.\<close>

fun first_item :: "nat \<Rightarrow> select_node list \<Rightarrow> nat option" where
  "first_item i [] = None"
| "first_item i (child # ns) = (if is_select_item child then Some i else first_item (i + 1) ns)"

section \<open>Searching\<close>

text \<open>The index character of a search text, with the test for a surrogate pair as it is written.\<close>

definition idxChar :: "host \<Rightarrow> jsstring \<Rightarrow> jsstring" where
  "idxChar h searchValue =
     (let low = host_toLowerCase h searchValue in
      if low \<noteq> [] \<and> 0xD800 \<le> hd low \<and> hd low \<le> 0xDBFF \<and> host_gt1 h searchValue
      then take 2 searchValue
      else host_toLowerCase h (take 1 searchValue))"

text \<open>
  The results page and its address with the search text. An index without a section makes the lookup
  undefined, and calling \<open>indexOf\<close> on it throws.
\<close>

definition results_address :: "host \<Rightarrow> site \<Rightarrow> searchBox \<Rightarrow> jsstring \<Rightarrow> (jsstring \<times> jsstring) option" where
  "results_address h st sb searchValue =
     (case map_of (indexSectionsWithContent st) (searchIndex sb) of
        None \<Rightarrow> None
      | Some chars \<Rightarrow>
          Some (case indexOf (js chars) (idxChar h searchValue) of
                  Some idx \<Rightarrow>
                    let resultsPage = resultsPath sb @ js ''/''
                          @ (case map_of (indexSectionNames st) (searchIndex sb) of
                               Some nm \<Rightarrow> js nm | None \<Rightarrow> js ''undefined'')
                          @ js ''_'' @ toString16 idx @ js ''.html''
                    in (resultsPage, resultsPage @ js ''?'' @ escape searchValue)
                | None \<Rightarrow>
                    let resultsPage = resultsPath sb @ js ''/nomatches.html'' in (resultsPage, resultsPage)))"

definition show_results :: "geometry \<Rightarrow> searchBox \<Rightarrow> page \<Rightarrow> page" where
  "show_results g sb pg =
     (if st_display (resultsWindow pg) \<noteq> js ''block'' then
        let pg = pg\<lparr>closeDisplay := js ''inline''\<rparr> in
        if insideFrame sb then
          let width = clientWidth g - 8 in
          pg\<lparr>resultsWindow := (resultsWindow pg)\<lparr>st_position := js ''relative'', st_display := js ''block'',
               st_width := px width\<rparr>,
             results := (results pg)\<lparr>st_width := px width\<rparr>\<rparr>
        else
          let left = case_prod getXPos (searchBoxPos g) + 150;
              top = case_prod getYPos (searchBoxPos g) + 20;
              left = left - resultsWidth g
          in pg\<lparr>resultsWindow := (resultsWindow pg)\<lparr>st_display := js ''block'', st_top := px top,
               st_left := px left\<rparr>\<rparr>
      else pg)"

definition SearchBox_Search :: "host \<Rightarrow> site \<Rightarrow> geometry \<Rightarrow> state \<Rightarrow> outcome" where
  "SearchBox_Search h st g s =
     (case s of (sb, pg) \<Rightarrow>
        let sb = sb\<lparr>keyTimeout := 0\<rparr>;
            searchValue = strip_leading (fieldValue pg)
        in case results_address h st sb searchValue of
             None \<Rightarrow> ((sb, pg), Some TypeError)
           | Some (resultsPage, resultsPageWithSearch) \<Rightarrow>
               ((sb\<lparr>lastSearchValue := searchValue, lastResultsPage := resultsPage\<rparr>,
                 show_results g sb (pg\<lparr>frameLocation := resultsPageWithSearch\<rparr>)), None))"

section \<open>Handlers\<close>

definition hide_results :: "page \<Rightarrow> page" where
  "hide_results pg =
     pg\<lparr>resultsWindow := (resultsWindow pg)\<lparr>st_display := js ''none''\<rparr>, closeDisplay := js ''none''\<rparr>"

definition CloseResultsWindow :: "state \<Rightarrow> state" where
  "CloseResultsWindow s = (case s of (sb, pg) \<Rightarrow> Activate False (sb, hide_results pg))"

definition OnSelectItem :: "host \<Rightarrow> site \<Rightarrow> geometry \<Rightarrow> nat \<Rightarrow> state \<Rightarrow> outcome" where
  "OnSelectItem h st g i s =
     (case s of (sb, pg) \<Rightarrow>
        let sb = sb\<lparr>searchIndex := i\<rparr>;
            pg = SelectItemSet i pg
        in if strip_spaces (fieldValue pg) \<noteq> [] \<and> searchActive sb
           then SearchBox_Search h st g (sb, pg)
           else ((sb, pg), None))"

definition OnSearchSelectKey :: "host \<Rightarrow> site \<Rightarrow> geometry \<Rightarrow> nat \<Rightarrow> state \<Rightarrow> outcome" where
  "OnSearchSelectKey h st g kc s =
     (case s of (sb, pg) \<Rightarrow>
        if kc = 40 \<and> searchIndex sb < SelectItemCount pg then
          OnSelectItem h st g (searchIndex sb + 1) (sb\<lparr>searchIndex := searchIndex sb + 1\<rparr>, pg)
        else if kc = 38 \<and> searchIndex sb > 0 then
          OnSelectItem h st g (searchIndex sb - 1) (sb\<lparr>searchIndex := searchIndex sb - 1\<rparr>, pg)
        else if kc = 13 \<or> kc = 27 then
          (case OnSelectItem h st g (searchIndex sb) (sb, pg) of
             (s, Some e) \<Rightarrow> (s, Some e)
           | (s, None) \<Rightarrow> (focus_on FieldFocus (CloseSelectionWindow s), None))
        else (s, None))"

text \<open>
  The part of \<open>OnSearchFieldChange\<close> after the key tests: compare the field with the last search.
\<close>

definition field_changed :: "state \<Rightarrow> state" where
  "field_changed s =
     (case s of (sb, pg) \<Rightarrow>
        let searchValue = strip_spaces (fieldValue pg) in
        if searchValue \<noteq> lastSearchValue sb then
          if searchValue \<noteq> [] then
            (case setTimeout SearchTimer (keyTimeoutLength sb) pg of (i, pg) \<Rightarrow> (sb\<lparr>keyTimeout := i\<rparr>, pg))
          else (sb\<lparr>lastSearchValue := []\<rparr>, hide_results pg)
        else s)"

definition kill_timer :: "state \<Rightarrow> state" where
  "kill_timer s =
     (case s of (sb, pg) \<Rightarrow>
        if keyTimeout sb \<noteq> 0 then (sb\<lparr>keyTimeout := 0\<rparr>, clearTimeout (keyTimeout sb) pg) else s)"

text \<open>Enter or Down in the field without Shift: focus the first row of the results that shows.\<close>

definition focus_results :: "state \<Rightarrow> outcome" where
  "focus_results s =
     (case frameResults (snd s) of
        None \<Rightarrow> (s, None)
      | Some (sr, doc) \<Rightarrow>
          (case NavNext doc 0 of
             Inl e \<Rightarrow> (s, Some e)
           | Inr None \<Rightarrow> (s, None)
           | Inr (Some p) \<Rightarrow> (focus_on (FrameFocus p) s, None)))"

definition OnSearchFieldChange :: "geometry \<Rightarrow> key_event \<Rightarrow> state \<Rightarrow> outcome" where
  "OnSearchFieldChange g e s =
     (let s = kill_timer s in
      if keyCode e = 40 \<or> keyCode e = 13 then
        if shiftKey e then
          let s = OnSearchSelectShow g s in
          (case first_item 0 (selectNodes (snd s)) of
             Some i \<Rightarrow> (focus_on (ItemFocus i) s, None)
           | None \<Rightarrow> (s, None))
        else
          (case focus_results s of
             (s, Some err) \<Rightarrow> (s, Some err)
           | (s, None) \<Rightarrow> (field_changed s, None))
      else if keyCode e = 27 then
        (case blur_field s of (sb, pg) \<Rightarrow>
           (Activate False (sb\<lparr>lastSearchValue := []\<rparr>, hide_results pg), None))
      else (field_changed s, None))"

section \<open>Setting up the page\<close>

fun init_links :: "(nat \<times> string) list \<Rightarrow> select_node list" where
  "init_links [] = []"
| "init_links ((key, lbl) # ls) =
     SelectNode (js ''SelectItem'') (js ''searchBox.OnSelectItem('' @ nat_to_string key @ js '')'')
       (js ''&#160;'') (js lbl) # init_links ls"

definition init_search :: "host \<Rightarrow> site \<Rightarrow> geometry \<Rightarrow> state \<Rightarrow> outcome" where
  "init_search h st g s =
     (case s of (sb, pg) \<Rightarrow>
        OnSelectItem h st g 0 (sb, pg\<lparr>selectNodes := selectNodes pg @ init_links (indexSectionLabels st)\<rparr>))"

text \<open>The page as its markup is loaded, before \<open>init_search\<close>.\<close>

definition html_page :: page where
  "html_page =
     \<lparr>fieldValue = js ''Search'', boxClass = js ''MSearchBoxInactive'', selectNodes = [TextNode],
      selectWindow = no_style, resultsWindow = no_style, results = no_style, closeDisplay = [],
      frameLocation = [], frameResults = None, focused = NoFocus, timers = [], nextTimer = 1\<rparr>"

definition initial :: "host \<Rightarrow> site \<Rightarrow> geometry \<Rightarrow> state" where
  "initial h st g =
     fst (init_search h st g (SearchBox (js ''searchBox'') (js ''search'') False (js ''Search''), html_page))"

end
