(* ===== verification/Search_Box_Inv.thy ===== *)
theory Search_Box_Inv
  imports Search_Box
begin

text \<open>
  The search box as a state machine: its steps are the events that the page's markup binds to the
  handlers, the timers that expire and the loading of the results frame. The invariant of its
  reachable states relates the windows that show to the fields of the object.
\<close>

section \<open>Steps\<close>

inductive box_step :: "host \<Rightarrow> site \<Rightarrow> state \<Rightarrow> state \<Rightarrow> bool" for h st where
  field_focus: "box_step h st s (focus_on FieldFocus s)"
| field_blur: "box_step h st s (blur_field s)"
| typing: "focused pg = FieldFocus \<Longrightarrow> box_step h st (sb, pg) (sb, pg\<lparr>fieldValue := v\<rparr>)"
| key_up: "focused (snd s) = FieldFocus \<Longrightarrow> box_step h st s (fst (OnSearchFieldChange g e s))"
| select_show: "box_step h st s (OnSearchSelectShow g s)"
| select_hide: "box_step h st s (OnSearchSelectHide s)"
| select_click: "i < SelectItemCount (snd s) \<Longrightarrow> box_step h st s (fst (OnSelectItem h st g i s))"
| select_key: "box_step h st s (fst (OnSearchSelectKey h st g k s))"
| close_click: "box_step h st s (CloseResultsWindow s)"
| frame_escape: "box_step h st s (focus_on FieldFocus (CloseResultsWindow s))"
| frame_load: "box_step h st (sb, pg) (sb, pg\<lparr>frameResults := r\<rparr>)"
| close_timer: "(i, CloseSelectionTimer, ms) \<in> set (timers pg) \<Longrightarrow>
    box_step h st (sb, pg) (CloseSelectionWindow (sb, clearTimeout i pg))"
| search_timer: "(i, SearchTimer, ms) \<in> set (timers pg) \<Longrightarrow>
    box_step h st (sb, pg) (fst (SearchBox_Search h st g (sb, clearTimeout i pg)))"

section \<open>Counting and marking the items\<close>

lemma SelectItemCount_loop: "SelectItemCount_loop n ns = n + length (filter is_select_item ns)"
  by (induction ns arbitrary: n) auto

lemma SelectItemCount_items: "SelectItemCount pg = length (filter is_select_item (selectNodes pg))"
  by (simp add: SelectItemCount_def SelectItemCount_loop)

lemma is_select_item_set_mark [simp]: "is_select_item (set_mark v n) = is_select_item n"
  by (cases n) (simp_all add: is_select_item_def set_mark_def)

lemma set_mark_set_mark [simp]: "set_mark v (set_mark w n) = set_mark v n"
  by (cases n) (simp_all add: set_mark_def)

lemma SelectItemSet_loop_items [simp]:
  "length (filter is_select_item (SelectItemSet_loop i j ns)) = length (filter is_select_item ns)"
  by (induction ns arbitrary: j) auto

lemma SelectItemSet_loop_idem [simp]:
  "SelectItemSet_loop i j (SelectItemSet_loop k j ns) = SelectItemSet_loop i j ns"
  by (induction ns arbitrary: j) auto

lemma SelectItemCount_Set [simp]: "SelectItemCount (SelectItemSet i pg) = SelectItemCount pg"
  by (simp add: SelectItemCount_items SelectItemSet_def)

text \<open>The items of a window whose marks are set for item \<open>i\<close>.\<close>

lemma SelectItemSet_marks:
  "map mark (filter is_select_item (SelectItemSet_loop i j ns)) =
   map (\<lambda>k. if k = i then js ''&#8226;'' else js ''&#160;'') [j..<j + length (filter is_select_item ns)]"
proof (induction ns arbitrary: j)
  case (Cons n ns)
  have "mark (set_mark v n) = v" if "is_select_item n" for v
    using that by (cases n) (simp_all add: is_select_item_def set_mark_def)
  with Cons.IH show ?case
    by (cases "is_select_item n") (simp_all add: upt_conv_Cons del: upt_Suc)
qed simp

section \<open>The invariant\<close>

definition windows_inv :: "state \<Rightarrow> bool" where
  [inv_simps]: "windows_inv s \<longleftrightarrow>
     (st_display (resultsWindow (snd s)) = js ''block'' \<longleftrightarrow> closeDisplay (snd s) = js ''inline'') \<and>
     (st_display (resultsWindow (snd s)) \<noteq> js ''block'' \<longrightarrow> lastSearchValue (fst s) = [])"

definition items_inv :: "site \<Rightarrow> state \<Rightarrow> bool" where
  [inv_simps]: "items_inv st s \<longleftrightarrow>
     SelectItemCount (snd s) = length (indexSectionLabels st) \<and>
     searchIndex (fst s) \<le> length (indexSectionLabels st) \<and>
     SelectItemSet_loop (searchIndex (fst s)) 0 (selectNodes (snd s)) = selectNodes (snd s)"

definition timers_inv :: "state \<Rightarrow> bool" where
  [inv_simps]: "timers_inv s \<longleftrightarrow>
     (\<forall>(i, t, ms) \<in> set (timers (snd s)). 0 < i \<and> i < nextTimer (snd s)) \<and>
     0 < nextTimer (snd s) \<and> distinct (map fst (timers (snd s))) \<and>
     (keyTimeout (fst s) \<noteq> 0 \<longrightarrow> (keyTimeout (fst s), SearchTimer, keyTimeoutLength (fst s)) \<in> set (timers (snd s))) \<and>
     hideTimeout (fst s) < nextTimer (snd s) \<and>
     (\<forall>ms. (hideTimeout (fst s), SearchTimer, ms) \<notin> set (timers (snd s)))"

definition box_inv :: "site \<Rightarrow> state \<Rightarrow> bool" where
  "box_inv st s \<longleftrightarrow> windows_inv s \<and> items_inv st s \<and> timers_inv s"

lemma box_invI: "windows_inv s \<Longrightarrow> items_inv st s \<Longrightarrow> timers_inv s \<Longrightarrow> box_inv st s"
  by (simp add: box_inv_def)

text \<open>What the invariant does not mention may change freely.\<close>

lemma inv_frame [simp]:
  "box_inv st (sb, pg\<lparr>fieldValue := v\<rparr>) = box_inv st (sb, pg)"
  "box_inv st (sb, pg\<lparr>boxClass := c\<rparr>) = box_inv st (sb, pg)"
  "box_inv st (sb, pg\<lparr>focused := f\<rparr>) = box_inv st (sb, pg)"
  "box_inv st (sb, pg\<lparr>frameResults := r\<rparr>) = box_inv st (sb, pg)"
  "box_inv st (sb, pg\<lparr>frameLocation := l\<rparr>) = box_inv st (sb, pg)"
  "box_inv st (sb, pg\<lparr>selectWindow := w\<rparr>) = box_inv st (sb, pg)"
  "box_inv st (sb\<lparr>searchActive := b\<rparr>, pg) = box_inv st (sb, pg)"
  "box_inv st (sb\<lparr>lastResultsPage := l\<rparr>, pg) = box_inv st (sb, pg)"
  by (simp_all add: box_inv_def inv_simps SelectItemCount_def)

lemma inv_reset [simp]: "box_inv st (sb, pg) \<Longrightarrow> box_inv st (sb\<lparr>lastSearchValue := []\<rparr>, pg)"
  by (simp add: box_inv_def inv_simps)

lemma inv_hide [simp]:
  "box_inv st (sb, pg) \<Longrightarrow> box_inv st (sb\<lparr>lastSearchValue := []\<rparr>, hide_results pg)"
  by (simp add: box_inv_def inv_simps hide_results_def SelectItemCount_def)

section \<open>Every handler keeps it\<close>

lemma inv_Activate: "box_inv st s \<Longrightarrow> box_inv st (Activate b s)"
  by (cases s) (simp add: Activate_def Let_def)

lemma inv_focus_on: "box_inv st s \<Longrightarrow> box_inv st (focus_on f s)"
  by (cases s) (simp add: focus_on_def Let_def OnSearchFieldFocus_def inv_Activate)

lemma inv_blur_field: "box_inv st s \<Longrightarrow> box_inv st (blur_field s)"
  by (cases s) (simp add: blur_field_def OnSearchFieldFocus_def inv_Activate)

lemma inv_CloseSelectionWindow: "box_inv st s \<Longrightarrow> box_inv st (CloseSelectionWindow s)"
  by (cases s) (simp add: CloseSelectionWindow_def)

text \<open>Closing the window and then deactivating resets the last search value.\<close>

lemma Activate_hidden:
  "st_display (resultsWindow pg) \<noteq> js ''block'' \<Longrightarrow>
   Activate False (sb, pg) = Activate False (sb\<lparr>lastSearchValue := []\<rparr>, pg)"
  by (simp add: Activate_def)

lemma hide_results_display [simp]: "st_display (resultsWindow (hide_results pg)) = js ''none''"
  by (simp add: hide_results_def)

lemma inv_CloseResultsWindow: "box_inv st s \<Longrightarrow> box_inv st (CloseResultsWindow s)"
proof -
  assume inv: "box_inv st s"
  obtain sb pg where s: "s = (sb, pg)" by (cases s)
  have "Activate False (sb, hide_results pg) = Activate False (sb\<lparr>lastSearchValue := []\<rparr>, hide_results pg)"
    by (rule Activate_hidden) simp
  with inv show ?thesis by (simp add: s CloseResultsWindow_def inv_Activate)
qed

lemma inv_clearTimeout:
  assumes "box_inv st (sb, pg)" and "i \<noteq> keyTimeout sb \<or> keyTimeout sb = 0"
  shows "box_inv st (sb, clearTimeout i pg)"
  using assms by (auto simp: box_inv_def inv_simps clearTimeout_def SelectItemCount_def distinct_map_filter)

lemma inv_hideTimeout: "box_inv st (sb, pg) \<Longrightarrow> box_inv st (sb\<lparr>hideTimeout := 0\<rparr>, pg)"
  by (auto simp: box_inv_def inv_simps)

lemma inv_keyTimeout: "box_inv st (sb, pg) \<Longrightarrow> box_inv st (sb\<lparr>keyTimeout := 0\<rparr>, pg)"
  by (auto simp: box_inv_def inv_simps)

lemma hide_not_key:
  "box_inv st (sb, pg) \<Longrightarrow> hideTimeout sb \<noteq> keyTimeout sb \<or> keyTimeout sb = 0"
  by (auto simp: box_inv_def inv_simps)

lemma inv_OnSearchSelectShow:
  assumes "box_inv st s"
  shows "box_inv st (OnSearchSelectShow g s)"
proof -
  obtain sb pg where s: "s = (sb, pg)" by (cases s)
  have "box_inv st (sb\<lparr>hideTimeout := 0\<rparr>, clearTimeout (hideTimeout sb) (pg\<lparr>selectWindow := w\<rparr>))" for w
    using assms hide_not_key [of st sb pg] by (intro inv_hideTimeout inv_clearTimeout) (simp_all add: s)
  with assms show ?thesis by (simp add: s OnSearchSelectShow_def Let_def)
qed

lemma inv_OnSearchSelectHide: "box_inv st s \<Longrightarrow> box_inv st (OnSearchSelectHide s)"
  by (cases s)
    (fastforce simp: box_inv_def inv_simps OnSearchSelectHide_def setTimeout_def SelectItemCount_def)

lemma inv_kill_timer: "box_inv st s \<Longrightarrow> box_inv st (kill_timer s)"
proof -
  assume inv: "box_inv st s"
  obtain sb pg where s: "s = (sb, pg)" by (cases s)
  have "box_inv st (sb\<lparr>keyTimeout := 0\<rparr>, clearTimeout (keyTimeout sb) pg)"
    using inv inv_keyTimeout by (intro inv_clearTimeout) (simp_all add: s)
  with inv show ?thesis by (simp add: s kill_timer_def)
qed

lemma kill_timer_zero: "keyTimeout (fst (kill_timer s)) = 0"
  by (cases s) (simp add: kill_timer_def)

lemma inv_field_changed: "box_inv st s \<Longrightarrow> box_inv st (field_changed s)"
proof -
  assume inv: "box_inv st s"
  obtain sb pg where s: "s = (sb, pg)" by (cases s)
  have "box_inv st (sb\<lparr>keyTimeout := nextTimer pg\<rparr>,
      pg\<lparr>timers := timers pg @ [(nextTimer pg, SearchTimer, keyTimeoutLength sb)], nextTimer := Suc (nextTimer pg)\<rparr>)"
    using inv by (fastforce simp: s box_inv_def inv_simps SelectItemCount_def)
  with inv show ?thesis by (simp add: s field_changed_def Let_def setTimeout_def)
qed

lemma inv_focus_results: "box_inv st s \<Longrightarrow> box_inv st (fst (focus_results s))"
  by (auto simp: focus_results_def inv_focus_on split: option.split sum.split)

lemma inv_OnSearchFieldChange:
  assumes "box_inv st s"
  shows "box_inv st (fst (OnSearchFieldChange g e s))"
proof -
  have k: "box_inv st (kill_timer s)" using assms by (rule inv_kill_timer)
  have "box_inv st (fst (case focus_results (kill_timer s) of
      (s, Some err) \<Rightarrow> (s, Some err) | (s, None) \<Rightarrow> (field_changed s, None)))"
    using inv_focus_results [OF k] by (auto simp: inv_field_changed split: prod.split option.split)
  moreover have "box_inv st (fst (case blur_field (kill_timer s) of
      (sb, pg) \<Rightarrow> (Activate False (sb\<lparr>lastSearchValue := []\<rparr>, hide_results pg), None)))"
    using inv_blur_field [OF k] by (auto simp: inv_Activate split: prod.split)
  ultimately show ?thesis
    using inv_OnSearchSelectShow [OF k, of g] inv_field_changed [OF k]
    by (auto simp: OnSearchFieldChange_def Let_def inv_focus_on split: option.split)
qed

lemma show_results_block: "st_display (resultsWindow (show_results g sb pg)) = js ''block''"
  by (simp add: show_results_def Let_def)

lemma inv_show_results:
  "box_inv st (sb, pg) \<Longrightarrow> box_inv st (sb\<lparr>lastSearchValue := v\<rparr>, show_results g sb pg)"
  by (auto simp: box_inv_def inv_simps show_results_def Let_def SelectItemCount_def)

lemma inv_Search: "box_inv st s \<Longrightarrow> box_inv st (fst (SearchBox_Search h st g s))"
proof -
  assume inv: "box_inv st s"
  obtain sb pg where s: "s = (sb, pg)" by (cases s)
  with inv have "box_inv st (sb\<lparr>keyTimeout := 0\<rparr>, pg)" by (simp add: inv_keyTimeout)
  then show ?thesis
    using inv_show_results [of st "sb\<lparr>keyTimeout := 0\<rparr>" "pg\<lparr>frameLocation := l\<rparr>" for l]
    by (auto simp: s SearchBox_Search_def Let_def split: option.split)
qed

lemma inv_select: "box_inv st (sb, pg) \<Longrightarrow> i \<le> SelectItemCount pg \<Longrightarrow>
  box_inv st (sb\<lparr>searchIndex := i\<rparr>, SelectItemSet i pg)"
  by (auto simp: box_inv_def inv_simps SelectItemSet_def SelectItemCount_items)

lemma inv_OnSelectItem:
  "box_inv st (sb, pg) \<Longrightarrow> i \<le> SelectItemCount pg \<Longrightarrow>
   box_inv st (fst (OnSelectItem h st g i (sb\<lparr>searchIndex := j\<rparr>, pg)))"
  using inv_select [of st sb pg i] by (auto simp: OnSelectItem_def Let_def inv_Search)

lemma inv_OnSelectItem_same:
  "box_inv st (sb, pg) \<Longrightarrow> i \<le> SelectItemCount pg \<Longrightarrow> box_inv st (fst (OnSelectItem h st g i (sb, pg)))"
  using inv_OnSelectItem [of st sb pg i h g "searchIndex sb"] by simp

lemma inv_OnSearchSelectKey:
  assumes "box_inv st s"
  shows "box_inv st (fst (OnSearchSelectKey h st g k s))"
proof -
  obtain sb pg where s: "s = (sb, pg)" by (cases s)
  with assms have i: "searchIndex sb \<le> SelectItemCount pg" by (simp add: box_inv_def inv_simps)
  have "box_inv st (fst (case OnSelectItem h st g (searchIndex sb) (sb, pg) of
      (s, Some e) \<Rightarrow> (s, Some e) | (s, None) \<Rightarrow> (focus_on FieldFocus (CloseSelectionWindow s), None)))"
    using inv_OnSelectItem_same [of st sb pg "searchIndex sb" h g] assms i
    by (auto simp: s inv_focus_on inv_CloseSelectionWindow split: prod.split option.split)
  then show ?thesis
    using assms i by (auto simp: s OnSearchSelectKey_def inv_OnSelectItem)
qed

lemma inv_box_step:
  assumes "box_step h st s t" and "box_inv st s"
  shows "box_inv st t"
  using assms
proof (induction rule: box_step.induct)
  case (close_timer i ms pg sb)
  then have "i \<noteq> keyTimeout sb \<or> keyTimeout sb = 0"
    by (auto simp: box_inv_def inv_simps dest: eq_key_imp_eq_value)
  with close_timer show ?case by (simp add: inv_CloseSelectionWindow inv_clearTimeout)
next
  case (search_timer i ms pg sb g)
  have "box_inv st (sb\<lparr>keyTimeout := 0\<rparr>, clearTimeout i pg)"
    using search_timer by (intro inv_clearTimeout) (simp_all add: inv_keyTimeout)
  moreover have "SearchBox_Search h st g (sb\<lparr>keyTimeout := 0\<rparr>, clearTimeout i pg) =
      SearchBox_Search h st g (sb, clearTimeout i pg)"
    by (simp add: SearchBox_Search_def)
  ultimately show ?case using search_timer inv_Search by metis
next
  case (select_click i s g)
  then show ?case by (cases s) (simp add: inv_OnSelectItem_same)
qed (auto intro: inv_focus_on inv_blur_field inv_OnSearchFieldChange inv_OnSearchSelectShow
    inv_OnSearchSelectHide inv_OnSearchSelectKey inv_CloseResultsWindow)

section \<open>The initial state\<close>

lemma init_links_items [simp]: "filter is_select_item (init_links ls) = init_links ls"
  by (induction ls rule: init_links.induct) (simp_all add: is_select_item_def)

lemma length_init_links [simp]: "length (init_links ls) = length ls"
  by (induction ls rule: init_links.induct) simp_all

lemma initial_inv: "box_inv st (initial h st g)"
proof -
  define sb where "sb = SearchBox (js ''searchBox'') (js ''search'') False (js ''Search'')"
  define pg where "pg = html_page\<lparr>selectNodes := TextNode # init_links (indexSectionLabels st)\<rparr>"
  have items: "SelectItemCount pg = length (indexSectionLabels st)"
    by (simp add: pg_def SelectItemCount_items is_select_item_def)
  have "box_inv st (sb\<lparr>searchIndex := 0\<rparr>, SelectItemSet 0 pg)"
    using items by (auto simp: box_inv_def inv_simps SelectItemSet_def SelectItemCount_items sb_def pg_def
        SearchBox_def html_page_def no_style_def)
  moreover have "searchActive sb = False" by (simp add: sb_def SearchBox_def)
  ultimately show ?thesis
    by (simp add: initial_def init_search_def OnSelectItem_def Let_def sb_def [symmetric])
      (simp add: html_page_def pg_def)
qed

interpretation box: state_machine "\<lambda>s. s = initial h st g" "box_step h st" "box_inv st" for h st g
  by unfold_locales (auto simp: initial_inv intro: inv_box_step)

section \<open>Correctness of the search box\<close>

text \<open>A layout and a state of the page, for the examples.\<close>

definition demo_geometry :: geometry where
  "demo_geometry =
     \<lparr>searchSelect = (\<lparr>offsetLeft = 5, offsetTop = 3, offsetWidth = 20, offsetHeight = 19, is_body = False\<rparr>, []),
      searchBoxPos = (\<lparr>offsetLeft = 600, offsetTop = 80, offsetWidth = 170, offsetHeight = 24, is_body = False\<rparr>, []),
      selectWindowWidth = 90, resultsWidth = 300, clientWidth = 1000\<rparr>"

definition demo_box :: "nat \<Rightarrow> searchBox" where
  "demo_box i = (SearchBox (js ''searchBox'') (js ''search'') False (js ''Search''))\<lparr>searchIndex := i, searchActive := True\<rparr>"

definition demo_page :: "string \<Rightarrow> page" where
  "demo_page v = html_page\<lparr>fieldValue := js v, selectNodes := TextNode # init_links html_indexSectionLabels, focused := FieldFocus\<rparr>"

lemma demo_items: "SelectItemCount (demo_page v) = 6"
  by (simp add: demo_page_def SelectItemCount_items is_select_item_def html_indexSectionLabels_def)

text \<open>
  C3. In every state that events, timers and page loads can reach: the results window shows exactly
  when its close button does; when it does not show, no search value is remembered; the selection
  window has one item per section label and exactly the item of \<open>searchIndex\<close> is marked (none
  when the index is one past the last); a pending \<open>keyTimeout\<close> is a running search timer.
\<close>

theorem box_reachable:
  assumes "(box_step h st)\<^sup>*\<^sup>* (initial h st g) (sb, pg)"
  shows "(st_display (resultsWindow pg) = js ''block'' \<longleftrightarrow> closeDisplay pg = js ''inline'') \<and>
    (lastSearchValue sb \<noteq> [] \<longrightarrow> st_display (resultsWindow pg) = js ''block'') \<and>
    SelectItemCount pg = length (indexSectionLabels st) \<and> searchIndex sb \<le> length (indexSectionLabels st) \<and>
    map mark (filter is_select_item (selectNodes pg)) =
      map (\<lambda>k. if k = searchIndex sb then js ''&#8226;'' else js ''&#160;'') [0..<length (indexSectionLabels st)] \<and>
    (keyTimeout sb \<noteq> 0 \<longrightarrow> (keyTimeout sb, SearchTimer, keyTimeoutLength sb) \<in> set (timers pg))"
proof -
  have inv: "box_inv st (sb, pg)" using box.reachable_inv [OF refl assms] .
  then have "selectNodes pg = SelectItemSet_loop (searchIndex sb) 0 (selectNodes pg)"
    and n: "SelectItemCount pg = length (indexSectionLabels st)"
    by (simp_all add: box_inv_def inv_simps)
  then have "map mark (filter is_select_item (selectNodes pg)) =
      map (\<lambda>k. if k = searchIndex sb then js ''&#8226;'' else js ''&#160;'') [0..<length (indexSectionLabels st)]"
    using SelectItemSet_marks [of "searchIndex sb" 0 "selectNodes pg"] by (simp add: SelectItemCount_items)
  with inv n show ?thesis by (auto simp: box_inv_def inv_simps)
qed

theorem box_reachable_witness:
  "\<exists>sb pg. (box_step ascii_host html_site)\<^sup>*\<^sup>* (initial ascii_host html_site demo_geometry) (sb, pg) \<and>
     fieldValue pg = [] \<and> SelectItemCount pg = 6"
proof -
  define s where "s = focus_on FieldFocus (initial ascii_host html_site demo_geometry)"
  have reach: "(box_step ascii_host html_site)\<^sup>*\<^sup>* (initial ascii_host html_site demo_geometry) s"
    unfolding s_def by (intro r_into_rtranclp field_focus)
  obtain sb pg where sp: "s = (sb, pg)" by (cases s)
  have "fieldValue (snd s) = []"
    by (simp add: s_def initial_def init_search_def OnSelectItem_def SearchBox_def html_page_def Let_def
        SelectItemSet_def focus_on_def OnSearchFieldFocus_def Activate_def)
  moreover have "SelectItemCount pg = 6"
    using box_reachable [of ascii_host html_site demo_geometry sb pg] reach
    by (simp add: sp html_site_def html_indexSectionLabels_def)
  ultimately show ?thesis using reach sp by auto
qed

text \<open>
  Selecting an item that exists never throws, and neither does a search while the index is that
  of a section: then the frame's address changes and the results window shows.
\<close>

theorem OnSelectItem_ok:
  assumes "map_of (indexSectionsWithContent st) i = Some chars"
  shows "\<exists>sb' pg'. OnSelectItem h st g i (sb, pg) = ((sb', pg'), None) \<and> searchIndex sb' = i \<and>
    (strip_spaces (fieldValue pg) \<noteq> [] \<and> searchActive sb \<longrightarrow>
       st_display (resultsWindow pg') = js ''block'' \<and> lastSearchValue sb' = strip_leading (fieldValue pg) \<and>
       prefix (lastResultsPage sb') (frameLocation pg'))"
proof -
  have keep: "frameLocation (show_results g sb pg) = frameLocation pg" for sb pg
    by (simp add: show_results_def Let_def)
  show ?thesis
    using assms by (auto simp: OnSelectItem_def Let_def SearchBox_Search_def results_address_def SelectItemSet_def
        show_results_block keep split: option.split)
qed

theorem OnSelectItem_ok_witness:
  "map_of (indexSectionsWithContent html_site) 5 = Some ''p'' \<and>
   snd (OnSelectItem ascii_host html_site demo_geometry 5 (initial ascii_host html_site demo_geometry)) = None"
proof -
  have 5: "map_of (indexSectionsWithContent html_site) 5 = Some ''p''"
    by (simp add: html_site_def html_indexSectionsWithContent_def)
  obtain sb pg where s: "initial ascii_host html_site demo_geometry = (sb, pg)" by (cases "initial ascii_host html_site demo_geometry")
  show ?thesis using OnSelectItem_ok [OF 5, of ascii_host demo_geometry sb pg] 5 s by auto
qed

text \<open>
  C40. Pressing \<open>Down\<close> in the selection window on the last item moves the index past the last
  section, since the bound is the number of items and not the last index; with a search active the
  search that follows throws, and the index stays out of range.
\<close>

theorem OnSearchSelectKey_past_end:
  assumes "Suc (searchIndex sb) = SelectItemCount pg"
    and "map_of (indexSectionsWithContent st) (SelectItemCount pg) = None"
    and "strip_spaces (fieldValue pg) \<noteq> []" and "searchActive sb"
  shows "\<exists>s. OnSearchSelectKey h st g 40 (sb, pg) = (s, Some TypeError) \<and> searchIndex (fst s) = SelectItemCount pg"
  using assms
  by (simp add: OnSearchSelectKey_def OnSelectItem_def Let_def SelectItemSet_def SearchBox_Search_def
      results_address_def)

theorem OnSearchSelectKey_past_end_witness:
  "\<exists>s. OnSearchSelectKey ascii_host html_site demo_geometry 40 (demo_box 5, demo_page ''parse'') = (s, Some TypeError) \<and> searchIndex (fst s) = 6"
proof -
  have "map_of (indexSectionsWithContent html_site) (SelectItemCount (demo_page ''parse'')) = None"
    by (simp add: demo_items html_site_def html_indexSectionsWithContent_def)
  moreover have "strip_spaces (fieldValue (demo_page ''parse'')) \<noteq> []"
    by (simp add: demo_page_def strip_spaces_def js_def)
  ultimately show ?thesis
    using OnSearchSelectKey_past_end [of "demo_box 5" "demo_page ''parse''" html_site ascii_host demo_geometry]
    by (simp add: demo_items demo_box_def)
qed

text \<open>
  Escape in the search field closes everything, from every state: no results window, no close
  button, no search timer of the field, the field back to its label, and nothing remembered.
\<close>

theorem OnSearchFieldChange_escape:
  assumes "keyCode e = 27"
  shows "\<exists>sb' pg'. OnSearchFieldChange g e (sb, pg) = ((sb', pg'), None) \<and>
    st_display (resultsWindow pg') = js ''none'' \<and> closeDisplay pg' = js ''none'' \<and>
    fieldValue pg' = searchLabel sb' \<and> boxClass pg' = js ''MSearchBoxInactive'' \<and> focused pg' \<noteq> FieldFocus \<and>
    keyTimeout sb' = 0 \<and> \<not> searchActive sb' \<and> lastSearchValue sb' = [] \<and> lastResultsPage sb' = [] \<and>
    (keyTimeout sb \<noteq> 0 \<longrightarrow> keyTimeout sb \<notin> fst ` set (timers pg'))"
  using assms
  by (auto simp: OnSearchFieldChange_def Let_def kill_timer_def blur_field_def Activate_def hide_results_def
      OnSearchFieldFocus_def clearTimeout_def)

theorem OnSearchFieldChange_escape_witness:
  "\<exists>s. OnSearchFieldChange demo_geometry \<lparr>ev_type = ''keyup'', keyCode = 27, shiftKey = False\<rparr> (demo_box 0, demo_page ''parse'') = (s, None) \<and>
     fieldValue (snd s) = searchLabel (fst s)"
  using OnSearchFieldChange_escape [of "\<lparr>ev_type = ''keyup'', keyCode = 27, shiftKey = False\<rparr>" demo_geometry "demo_box 0" "demo_page ''parse''"]
  by auto

end
