(* ===== verification/Search_Site.thy ===== *)
theory Search_Site
  imports Index_Check Search_Box_Inv
begin

text \<open>
  From the text in the search field to the rows that show: which page the search box opens, what the
  page receives, and that the names of the section that match are on that page.
\<close>

section \<open>The page of an initial\<close>

lemma indexOf_from_single:
  "indexOf_from i [x] s = (if x \<in> set s then Some (i + length (takeWhile (\<lambda>c. c \<noteq> x) s)) else None)"
  by (induction s arbitrary: i) auto

lemma indexOf_single_Some:
  assumes "indexOf s [x] = Some j"
  shows "j < length s" and "s ! j = x"
proof -
  from assms have x: "x \<in> set s" and j: "j = length (takeWhile (\<lambda>c. c \<noteq> x) s)"
    by (auto simp: indexOf_def indexOf_from_single split: if_splits)
  have "length (takeWhile (\<lambda>c. c \<noteq> x) s) < length s" if "x \<in> set s" using that by (induction s) auto
  with x j show *: "j < length s" by simp
  then show "s ! j = x"
    using nth_length_takeWhile [of "\<lambda>c. c \<noteq> x" s] j by simp
qed

lemma indexOf_single_None: "indexOf s [x] = None \<longleftrightarrow> x \<notin> set s"
  by (simp add: indexOf_def indexOf_from_single)

lemma idxChar_ascii:
  assumes "host_ok h" and "ascii (c # q)"
  shows "idxChar h (c # q) = [ascii_lower c]"
proof -
  have "c < 128" using assms(2) by (simp add: ascii_def)
  then have "ascii_lower c < 0xD800"
    by (auto simp: ascii_lower_def word_less_nat_alt word_le_nat_alt unat_word_ariths)
  moreover have "host_toLowerCase h (c # q) = map ascii_lower (c # q)" "host_toLowerCase h [c] = [ascii_lower c]"
    using assms by (simp_all add: host_ok_def ascii_def)
  ultimately show ?thesis by (simp add: idxChar_def linorder_not_le [symmetric])
qed

lemma toString16_hex: "j < 16 \<Longrightarrow> toString16 j = js [hex_char j]"
  using of_char_hex_char [of j] by (simp add: toString16.simps [of j] js_def)

lemma of_char_lower: "ascii_char c \<Longrightarrow> (of_char (lower_char c) :: code_unit) = ascii_lower (of_char c)"
proof -
  assume c: "ascii_char c"
  define n :: nat where "n = of_char c"
  have n: "n < 128" and u: "(of_char c :: code_unit) = of_nat n"
    using c by (simp_all add: n_def ascii_char_def of_char_unit)
  show ?thesis
    using n of_char_char_of [of "n + 32"]
    by (auto simp: lower_char_def n_def [symmetric] ascii_lower_def u unit_bounds add.commute)
qed

section \<open>Names of a page\<close>

text \<open>Does an entry's name start with the query, up to case?\<close>

definition name_matches :: "jsstring \<Rightarrow> raw_entry \<Rightarrow> bool" where
  "name_matches q x \<longleftrightarrow> prefix (map ascii_lower (trim q)) (map ascii_lower (js (fst (snd x))))"

lemma trim_Cons: "c \<noteq> 32 \<Longrightarrow> \<exists>r. trim (c # q) = c # r"
proof -
  assume c: "c \<noteq> 32"
  have "\<exists>r. rev (dropWhile (\<lambda>c. c = 32) (rev q @ [c])) = c # r"
    using c by (induction q rule: rev_induct) (auto simp: dropWhile_append1, metis rev_rev_ident)
  then show ?thesis using c by (simp add: trim_def strip_leading_def strip_trailing_def)
qed

lemma strip_leading_Cons: "strip_leading v = c # q \<Longrightarrow> c \<noteq> 32"
  by (auto simp: strip_leading_def dropWhile_eq_Cons_conv)

text \<open>A name on the page of initial \<open>d\<close> that matches a query starts with the query's initial.\<close>

lemma page_ok_initial:
  assumes "page_ok d es" and "x \<in> set es" and "name_matches (c # q) x" and "c \<noteq> 32"
  shows "of_char d = ascii_lower c"
proof -
  have raw: "raw_ok x" and init: "map lower_char (take 1 (fst (snd x))) = [d]"
    using assms(1,2) by (auto simp: page_ok_def list_all_iff)
  then obtain e n where n: "fst (snd x) = e # n" and e: "lower_char e = d"
    by (cases "fst (snd x)") auto
  moreover have "ascii_char e" using raw n by (simp add: raw_ok_def)
  ultimately have "(of_char d :: code_unit) = ascii_lower (of_char e)"
    using of_char_lower by blast
  moreover obtain r where "trim (c # q) = c # r" using trim_Cons assms(4) by blast
  ultimately show ?thesis
    using assms(3) n by (simp add: name_matches_def js_def)
qed

lemma page_ok_load:
  assumes "host_ok h" and "ascii q" and "page_ok d es"
  shows "\<exists>sr doc. load_results h (map entry_of es) (63 # escape q) = Inr (True, sr, doc) \<and>
    lastMatchCount sr = length (filter (name_matches q) es) \<and>
    (\<forall>k < length es. row_shown doc k \<longleftrightarrow> name_matches q (es ! k))"
proof -
  have ix: "\<forall>x \<in> set (map entry_of es). indexed x"
    using assms(3) raw_ok_indexed by (auto simp: page_ok_def list_all_iff)
  have name: "fst (snd (entry_of x)) = js (fst (snd x))" for x
    by (cases x) (simp add: entry_of_def)
  have count: "length (filter (\<lambda>x. prefix (map ascii_lower (trim q)) (map ascii_lower (fst (snd x)))) (map entry_of es)) =
      length (filter (name_matches q) es)"
    by (simp add: filter_map o_def name name_matches_def [abs_def])
  obtain sr doc where *: "load_results h (map entry_of es) (63 # escape q) = Inr (True, sr, doc)"
    "lastMatchCount sr = length (filter (name_matches q) es)"
    "\<forall>k < length es. row_shown doc k \<longleftrightarrow>
       prefix (map ascii_lower (trim q)) (map ascii_lower (fst (snd (map entry_of es ! k))))"
    using load_results_search [OF assms(1,2) ix] unfolding count by auto
  then show ?thesis
    by (intro exI [of _ sr] exI [of _ doc]) (simp add: name name_matches_def)
qed

section \<open>The section of the search box\<close>

lemma site_ok_section:
  assumes "site_ok st" and "map_of (indexSectionsWithContent st) s = Some cs"
  obtains nm where "map_of (indexSectionNames st) s = Some nm" and "length cs \<le> 16" and "distinct cs"
    and "list_all ascii_char cs"
    and "\<And>j. j < length cs \<Longrightarrow> \<exists>es. map_of (pages st) (section_page nm j) = Some es \<and> page_ok (cs ! j) es"
proof -
  have "section_ok st (s, cs)"
    using assms by (auto simp: site_ok_def list_all_iff dest: map_of_SomeD)
  then obtain nm where nm: "map_of (indexSectionNames st) s = Some nm" "length cs \<le> 16" "distinct cs"
    "list_all ascii_char cs"
    and pages: "list_all (\<lambda>(j, c). case map_of (pages st) (section_page nm j) of
        Some es \<Rightarrow> page_ok c es | None \<Rightarrow> False) (enumerate 0 cs)"
    by (auto simp: section_ok_def split: option.splits)
  have "\<exists>es. map_of (pages st) (section_page nm j) = Some es \<and> page_ok (cs ! j) es" if "j < length cs" for j
  proof -
    have "(j, cs ! j) \<in> set (enumerate 0 cs)" using that by (simp add: in_set_enumerate_eq)
    with pages show ?thesis by (auto simp: list_all_iff split: option.splits)
  qed
  with nm that show thesis by blast
qed

lemma results_address_page:
  assumes "host_ok h" and "ascii (c # q)" and "map_of (indexSectionsWithContent st) (searchIndex sb) = Some cs"
    and "map_of (indexSectionNames st) (searchIndex sb) = Some nm" and "length cs \<le> 16"
  shows "results_address h st sb (c # q) =
    Some (case indexOf (js cs) [ascii_lower c] of
            Some j \<Rightarrow> (resultsPath sb @ js ''/'' @ js (section_page nm j) @ js ''.html'',
                       resultsPath sb @ js ''/'' @ js (section_page nm j) @ js ''.html'' @ 63 # escape (c # q))
          | None \<Rightarrow> (resultsPath sb @ js ''/nomatches.html'', resultsPath sb @ js ''/nomatches.html''))"
proof -
  have hex: "toString16 j = js [hex_char j]" if "indexOf (js cs) [ascii_lower c] = Some j" for j
    using indexOf_single_Some(1) [OF that] assms(5) by (intro toString16_hex) simp
  have "js ''?'' = [63]" by (simp add: js_def)
  moreover have "js (section_page nm j) = js nm @ js ''_'' @ js [hex_char j]" for j
    by (simp add: section_page_def js_append [symmetric])
  ultimately show ?thesis
    using assms(3,4) hex
    by (simp add: results_address_def idxChar_ascii [OF assms(1,2)] Let_def split: option.split)
qed

end
