(* ===== verification/Search_Debounce.thy ===== *)
theory Search_Debounce
  imports Search_Box_Inv
begin

text \<open>
  The delay of the search box: a key in the search field restarts one timer of half a second, and the
  search runs when it expires. Typing never leaves two timers; selecting an item while a timer runs,
  and search texts with spaces inside, do more searches than needed.
\<close>

definition search_timers :: "page \<Rightarrow> nat list" where
  "search_timers pg = map fst (filter (\<lambda>x. fst (snd x) = SearchTimer) (timers pg))"

definition debounced :: "state \<Rightarrow> bool" where
  "debounced s \<longleftrightarrow>
     search_timers (snd s) = (if keyTimeout (fst s) = 0 then [] else [keyTimeout (fst s)]) \<and>
     (\<forall>x \<in> set (timers (snd s)). fst x < nextTimer (snd s)) \<and> 0 < nextTimer (snd s) \<and>
     hideTimeout (fst s) < nextTimer (snd s) \<and>
     (hideTimeout (fst s) \<noteq> 0 \<longrightarrow> hideTimeout (fst s) \<notin> set (search_timers (snd s)))"

text \<open>Handlers that leave the timers and their ids alone.\<close>

definition timer_view :: "state \<Rightarrow> nat \<times> nat \<times> (nat \<times> timer \<times> nat) list \<times> nat" where
  "timer_view s = (keyTimeout (fst s), hideTimeout (fst s), timers (snd s), nextTimer (snd s))"

lemma debounced_view: "timer_view s = timer_view t \<Longrightarrow> debounced s = debounced t"
  by (simp add: timer_view_def debounced_def search_timers_def)

lemma view_Activate [simp]: "timer_view (Activate b s) = timer_view s"
  by (cases s) (simp add: Activate_def timer_view_def Let_def)

lemma view_focus_on [simp]: "timer_view (focus_on f s) = timer_view s"
proof -
  obtain sb pg where s: "s = (sb, pg)" by (cases s)
  have "timer_view (sb, pg\<lparr>focused := x\<rparr>) = timer_view (sb, pg)" for x by (simp add: timer_view_def)
  then show ?thesis by (simp add: s focus_on_def Let_def OnSearchFieldFocus_def)
qed

lemma view_blur_field [simp]: "timer_view (blur_field s) = timer_view s"
proof -
  obtain sb pg where s: "s = (sb, pg)" by (cases s)
  have "timer_view (sb, pg\<lparr>focused := f\<rparr>) = timer_view (sb, pg)" for f by (simp add: timer_view_def)
  then show ?thesis by (simp add: s blur_field_def OnSearchFieldFocus_def)
qed

lemma view_hide [simp]: "timer_view (sb\<lparr>lastSearchValue := v\<rparr>, hide_results pg) = timer_view (sb, pg)"
  by (simp add: timer_view_def hide_results_def)

lemma view_focus_results [simp]: "timer_view (fst (focus_results s)) = timer_view s"
  by (auto simp: focus_results_def split: option.split sum.split)

lemma search_timers_clear:
  "search_timers (clearTimeout i pg) = filter (\<lambda>j. j \<noteq> i) (search_timers pg)"
  by (simp add: search_timers_def clearTimeout_def filter_map o_def conj_commute)

lemma clearTimeout_simps [simp]:
  "nextTimer (clearTimeout i pg) = nextTimer pg"
  "timers (clearTimeout i pg) = filter (\<lambda>x. fst x \<noteq> i) (timers pg)"
  by (simp_all add: clearTimeout_def)

lemma debounced_show: "debounced s \<Longrightarrow> debounced (OnSearchSelectShow g s)"
proof -
  assume d: "debounced s"
  obtain sb pg where s: "s = (sb, pg)" by (cases s)
  define pg1 where "pg1 = snd (OnSearchSelectShow g (sb\<lparr>hideTimeout := 0\<rparr>, pg))"
  have pg1: "timers pg1 = timers pg" "nextTimer pg1 = nextTimer pg"
    by (simp_all add: pg1_def OnSearchSelectShow_def Let_def)
  have "OnSearchSelectShow g s =
      (if hideTimeout sb \<noteq> 0 then (sb\<lparr>hideTimeout := 0\<rparr>, clearTimeout (hideTimeout sb) pg1) else (sb, pg1))"
    by (simp add: s OnSearchSelectShow_def Let_def pg1_def)
  moreover have "search_timers pg1 = search_timers pg" by (simp add: search_timers_def pg1)
  ultimately show ?thesis
    using d by (auto simp: debounced_def s pg1 search_timers_clear split: if_splits)
qed

lemma debounced_kill: "debounced s \<Longrightarrow> debounced (kill_timer s) \<and> search_timers (snd (kill_timer s)) = []"
  by (cases s) (auto simp: debounced_def kill_timer_def search_timers_clear)

lemma debounced_change:
  "debounced s \<Longrightarrow> keyTimeout (fst s) = 0 \<Longrightarrow> debounced (field_changed s)"
proof -
  assume d: "debounced s" and k: "keyTimeout (fst s) = 0"
  obtain sb pg where s: "s = (sb, pg)" by (cases s)
  have "debounced (sb\<lparr>lastSearchValue := []\<rparr>, hide_results pg)"
    using d debounced_view [of "(sb\<lparr>lastSearchValue := []\<rparr>, hide_results pg)" "(sb, pg)"] by (simp add: s)
  moreover have "debounced (sb\<lparr>keyTimeout := nextTimer pg\<rparr>,
      pg\<lparr>timers := timers pg @ [(nextTimer pg, SearchTimer, keyTimeoutLength sb)], nextTimer := Suc (nextTimer pg)\<rparr>)"
    using d k by (auto simp: s debounced_def search_timers_def less_Suc_eq)
  ultimately show ?thesis using d by (simp add: s field_changed_def Let_def setTimeout_def)
qed

lemma view_keyTimeout: "timer_view s = timer_view t \<Longrightarrow> keyTimeout (fst s) = keyTimeout (fst t)"
  by (simp add: timer_view_def)

lemma debounced_OnSearchFieldChange:
  assumes "debounced s"
  shows "debounced (fst (OnSearchFieldChange g e s))"
proof -
  define k where "k = kill_timer s"
  have k: "debounced k" "keyTimeout (fst k) = 0"
    using assms debounced_kill kill_timer_zero by (auto simp: k_def)
  have focus: "debounced (fst (focus_results k))" "keyTimeout (fst (fst (focus_results k))) = 0"
    using k view_focus_results [of k] debounced_view view_keyTimeout by metis+
  have escape: "debounced (Activate False (sb\<lparr>lastSearchValue := []\<rparr>, hide_results pg))"
    if "blur_field k = (sb, pg)" for sb pg
    using k(1) view_blur_field [of k] that
    by (metis debounced_view view_Activate view_hide)
  have select: "debounced (focus_on f (OnSearchSelectShow g k))" for f
    using debounced_show [OF k(1)] debounced_view view_focus_on by blast
  show ?thesis
    using select focus escape debounced_show [OF k(1)] debounced_change [OF k] debounced_change
    by (auto simp: OnSearchFieldChange_def Let_def k_def [symmetric] split: prod.split option.split)
qed

text \<open>Typing: the field gets a value, then the key-up event of the key arrives.\<close>

fun type_keys :: "geometry \<Rightarrow> (jsstring \<times> key_event) list \<Rightarrow> state \<Rightarrow> state" where
  "type_keys g [] s = s"
| "type_keys g ((v, e) # es) s =
     type_keys g es (fst (OnSearchFieldChange g e (fst s, (snd s)\<lparr>fieldValue := v\<rparr>)))"

lemma debounced_type_keys: "debounced s \<Longrightarrow> debounced (type_keys g es s)"
proof (induction g es s rule: type_keys.induct)
  case (2 g v e es s)
  have "debounced (fst s, (snd s)\<lparr>fieldValue := v\<rparr>)"
    using "2.prems" debounced_view [of "(fst s, (snd s)\<lparr>fieldValue := v\<rparr>)" s] by (simp add: timer_view_def)
  then show ?case using "2.IH" debounced_OnSearchFieldChange by simp
qed simp

text \<open>
  Typing never leaves more than one search timer: after any sequence of edits and keys in the
  search field, from a state with no timers, the running search timers are exactly the one of
  \<open>keyTimeout\<close>, or none when it is zero.
\<close>

theorem type_keys_one_timer:
  assumes "timers pg = []" and "keyTimeout sb = 0" and "hideTimeout sb < nextTimer pg"
    and "type_keys g es (sb, pg) = (sb', pg')"
  shows "search_timers pg' = (if keyTimeout sb' = 0 then [] else [keyTimeout sb'])"
proof -
  have "debounced (sb, pg)" using assms(1-3) by (auto simp: debounced_def search_timers_def)
  then have "debounced (sb', pg')" using debounced_type_keys [of "(sb, pg)" g es] assms(4) by simp
  then show ?thesis by (simp add: debounced_def)
qed

theorem type_keys_one_timer_witness:
  "\<exists>sb' pg'. type_keys demo_geometry [(js ''p'', \<lparr>ev_type = ''keyup'', keyCode = 80, shiftKey = False\<rparr>),
     (js ''pa'', \<lparr>ev_type = ''keyup'', keyCode = 65, shiftKey = False\<rparr>)] (demo_box 0, demo_page ''Search'') = (sb', pg') \<and>
     search_timers pg' = [2]"
proof -
  define es where "es = [(js ''p'', \<lparr>ev_type = ''keyup'', keyCode = 80, shiftKey = False\<rparr>),
     (js ''pa'', \<lparr>ev_type = ''keyup'', keyCode = 65, shiftKey = False\<rparr>)]"
  obtain sb' pg' where t: "type_keys demo_geometry es (demo_box 0, demo_page ''Search'') = (sb', pg')"
    by (cases "type_keys demo_geometry es (demo_box 0, demo_page ''Search'')")
  then have "keyTimeout sb' = 2"
    by (auto simp: es_def OnSearchFieldChange_def kill_timer_def field_changed_def Let_def setTimeout_def
        demo_box_def demo_page_def SearchBox_def html_page_def strip_spaces_def js_def clearTimeout_def)
  moreover have "timers (demo_page ''Search'') = []" "keyTimeout (demo_box 0) = 0"
    "hideTimeout (demo_box 0) < nextTimer (demo_page ''Search'')"
    by (simp_all add: demo_box_def demo_page_def SearchBox_def html_page_def)
  ultimately show ?thesis
    using type_keys_one_timer [OF _ _ _ t] t by (simp add: es_def)
qed

text \<open>
  Selecting an item while a search timer runs searches at once but forgets the timer without
  stopping it: \<open>keyTimeout\<close> is zero and the timer still runs, so the next key starts a second one.
\<close>

theorem OnSelectItem_forgets_timer:
  assumes "map_of (indexSectionsWithContent st) i = Some chars"
    and "strip_spaces (fieldValue pg) \<noteq> []" and "searchActive sb"
  shows "keyTimeout (fst (fst (OnSelectItem h st g i (sb, pg)))) = 0 \<and>
    search_timers (snd (fst (OnSelectItem h st g i (sb, pg)))) = search_timers pg"
proof -
  have "timers (show_results g sb' pg') = timers pg'" for sb' pg'
    by (simp add: show_results_def Let_def)
  then show ?thesis
    using assms by (auto simp: OnSelectItem_def Let_def SearchBox_Search_def results_address_def SelectItemSet_def
        search_timers_def split: option.split)
qed

theorem OnSelectItem_forgets_timer_witness:
  "\<exists>pg. search_timers pg = [1] \<and>
     keyTimeout (fst (fst (OnSelectItem ascii_host html_site demo_geometry 1 ((demo_box 0)\<lparr>keyTimeout := 1\<rparr>, pg)))) = 0 \<and>
     search_timers (snd (fst (OnSelectItem ascii_host html_site demo_geometry 1 ((demo_box 0)\<lparr>keyTimeout := 1\<rparr>, pg)))) = [1]"
proof -
  define pg where "pg = (demo_page ''parse'')\<lparr>timers := [(1, SearchTimer, 500)], nextTimer := 2\<rparr>"
  have "map_of (indexSectionsWithContent html_site) 1 = Some ''p''"
    by (simp add: html_site_def html_indexSectionsWithContent_def)
  moreover have "strip_spaces (fieldValue pg) \<noteq> []" by (simp add: pg_def demo_page_def strip_spaces_def js_def)
  moreover have "searchActive ((demo_box 0)\<lparr>keyTimeout := 1\<rparr>)" by (simp add: demo_box_def)
  moreover have "search_timers pg = [1]" by (simp add: pg_def search_timers_def)
  ultimately show ?thesis
    using OnSelectItem_forgets_timer [of html_site 1 "''p''" pg "(demo_box 0)\<lparr>keyTimeout := 1\<rparr>" ascii_host demo_geometry] by auto
qed

text \<open>
  A search text with a space inside is searched again at every key, although the field has not
  changed: a search remembers the text with only its leading spaces removed, and the next key compares
  it with the text without any spaces.
\<close>

theorem inner_space_searches_again:
  assumes "map_of (indexSectionsWithContent st) (searchIndex sb) = Some chars"
    and "strip_spaces (fieldValue pg) \<noteq> []" and "strip_leading (fieldValue pg) = u @ 32 # v"
  shows "\<exists>sb' pg'. SearchBox_Search h st g (sb, pg) = ((sb', pg'), None) \<and> fieldValue pg' = fieldValue pg \<and>
    keyTimeout (fst (field_changed (sb', pg'))) = nextTimer pg'"
proof -
  have "fieldValue (show_results g sb' pg') = fieldValue pg'" for sb' pg'
    by (simp add: show_results_def Let_def)
  moreover have "strip_spaces (fieldValue pg) \<noteq> u @ 32 # v"
  proof
    assume "strip_spaces (fieldValue pg) = u @ 32 # v"
    then have "32 \<in> set (strip_spaces (fieldValue pg))" by simp
    then show False by (simp add: strip_spaces_def)
  qed
  moreover obtain a b where "results_address h st (sb\<lparr>keyTimeout := 0\<rparr>) (strip_leading (fieldValue pg)) = Some (a, b)"
    using assms(1) by (cases "results_address h st (sb\<lparr>keyTimeout := 0\<rparr>) (strip_leading (fieldValue pg))")
      (auto simp: results_address_def)
  ultimately show ?thesis
    using assms(2,3) by (simp add: SearchBox_Search_def Let_def field_changed_def setTimeout_def)
qed

theorem inner_space_searches_again_witness:
  "\<exists>s. SearchBox_Search ascii_host html_site demo_geometry (demo_box 0, demo_page ''a b'') = (s, None) \<and>
     keyTimeout (fst (field_changed s)) = nextTimer (snd s)"
proof -
  have "map_of (indexSectionsWithContent html_site) (searchIndex (demo_box 0)) = Some ''aciops''"
    by (simp add: html_site_def html_indexSectionsWithContent_def demo_box_def)
  moreover have "strip_spaces (fieldValue (demo_page ''a b'')) \<noteq> []"
    by (simp add: demo_page_def strip_spaces_def js_def)
  moreover have "strip_leading (fieldValue (demo_page ''a b'')) = js ''a'' @ 32 # js ''b''"
    by (simp add: demo_page_def strip_leading_def js_def)
  ultimately show ?thesis
    using inner_space_searches_again [of html_site "demo_box 0" _ "demo_page ''a b''" _ _ ascii_host demo_geometry] by fastforce
qed

end
