(* ===== verification/Search_View.thy ===== *)
theory Search_View
  imports Search_Site Search_Debounce
begin

text \<open>
  What the search box promises, without its timers, styles and focus: the results are closed, or open
  for a text with the page and the address of the text. Every event is a command to this abstract box, to
  keep, to close or to look a text up, and the handlers do exactly what the command says. A text that is typed is searched when
  the timer of its last key expires, and the results page reads back exactly the text that was sent.
\<close>

section \<open>The abstract search box\<close>

text \<open>Closed, or open for a text, with its page and the address that the frame has.\<close>

datatype view = Closed | Open jsstring jsstring jsstring

datatype command = Keep | Close | Lookup nat jsstring

text \<open>
  What a command does, where \<open>addr i t\<close> is the page and the address of the text \<open>t\<close> in section \<open>i\<close>; a
  section that does not exist leaves the box as it is.
\<close>

fun view_after :: "(nat \<Rightarrow> jsstring \<Rightarrow> (jsstring \<times> jsstring) option) \<Rightarrow> command \<Rightarrow> view \<Rightarrow> view" where
  "view_after addr Keep v = v"
| "view_after addr Close v = Closed"
| "view_after addr (Lookup i t) v = (case addr i t of None \<Rightarrow> v | Some (p, a) \<Rightarrow> Open t p a)"

text \<open>
  The page of a text by the tables of the site: the section's name and the position of the text's initial among the
  initials of the section, in one hexadecimal digit, or \<open>nomatches\<close>, which gets no text. The empty text has the first page.
\<close>

definition site_page :: "site \<Rightarrow> jsstring \<Rightarrow> nat \<Rightarrow> jsstring \<Rightarrow> (jsstring \<times> jsstring) option" where
  "site_page st path i t =
     (case (map_of (indexSectionsWithContent st) i, map_of (indexSectionNames st) i) of
        (Some cs, Some nm) \<Rightarrow>
          let j = (if t = [] then 0 else length (takeWhile (\<lambda>c. c \<noteq> ascii_lower (hd t)) (js cs)));
              p = path @ js ''/'' @ js nm @ js [CHR ''_'', hex_char j] @ js ''.html''
          in Some (if t = [] \<or> j < length cs then (p, p @ 63 # escape t)
                   else (path @ js ''/nomatches.html'', path @ js ''/nomatches.html''))
      | _ \<Rightarrow> None)"

definition view_of :: "state \<Rightarrow> view" where
  "view_of s =
     (if st_display (resultsWindow (snd s)) = js ''block''
      then Open (lastSearchValue (fst s)) (lastResultsPage (fst s)) (frameLocation (snd s)) else Closed)"

section \<open>Events and commands\<close>

text \<open>The events of the page, and the handlers that its markup, the timers and the results frame call.\<close>

datatype box_event = FieldFocused | FieldBlurred | Typed jsstring | KeyUp key_event | MenuShown | MenuLeft |
  ItemClicked nat | MenuKey nat | CloseClicked | FrameEscape | FrameLoaded "(searchResults \<times> dom) option" |
  MenuTimeout nat | SearchTimeout nat

fun box_run :: "host \<Rightarrow> site \<Rightarrow> geometry \<Rightarrow> box_event \<Rightarrow> state \<Rightarrow> outcome" where
  "box_run h st g FieldFocused s = (focus_on FieldFocus s, None)"
| "box_run h st g FieldBlurred s = (blur_field s, None)"
| "box_run h st g (Typed v) s = ((fst s, (snd s)\<lparr>fieldValue := v\<rparr>), None)"
| "box_run h st g (KeyUp e) s = OnSearchFieldChange g e s"
| "box_run h st g MenuShown s = (OnSearchSelectShow g s, None)"
| "box_run h st g MenuLeft s = (OnSearchSelectHide s, None)"
| "box_run h st g (ItemClicked i) s = OnSelectItem h st g i s"
| "box_run h st g (MenuKey k) s = OnSearchSelectKey h st g k s"
| "box_run h st g CloseClicked s = (CloseResultsWindow s, None)"
| "box_run h st g FrameEscape s = (focus_on FieldFocus (CloseResultsWindow s), None)"
| "box_run h st g (FrameLoaded r) s = ((fst s, (snd s)\<lparr>frameResults := r\<rparr>), None)"
| "box_run h st g (MenuTimeout i) s = (CloseSelectionWindow (fst s, clearTimeout i (snd s)), None)"
| "box_run h st g (SearchTimeout i) s = SearchBox_Search h st g (fst s, clearTimeout i (snd s))"

text \<open>These are all the steps of the search box.\<close>

lemma box_step_run: "box_step h st s t \<Longrightarrow> \<exists>g ev. t = fst (box_run h st g ev s)"
proof (induction rule: box_step.induct)
  case (field_focus s) then show ?case by (metis box_run.simps(1) fst_conv)
next case (field_blur s) then show ?case by (metis box_run.simps(2) fst_conv)
next case (typing pg sb v) then show ?case by (metis box_run.simps(3) fst_conv snd_conv)
next case (key_up s g e) then show ?case by (metis box_run.simps(4))
next case (select_show s g) then show ?case by (metis box_run.simps(5) fst_conv)
next case (select_hide s) then show ?case by (metis box_run.simps(6) fst_conv)
next case (select_click i s g) then show ?case by (metis box_run.simps(7))
next case (select_key s g k) then show ?case by (metis box_run.simps(8))
next case (close_click s) then show ?case by (metis box_run.simps(9) fst_conv)
next case (frame_escape s) then show ?case by (metis box_run.simps(10) fst_conv)
next case (frame_load sb pg r) then show ?case by (metis box_run.simps(11) fst_conv snd_conv)
next case (close_timer i ms pg sb) then show ?case by (metis box_run.simps(12) fst_conv snd_conv)
next case (search_timer i ms pg sb g) then show ?case by (metis box_run.simps(13) fst_conv snd_conv)
qed

text \<open>
  The command of an event. A field that was emptied closes the results of the last search. Choosing a section looks the text up again when
  the box is active. Down or Enter in the field goes to the first row of the results; leaving a field
  that holds the label empties it, and an error of the results page ends the handler.
\<close>

definition field_command :: "jsstring \<Rightarrow> searchBox \<Rightarrow> command" where
  "field_command text sb = (if strip_spaces text = [] \<and> lastSearchValue sb \<noteq> [] then Close else Keep)"

definition item_command :: "nat \<Rightarrow> state \<Rightarrow> command" where
  "item_command i s = (if strip_spaces (fieldValue (snd s)) \<noteq> [] \<and> searchActive (fst s)
     then Lookup i (strip_leading (fieldValue (snd s))) else Keep)"

fun view_command :: "box_event \<Rightarrow> state \<Rightarrow> command" where
  "view_command (KeyUp e) (sb, pg) =
     (if keyCode e = 27 then Close
      else if keyCode e \<noteq> 40 \<and> keyCode e \<noteq> 13 then field_command (fieldValue pg) sb
      else if shiftKey e then Keep
      else (case frameResults pg of
          None \<Rightarrow> field_command (fieldValue pg) sb
        | Some (sr, doc) \<Rightarrow> (case NavNext doc 0 of
            Inl _ \<Rightarrow> Keep
          | Inr None \<Rightarrow> field_command (fieldValue pg) sb
          | Inr (Some _) \<Rightarrow> field_command (if focused pg = FieldFocus \<and> fieldValue pg = searchLabel sb then [] else fieldValue pg) sb)))"
| "view_command (ItemClicked i) s = item_command i s"
| "view_command (MenuKey k) s =
     (let i = searchIndex (fst s) in
      if k = 40 \<and> i < SelectItemCount (snd s) then item_command (i + 1) s
      else if k = 38 \<and> 0 < i then item_command (i - 1) s
      else if k = 13 \<or> k = 27 then item_command i s
      else Keep)"
| "view_command CloseClicked s = Close"
| "view_command FrameEscape s = Close"
| "view_command (SearchTimeout i) s = Lookup (searchIndex (fst s)) (strip_leading (fieldValue (snd s)))"
| "view_command _ s = Keep"

section \<open>Handlers that keep the view or close it\<close>

lemma view_frame [simp]:
  "view_of (sb, pg\<lparr>fieldValue := v\<rparr>) = view_of (sb, pg)" "view_of (sb, pg\<lparr>focused := f\<rparr>) = view_of (sb, pg)"
  "view_of (sb, pg\<lparr>frameResults := r\<rparr>) = view_of (sb, pg)" "view_of (sb, pg\<lparr>selectWindow := w\<rparr>) = view_of (sb, pg)"
  "view_of (sb, clearTimeout i pg) = view_of (sb, pg)" "view_of (sb\<lparr>keyTimeout := n\<rparr>, pg) = view_of (sb, pg)"
  "view_of (sb\<lparr>hideTimeout := n\<rparr>, pg) = view_of (sb, pg)" "view_of (sb\<lparr>searchIndex := n\<rparr>, pg) = view_of (sb, pg)"
  "view_of (sb, SelectItemSet i pg) = view_of (sb, pg)" "view_of (sb, pg\<lparr>timers := ts, nextTimer := n\<rparr>) = view_of (sb, pg)"
  "view_of (sb, hide_results pg) = Closed"
  by (simp_all add: view_of_def clearTimeout_def SelectItemSet_def hide_results_def js_def)

lemma results_Activate [simp]: "view_of (Activate b s) = view_of s"
  by (cases s) (auto simp: view_of_def Activate_def Let_def)

lemma results_focus_on [simp]: "view_of (focus_on f s) = view_of s"
  by (cases s) (simp add: focus_on_def Let_def OnSearchFieldFocus_def)

lemma results_blur_field [simp]: "view_of (blur_field s) = view_of s"
  by (cases s) (simp add: blur_field_def OnSearchFieldFocus_def)

lemma view_select_window [simp]:
  "view_of (OnSearchSelectShow g s) = view_of s" "view_of (OnSearchSelectHide s) = view_of s" "view_of (CloseSelectionWindow s) = view_of s"
  by (cases s; simp add: OnSearchSelectShow_def OnSearchSelectHide_def CloseSelectionWindow_def setTimeout_def Let_def)+

lemma view_CloseResultsWindow [simp]: "view_of (CloseResultsWindow s) = Closed"
  by (cases s) (simp add: CloseResultsWindow_def)

lemma view_kill_timer [simp]: "view_of (kill_timer s) = view_of s"
  by (cases s) (simp add: kill_timer_def)

lemma view_field_changed:
  "view_of (field_changed (sb, pg)) = view_after addr (field_command (fieldValue pg) sb) (view_of (sb, pg))"
  by (simp add: field_changed_def field_command_def Let_def setTimeout_def)

text \<open>What \<open>kill_timer\<close> and a move of the focus leave alone.\<close>

lemma kill_timer_simps [simp]:
  "fieldValue (snd (kill_timer s)) = fieldValue (snd s)" "lastSearchValue (fst (kill_timer s)) = lastSearchValue (fst s)"
  "frameResults (snd (kill_timer s)) = frameResults (snd s)" "focused (snd (kill_timer s)) = focused (snd s)"
  "searchLabel (fst (kill_timer s)) = searchLabel (fst s)"
  by (cases s; simp add: kill_timer_def clearTimeout_def)+

lemma field_changed_closed: "view_of s = Closed \<Longrightarrow> view_of (field_changed s) = Closed"
  by (cases s) (simp add: view_field_changed [where addr = "\<lambda>i t. None"] field_command_def)

lemma view_to_row:
  "view_of (field_changed (focus_on (FrameFocus p) (sb, pg))) =
    view_after addr (field_command (if focused pg = FieldFocus \<and> fieldValue pg = searchLabel sb then [] else fieldValue pg) sb) (view_of (sb, pg))"
proof (cases "view_of (sb, pg) = Closed")
  case True
  then show ?thesis using field_changed_closed [of "focus_on (FrameFocus p) (sb, pg)"] by (simp add: field_command_def)
next
  case False
  then have "st_display (resultsWindow pg) = js ''block''" by (simp add: view_of_def split: if_splits)
  moreover obtain sb2 pg2 where f: "focus_on (FrameFocus p) (sb, pg) = (sb2, pg2)" by fastforce
  ultimately have *: "lastSearchValue sb2 = lastSearchValue sb"
    "fieldValue pg2 = (if focused pg = FieldFocus \<and> fieldValue pg = searchLabel sb then [] else fieldValue pg)"
    by (auto simp: focus_on_def Let_def OnSearchFieldFocus_def Activate_def split: if_splits)
  have "view_of (sb2, pg2) = view_of (sb, pg)" using results_focus_on [of "FrameFocus p" "(sb, pg)"] f by simp
  then show ?thesis using view_field_changed [of sb2 pg2 addr] f * by (simp add: field_command_def)
qed

lemma view_OnSearchFieldChange:
  "view_of (fst (OnSearchFieldChange g e s)) = view_after addr (view_command (KeyUp e) s) (view_of s)"
proof -
  obtain sb pg where s: "s = (sb, pg)" by (cases s)
  obtain sb1 pg1 where k: "kill_timer s = (sb1, pg1)" by fastforce
  have *: "fieldValue pg1 = fieldValue pg" "lastSearchValue sb1 = lastSearchValue sb" "frameResults pg1 = frameResults pg"
    "focused pg1 = focused pg" "searchLabel sb1 = searchLabel sb" "view_of (sb1, pg1) = view_of (sb, pg)"
    using kill_timer_simps [of s, unfolded k] view_kill_timer [of s, unfolded k] by (simp_all add: s)
  have fc: "field_command x sb1 = field_command x sb" for x using *(2) by (simp add: field_command_def)
  show ?thesis
  proof (cases "(keyCode e = 40 \<or> keyCode e = 13) \<and> \<not> shiftKey e")
    case True
    then have key: "keyCode e \<noteq> 27" "\<not> shiftKey e" "\<not> (keyCode e \<noteq> 40 \<and> keyCode e \<noteq> 13)" "keyCode e = 40 \<or> keyCode e = 13"
      by auto
    note run = OnSearchFieldChange_def Let_def s if_P [OF key(4)] if_not_P [OF key(1)] if_not_P [OF key(2)]
    have cmd: "view_command (KeyUp e) (sb, pg) = (case frameResults pg of
        None \<Rightarrow> field_command (fieldValue pg) sb
      | Some (sr, doc) \<Rightarrow> (case NavNext doc 0 of
          Inl _ \<Rightarrow> Keep
        | Inr None \<Rightarrow> field_command (fieldValue pg) sb
        | Inr (Some _) \<Rightarrow> field_command (if focused pg = FieldFocus \<and> fieldValue pg = searchLabel sb then [] else fieldValue pg) sb))"
      by (simp only: view_command.simps if_not_P [OF key(1)] if_not_P [OF key(2)] if_not_P [OF key(3)])
    show ?thesis
    proof (cases "frameResults pg")
      case None
      then have "focus_results (sb1, pg1) = ((sb1, pg1), None)" using *(3) by (simp add: focus_results_def)
      with None * fc k view_field_changed [of sb1 pg1 addr] show ?thesis by (simp add: run cmd del: view_command.simps)
    next
      case (Some rd)
      obtain sr doc where rd: "frameResults pg = Some (sr, doc)" using Some by (cases rd) simp
      then have fr: "focus_results (sb1, pg1) = (case NavNext doc 0 of Inl e \<Rightarrow> ((sb1, pg1), Some e)
          | Inr None \<Rightarrow> ((sb1, pg1), None) | Inr (Some p) \<Rightarrow> (focus_on (FrameFocus p) (sb1, pg1), None))"
        using *(3) by (simp add: focus_results_def)
      consider e where "NavNext doc 0 = Inl e" | "NavNext doc 0 = Inr None" | p where "NavNext doc 0 = Inr (Some p)"
        by (metis option.exhaust sum.exhaust)
      then show ?thesis
      proof cases
        case 1
        with rd fr k * show ?thesis by (simp add: run cmd del: view_command.simps)
      next
        case 2
        with rd fr k * fc view_field_changed [of sb1 pg1 addr] show ?thesis by (simp add: run cmd del: view_command.simps)
      next
        case (3 p)
        with rd fr k * fc view_to_row [of p sb1 pg1 addr] show ?thesis by (simp add: run cmd del: view_command.simps)
      qed
    qed
  next
    case False
    then consider "keyCode e = 40 \<or> keyCode e = 13" "shiftKey e" | "keyCode e = 27" | "keyCode e \<noteq> 40" "keyCode e \<noteq> 13" "keyCode e \<noteq> 27"
      by blast
    then show ?thesis
    proof cases
      case 1
      have "view_of (OnSearchSelectShow g (sb1, pg1)) = view_of s" using * s by simp
      moreover have "view_command (KeyUp e) s = Keep" using 1 by (auto simp: s)
      ultimately show ?thesis using 1 k by (auto simp: OnSearchFieldChange_def Let_def split: option.split)
    next
      case 2
      obtain sb2 pg2 where "blur_field (sb1, pg1) = (sb2, pg2)" by fastforce
      with 2 k show ?thesis by (simp add: OnSearchFieldChange_def Let_def s)
    next
      case 3
      with * fc k view_field_changed [of sb1 pg1 addr] show ?thesis by (simp add: OnSearchFieldChange_def Let_def s)
    qed
  qed
qed

section \<open>Searching\<close>

lemma show_results_keeps [simp]:
  "st_display (resultsWindow (show_results g sb pg)) = js ''block''"
  "frameLocation (show_results g sb pg) = frameLocation pg"
  by (simp_all add: show_results_def Let_def)

text \<open>The code finds the page that the tables give.\<close>

lemma indexOf_position:
  "indexOf s [x] = (if length (takeWhile (\<lambda>c. c \<noteq> x) s) < length s then Some (length (takeWhile (\<lambda>c. c \<noteq> x) s)) else None)"
proof -
  have "x \<in> set s \<longleftrightarrow> length (takeWhile (\<lambda>c. c \<noteq> x) s) < length s" by (induction s) auto
  then show ?thesis by (simp add: indexOf_def indexOf_from_single)
qed

lemma results_address_site:
  assumes "host_ok h" "site_ok st" "ascii t"
  shows "results_address h st sb t = site_page st (resultsPath sb) (searchIndex sb) t"
proof (cases "map_of (indexSectionsWithContent st) (searchIndex sb)")
  case None
  then show ?thesis by (simp add: results_address_def site_page_def)
next
  case (Some cs)
  then obtain nm where nm: "map_of (indexSectionNames st) (searchIndex sb) = Some nm" "length cs \<le> 16"
    using site_ok_section [OF assms(2) Some] by blast
  show ?thesis
  proof (cases t)
    case Nil
    have "host_toLowerCase h [] = []" using assms(1) by (simp add: host_ok_def ascii_def)
    then have "idxChar h [] = []" by (simp add: idxChar_def)
    moreover have "indexOf s [] = Some 0" for s by (cases s) (simp_all add: indexOf_def)
    moreover have "js ''?'' = [63]" by (simp add: js_def)
    moreover have "js [CHR ''_'', hex_char 0] = js ''_'' @ toString16 0" by (simp add: js_append [symmetric] toString16_hex)
    ultimately show ?thesis using Some nm(1) Nil by (simp add: results_address_def site_page_def Let_def)
  next
    case (Cons c q)
    have hex: "js [CHR ''_'', hex_char j] = js ''_'' @ js [hex_char j]" for j by (simp add: js_append [symmetric])
    show ?thesis
      using results_address_page [OF assms(1) assms(3) [unfolded Cons] Some nm] Some nm(1) Cons
      by (simp add: site_page_def indexOf_position section_page_def Let_def js_append hex)
  qed
qed

lemma strip_leading_ascii: "ascii v \<Longrightarrow> ascii (strip_leading v)"
  by (auto simp: ascii_def strip_leading_def dest: set_dropWhileD)

lemma view_Search:
  assumes "host_ok h" "site_ok st" "ascii (fieldValue pg)"
  shows "view_of (fst (SearchBox_Search h st g (sb, pg))) =
      view_after (site_page st (resultsPath sb)) (Lookup (searchIndex sb) (strip_leading (fieldValue pg))) (view_of (sb, pg)) \<and>
    (snd (SearchBox_Search h st g (sb, pg)) = None \<longleftrightarrow> site_page st (resultsPath sb) (searchIndex sb) (strip_leading (fieldValue pg)) \<noteq> None)"
proof -
  have "results_address h st (sb\<lparr>keyTimeout := 0\<rparr>) (strip_leading (fieldValue pg)) =
      site_page st (resultsPath sb) (searchIndex sb) (strip_leading (fieldValue pg))"
    using results_address_site [OF assms(1,2) strip_leading_ascii [OF assms(3)], of "sb\<lparr>keyTimeout := 0\<rparr>"] by simp
  then show ?thesis
    by (cases "site_page st (resultsPath sb) (searchIndex sb) (strip_leading (fieldValue pg))")
      (auto simp: SearchBox_Search_def Let_def view_of_def)
qed

lemma view_OnSelectItem:
  assumes "host_ok h" "site_ok st" "ascii (fieldValue pg)"
  shows "view_of (fst (OnSelectItem h st g i (sb, pg))) =
      view_after (site_page st (resultsPath sb)) (item_command i (sb, pg)) (view_of (sb, pg)) \<and>
    (\<forall>j t. item_command i (sb, pg) = Lookup j t \<longrightarrow>
      (snd (OnSelectItem h st g i (sb, pg)) = None \<longleftrightarrow> site_page st (resultsPath sb) j t \<noteq> None))"
proof -
  have "fieldValue (SelectItemSet i pg) = fieldValue pg" by (simp add: SelectItemSet_def)
  with view_Search [OF assms(1,2), of "SelectItemSet i pg" g "sb\<lparr>searchIndex := i\<rparr>"] assms(3) show ?thesis
    by (auto simp: OnSelectItem_def Let_def item_command_def)
qed

text \<open>
  C8. The search box implements the abstract one, event by event. On a site whose index is consistent, with an ASCII text in the field:
  the search timer, and a choice in the menu while the box is active and its field not blank, open the results for the text in the field, with the page and the address
  that the tables of the site give, or throw exactly when there is no such section; closing, Escape
  and a key after the field was emptied close them; and every other event leaves the text, the page and the address as they are.
\<close>

theorem box_step_view:
  assumes "host_ok h" "site_ok st" "ascii (fieldValue (snd s))"
  shows "view_of (fst (box_run h st g ev s)) = view_after (site_page st (resultsPath (fst s))) (view_command ev s) (view_of s) \<and>
    (\<forall>i t. view_command ev s = Lookup i t \<longrightarrow>
      (snd (box_run h st g ev s) = None \<longleftrightarrow> site_page st (resultsPath (fst s)) i t \<noteq> None))"
proof -
  obtain sb pg where s: "s = (sb, pg)" by (cases s)
  have a: "ascii (fieldValue pg)" using assms(3) s by simp
  note item = view_OnSelectItem [OF assms(1,2) a]
  show ?thesis
  proof (cases ev)
    case (KeyUp e)
    have "view_command (KeyUp e) s \<noteq> Lookup i t" for i t
      by (auto simp: s field_command_def split: option.split sum.split)
    with KeyUp view_OnSearchFieldChange [of g e s "site_page st (resultsPath (fst s))"] show ?thesis by simp
  next
    case (ItemClicked i)
    with item [of g i sb] s show ?thesis by simp
  next
    case (MenuKey k)
    have shift: "item_command i (sb\<lparr>searchIndex := n\<rparr>, pg) = item_command i (sb, pg)" for i n by (simp add: item_command_def)
    show ?thesis
      using item [of g "Suc (searchIndex sb)" "sb\<lparr>searchIndex := Suc (searchIndex sb)\<rparr>"]
        item [of g "searchIndex sb - 1" "sb\<lparr>searchIndex := searchIndex sb - 1\<rparr>"] item [of g "searchIndex sb" sb] MenuKey s
      by (auto simp: OnSearchSelectKey_def Let_def shift split: prod.split option.split)
  next
    case (SearchTimeout i)
    have "fieldValue (clearTimeout i pg) = fieldValue pg" by (simp add: clearTimeout_def)
    with view_Search [OF assms(1,2), of "clearTimeout i pg" g sb] a s SearchTimeout show ?thesis by simp
  qed (simp_all add: s)
qed

section \<open>Typed texts are searched\<close>

text \<open>
  C22. A text that is typed is searched: after a key other than Down, Enter and Escape changed the field
  to a non-blank text, a search timer runs, and when it expires, whatever happened to the layout, the
  results window shows and the frame has the address of the text in the selected section.
\<close>

theorem typed_text_is_searched:
  assumes "keyCode e \<notin> {40, 13, 27}" and "strip_spaces (fieldValue pg) \<noteq> []"
    and "strip_spaces (fieldValue pg) \<noteq> lastSearchValue sb"
    and "results_address h st sb (strip_leading (fieldValue pg)) = Some (p, q)"
  shows "\<exists>sb1 pg1. OnSearchFieldChange g e (sb, pg) = ((sb1, pg1), None) \<and>
    (keyTimeout sb1, SearchTimer, keyTimeoutLength sb) \<in> set (timers pg1) \<and>
    (\<exists>sb2 pg2. SearchBox_Search h st g' (sb1, clearTimeout (keyTimeout sb1) pg1) = ((sb2, pg2), None) \<and>
       st_display (resultsWindow pg2) = js ''block'' \<and> frameLocation pg2 = q \<and>
       lastSearchValue sb2 = strip_leading (fieldValue pg))"
proof -
  define sb1 where "sb1 = sb\<lparr>keyTimeout := nextTimer pg\<rparr>"
  obtain pg0 where pg0: "kill_timer (sb, pg) = (sb\<lparr>keyTimeout := 0\<rparr>, pg0)"
    "fieldValue pg0 = fieldValue pg" "nextTimer pg0 = nextTimer pg"
  proof (cases "keyTimeout sb = 0")
    case True
    then have "kill_timer (sb, pg) = (sb\<lparr>keyTimeout := 0\<rparr>, pg)" by (simp add: kill_timer_def)
    then show thesis using that by blast
  next
    case False
    then show thesis using that [of "clearTimeout (keyTimeout sb) pg"] by (simp add: kill_timer_def clearTimeout_def)
  qed
  define pg1 where "pg1 = pg0\<lparr>timers := timers pg0 @ [(nextTimer pg, SearchTimer, keyTimeoutLength sb)],
    nextTimer := Suc (nextTimer pg)\<rparr>"
  have "OnSearchFieldChange g e (sb, pg) = ((sb1, pg1), None)"
    using assms(1-3) pg0
    by (simp add: OnSearchFieldChange_def field_changed_def Let_def setTimeout_def sb1_def pg1_def)
  moreover have "results_address h st (sb1\<lparr>keyTimeout := 0\<rparr>) (strip_leading (fieldValue pg)) = Some (p, q)"
    using assms(4) by (simp add: results_address_def sb1_def Let_def cong: option.case_cong)
  moreover have "fieldValue (clearTimeout i pg1) = fieldValue pg" for i
    using pg0 by (simp add: clearTimeout_def pg1_def)
  ultimately show ?thesis
    by (auto simp: SearchBox_Search_def Let_def sb1_def pg1_def)
qed

text \<open>
  C24. The text in the address reaches the results page unchanged: the page that is opened for a search
  text, of whatever characters, reads that text back from its address.
\<close>

theorem query_round_trip:
  assumes "results_address h st sb text = Some (p, q)" and "q \<noteq> p"
  shows "search_text (drop (length p) q) None = text"
proof -
  have "q = p @ js ''?'' @ escape text"
    using assms by (auto simp: results_address_def Let_def split: option.splits)
  then show ?thesis by (simp add: search_text_def js_def)
qed

lemma demo_address:
  "results_address ascii_host html_site (demo_box 0) (js ''parse'') =
     Some (js ''search/all_4.html'', js ''search/all_4.html'' @ 63 # escape (js ''parse''))"
proof -
  have "map_of (indexSectionsWithContent html_site) 0 = Some ''aciops''" "map_of (indexSectionNames html_site) 0 = Some ''all''"
    by (simp_all add: html_site_def html_indexSectionsWithContent_def html_indexSectionNames_def)
  moreover have "idxChar ascii_host (js ''parse'') = js ''p''"
    by (simp add: idxChar_def ascii_host_def js_def ascii_lower_def Let_def)
  moreover have "indexOf (js ''aciops'') (js ''p'') = Some 4"
    by (simp add: indexOf_def js_def)
  moreover have "toString16 4 = js ''4''" by (simp add: toString16.simps hex_digit_def js_def)
  ultimately show ?thesis
    by (simp add: results_address_def demo_box_def SearchBox_def Let_def) (simp add: js_def)
qed

theorem typed_text_is_searched_witness:
  "\<exists>s. OnSearchFieldChange demo_geometry \<lparr>ev_type = ''keyup'', keyCode = 69, shiftKey = False\<rparr>
     (demo_box 0, demo_page ''parse'') = (s, None) \<and>
     frameLocation (snd (fst (SearchBox_Search ascii_host html_site demo_geometry
       (fst s, clearTimeout (keyTimeout (fst s)) (snd s))))) = js ''search/all_4.html'' @ 63 # escape (js ''parse'')"
proof -
  have v: "strip_leading (fieldValue (demo_page ''parse'')) = js ''parse''"
    "strip_spaces (fieldValue (demo_page ''parse'')) = js ''parse''"
    by (simp_all add: demo_page_def strip_leading_def strip_spaces_def js_def)
  moreover have "js ''parse'' \<noteq> lastSearchValue (demo_box 0)" by (simp add: demo_box_def SearchBox_def)
  ultimately show ?thesis
    using typed_text_is_searched [of "\<lparr>ev_type = ''keyup'', keyCode = 69, shiftKey = False\<rparr>" "demo_page ''parse''" "demo_box 0"
        ascii_host html_site _ _ demo_geometry demo_geometry] demo_address by fastforce
qed

theorem query_round_trip_witness:
  "search_text (drop (length (js ''search/all_4.html'')) (js ''search/all_4.html'' @ 63 # escape (js ''parse''))) None = js ''parse''"
  by (rule query_round_trip [OF demo_address]) simp

text \<open>The timer of the example expires: the results open for \<open>parse\<close>, on the page of the fifth initial of the section.\<close>

theorem box_step_view_witness:
  "view_of (demo_box 0, demo_page ''parse'') = Closed \<and>
   view_of (fst (box_run ascii_host html_site demo_geometry (SearchTimeout 1) (demo_box 0, demo_page ''parse''))) =
     Open (js ''parse'') (js ''search/all_4.html'') (js ''search/all_4.html'' @ 63 # escape (js ''parse'')) \<and>
   snd (box_run ascii_host html_site demo_geometry (SearchTimeout 1) (demo_box 0, demo_page ''parse'')) = None"
proof -
  have v: "strip_leading (fieldValue (demo_page ''parse'')) = js ''parse''" "ascii (fieldValue (demo_page ''parse''))"
    by (simp_all add: demo_page_def strip_leading_def js_def ascii_def)
  have "site_page html_site (resultsPath (demo_box 0)) 0 (js ''parse'') =
      Some (js ''search/all_4.html'', js ''search/all_4.html'' @ 63 # escape (js ''parse''))"
    using results_address_site [OF ascii_host_ok html_site_ok, of "js ''parse''" "demo_box 0"] demo_address v(2)
    by (simp add: demo_page_def) (simp add: demo_box_def)
  moreover have "view_command (SearchTimeout 1) (demo_box 0, demo_page ''parse'') = Lookup 0 (js ''parse'')"
    using v(1) by (simp add: demo_box_def)
  moreover have "view_of (demo_box 0, demo_page ''parse'') = Closed"
    by (simp add: view_of_def demo_page_def html_page_def no_style_def js_def)
  ultimately show ?thesis
    using box_step_view [OF ascii_host_ok html_site_ok, of "(demo_box 0, demo_page ''parse'')" demo_geometry "SearchTimeout 1"] v(2)
    by simp
qed

end
