(* ===== verification/Dyn_Sections.thy ===== *)
theory Dyn_Sections
  imports Js_Strings
begin

text \<open>
  \<^verbatim>\<open>dynsections.js\<close>: the sections of a documentation page that open and close. The
  directory table (\<open>updateStripes\<close>, \<open>toggleLevel\<close>, \<open>toggleFolder\<close>) is the list of its
  rows with their ids, classes, visibility and the spans in them; the member tables
  (\<open>toggleInherit\<close>) are lists of rows with their classes and images; \<open>toggleVisibility\<close> works
  on a link, a summary, a content and an image. Selecting and changing elements is jQuery's: a
  selector is a filter on the rows in document order, an id selects the first element that has it,
  \<open>hide\<close> and \<open>show\<close> set whether an element is visible, \<open>addClass\<close> and
  \<open>removeClass\<close> change the class list.
\<close>

section \<open>Elements\<close>

type_synonym classes = "jsstring list"

definition hasClass :: "jsstring \<Rightarrow> classes \<Rightarrow> bool" where
  "hasClass c cs \<longleftrightarrow> c \<in> set cs"

definition addClass :: "jsstring \<Rightarrow> classes \<Rightarrow> classes" where
  "addClass c cs = (if c \<in> set cs then cs else cs @ [c])"

definition removeClass :: "jsstring \<Rightarrow> classes \<Rightarrow> classes" where
  "removeClass c cs = filter (\<lambda>d. d \<noteq> c) cs"

record span =
  sp_id :: jsstring
  sp_classes :: classes
  sp_html :: jsstring

record trow =
  tr_id :: jsstring
  tr_classes :: classes
  shown :: bool
  spans :: "span list"

lemma hasClass_simps [simp]:
  "hasClass c (addClass d cs) \<longleftrightarrow> c = d \<or> hasClass c cs"
  "hasClass c (removeClass d cs) \<longleftrightarrow> c \<noteq> d \<and> hasClass c cs"
  by (auto simp: hasClass_def addClass_def removeClass_def)

section \<open>The directory table\<close>

text \<open>The rows that are visible, counted from \<open>n\<close> on: those at even positions get the class.\<close>

fun stripe_from :: "nat \<Rightarrow> trow list \<Rightarrow> trow list" where
  "stripe_from n [] = []"
| "stripe_from n (r # rs) =
     (if shown r
      then (if even n then r\<lparr>tr_classes := addClass (js ''even'') (tr_classes r)\<rparr> else r) # stripe_from (Suc n) rs
      else r # stripe_from n rs)"

definition updateStripes :: "trow list \<Rightarrow> trow list" where
  "updateStripes rows =
     stripe_from 0 (map (\<lambda>r. r\<lparr>tr_classes := removeClass (js ''even'') (tr_classes r)\<rparr>) rows)"

text \<open>\<open>$('#' + i)\<close> for a span: the first one in the table with that id.\<close>

fun on_span :: "jsstring \<Rightarrow> (span \<Rightarrow> span) \<Rightarrow> span list \<Rightarrow> span list" where
  "on_span i f [] = []"
| "on_span i f (s # ss) = (if sp_id s = i then f s # ss else s # on_span i f ss)"

fun on_id :: "jsstring \<Rightarrow> (span \<Rightarrow> span) \<Rightarrow> trow list \<Rightarrow> trow list" where
  "on_id i f [] = []"
| "on_id i f (r # rs) =
     (if list_ex (\<lambda>s. sp_id s = i) (spans r) then r\<lparr>spans := on_span i f (spans r)\<rparr> # rs
      else r # on_id i f rs)"

definition row_depth :: "jsstring \<Rightarrow> nat" where
  "row_depth i = length (filter (\<lambda>c. c = 95) i)"

definition set_icon :: "jsstring \<Rightarrow> span \<Rightarrow> span" where
  "set_icon c s =
     s\<lparr>sp_classes := addClass c (removeClass (js ''iconfclosed'') (removeClass (js ''iconfopen'') (sp_classes s)))\<rparr>"

definition set_html :: "jsstring \<Rightarrow> span \<Rightarrow> span" where
  "set_html v s = s\<lparr>sp_html := v\<rparr>"

text \<open>The body of \<open>toggleLevel\<close>'s loop for row \<open>k\<close>; the loop visits the rows in order.\<close>

definition level_row :: "int \<Rightarrow> nat \<Rightarrow> trow list \<Rightarrow> trow list" where
  "level_row level k rows =
     (let i = tr_id (rows ! k);
          l = int (row_depth i);
          img = js ''img'' @ drop 3 i;
          arr = js ''arr'' @ drop 3 i
      in if l < level + 1 then
           let rows = on_id img (set_icon (js ''iconfopen'')) rows;
               rows = on_id arr (set_html (js ''&#9660;'')) rows
           in rows[k := (rows ! k)\<lparr>shown := True\<rparr>]
         else if l = level + 1 then
           let rows = on_id img (set_icon (js ''iconfclosed'')) rows;
               rows = on_id arr (set_html (js ''&#9658;'')) rows
           in rows[k := (rows ! k)\<lparr>shown := True\<rparr>]
         else rows[k := (rows ! k)\<lparr>shown := False\<rparr>])"

fun level_rows :: "int \<Rightarrow> nat list \<Rightarrow> trow list \<Rightarrow> trow list" where
  "level_rows level [] rows = rows"
| "level_rows level (k # ks) rows = level_rows level ks (level_row level k rows)"

definition toggleLevel :: "int \<Rightarrow> trow list \<Rightarrow> trow list" where
  "toggleLevel level rows = updateStripes (level_rows level [0..<length rows] rows)"

text \<open>
  The test of a row id against \<open>/^row_<id>\d+_$/i\<close>; the folder ids of the pages consist of
  digits and underscores, which stand for themselves in a pattern.
\<close>

definition is_sub_row :: "jsstring \<Rightarrow> jsstring \<Rightarrow> bool" where
  "is_sub_row i r \<longleftrightarrow>
     (let p = map ascii_lower (js ''row_'' @ i);
          rest = drop (length p) r;
          ds = takeWhile is_digit_unit rest
      in map ascii_lower (take (length p) r) = p \<and> ds \<noteq> [] \<and> drop (length ds) rest = js ''_'')"

definition close_icon :: "span \<Rightarrow> span" where
  "close_icon s =
     (if hasClass (js ''iconfopen'') (sp_classes s)
      then s\<lparr>sp_classes := addClass (js ''iconfclosed'') (removeClass (js ''iconfopen'') (sp_classes s))\<rparr> else s)"

definition open_icon :: "span \<Rightarrow> span" where
  "open_icon s =
     (if hasClass (js ''iconfclosed'') (sp_classes s)
      then s\<lparr>sp_classes := addClass (js ''iconfopen'') (removeClass (js ''iconfclosed'') (sp_classes s))\<rparr> else s)"

definition set_arrow :: "jsstring \<Rightarrow> span \<Rightarrow> span" where
  "set_arrow v s = (if hasClass (js ''arrow'') (sp_classes s) then s\<lparr>sp_html := v\<rparr> else s)"

definition row_closed :: "trow \<Rightarrow> trow" where
  "row_closed r = r\<lparr>spans := map (set_arrow (js ''&#9658;'')) (map close_icon (spans r))\<rparr>"

definition row_opened :: "trow \<Rightarrow> trow" where
  "row_opened r = r\<lparr>spans := map (set_arrow (js ''&#9660;'')) (map open_icon (spans r))\<rparr>"

text \<open>The rows after the clicked one, split off at the first row with its id.\<close>

fun split_row :: "jsstring \<Rightarrow> trow list \<Rightarrow> (trow list \<times> trow \<times> trow list) option" where
  "split_row i [] = None"
| "split_row i (r # rs) =
     (if tr_id r = i then Some ([], r, rs)
      else case split_row i rs of Some (xs, y, zs) \<Rightarrow> Some (r # xs, y, zs) | None \<Rightarrow> None)"

definition toggleFolder :: "jsstring \<Rightarrow> trow list \<Rightarrow> trow list" where
  "toggleFolder i rows =
     updateStripes
       (case split_row (js ''row_'' @ i) rows of
          None \<Rightarrow> rows
        | Some (before, currentRow, rest) \<Rightarrow>
            (case filter (\<lambda>r. is_sub_row i (tr_id r)) rest of
               c # cs \<Rightarrow> if shown c
                 then before @ row_closed currentRow #
                        map (\<lambda>r. if prefix (js ''row_'' @ i) (tr_id r) then r\<lparr>shown := False\<rparr> else r) rest
                 else before @ row_opened currentRow #
                        map (\<lambda>r. if is_sub_row i (tr_id r) then (row_closed r)\<lparr>shown := True\<rparr> else r) rest
             | [] \<Rightarrow> before @ row_opened currentRow # rest))"

section \<open>Member tables and dynamic sections\<close>

text \<open>\<open>src.substring(0, src.length - n) + t\<close>\<close>

definition replace_tail :: "nat \<Rightarrow> string \<Rightarrow> jsstring \<Rightarrow> jsstring" where
  "replace_tail n t src = substring_to src (int (length src) - int n) @ js t"

record member_row =
  mr_classes :: classes
  mr_shown :: bool
  imgs :: "jsstring list"

definition is_inherited :: "jsstring \<Rightarrow> member_row \<Rightarrow> bool" where
  "is_inherited i r \<longleftrightarrow> hasClass (js ''inherit'') (mr_classes r) \<and> hasClass i (mr_classes r)"

definition is_inherit_header :: "jsstring \<Rightarrow> member_row \<Rightarrow> bool" where
  "is_inherit_header i r \<longleftrightarrow> hasClass (js ''inherit_header'') (mr_classes r) \<and> hasClass i (mr_classes r)"

datatype section_error = NoSource

text \<open>Without an image there is no \<open>src\<close>, and \<open>src.substring\<close> throws after the rows were changed.\<close>

definition toggleInherit :: "jsstring \<Rightarrow> member_row list \<Rightarrow> member_row list \<times> section_error option" where
  "toggleInherit i rows =
     (let visible = (case filter (is_inherited i) rows of r # _ \<Rightarrow> mr_shown r | [] \<Rightarrow> False);
          rows = map (\<lambda>r. if is_inherited i r then r\<lparr>mr_shown := \<not> visible\<rparr> else r) rows
      in case concat (map imgs (filter (is_inherit_header i) rows)) of
           [] \<Rightarrow> (rows, Some NoSource)
         | src # _ \<Rightarrow>
             let v = (if visible then replace_tail 8 ''closed.png'' src else replace_tail 10 ''open.png'' src)
             in (map (\<lambda>r. if is_inherit_header i r then r\<lparr>imgs := map (\<lambda>_. v) (imgs r)\<rparr> else r) rows, None))"

record dyn_section =
  link_classes :: classes
  summary_shown :: bool
  content_shown :: bool
  trigger_src :: "jsstring option"

definition toggleVisibility :: "dyn_section \<Rightarrow> dyn_section \<times> section_error option" where
  "toggleVisibility d =
     (if content_shown d then
        let d = d\<lparr>content_shown := False, summary_shown := True,
                  link_classes := removeClass (js ''opened'') (addClass (js ''closed'') (link_classes d))\<rparr>
        in case trigger_src d of
             None \<Rightarrow> (d, Some NoSource)
           | Some src \<Rightarrow> (d\<lparr>trigger_src := Some (replace_tail 8 ''closed.png'' src)\<rparr>, None)
      else
        let d = d\<lparr>content_shown := True, summary_shown := False,
                  link_classes := addClass (js ''opened'') (removeClass (js ''closed'') (link_classes d))\<rparr>
        in case trigger_src d of
             None \<Rightarrow> (d, Some NoSource)
           | Some src \<Rightarrow> (d\<lparr>trigger_src := Some (replace_tail 10 ''open.png'' src)\<rparr>, None))"

section \<open>Stripes\<close>

lemma stripe_from_shown [simp]: "map shown (stripe_from n rs) = map shown rs"
  by (induction n rs rule: stripe_from.induct) auto

lemma stripe_from_ids [simp]: "map tr_id (stripe_from n rs) = map tr_id rs"
  by (induction n rs rule: stripe_from.induct) auto

lemma updateStripes_shown [simp]: "map shown (updateStripes rows) = map shown rows"
  by (simp add: updateStripes_def o_def)

lemma updateStripes_ids [simp]: "map tr_id (updateStripes rows) = map tr_id rows"
  by (simp add: updateStripes_def o_def)

lemma stripe_from_even:
  "list_all (\<lambda>r. \<not> hasClass (js ''even'') (tr_classes r)) rs \<Longrightarrow>
   map (\<lambda>r. hasClass (js ''even'') (tr_classes r)) (filter shown (stripe_from n rs)) =
     map even [n..<n + length (filter shown rs)] \<and>
   list_all (\<lambda>r. \<not> shown r \<longrightarrow> \<not> hasClass (js ''even'') (tr_classes r)) (stripe_from n rs)"
  by (induction n rs rule: stripe_from.induct) (auto simp: upt_conv_Cons simp del: upt_Suc)

text \<open>
  After \<open>updateStripes\<close> the visible rows alternate, the first one being even, and no hidden
  row is even; which rows show does not change.
\<close>

theorem updateStripes_alternate:
  "map (\<lambda>r. hasClass (js ''even'') (tr_classes r)) (filter shown (updateStripes rows)) =
     map even [0..<length (filter shown rows)] \<and>
   filter (\<lambda>r. hasClass (js ''even'') (tr_classes r)) (filter (\<lambda>r. \<not> shown r) (updateStripes rows)) = [] \<and>
   map shown (updateStripes rows) = map shown rows"
proof -
  define rs where "rs = map (\<lambda>r. r\<lparr>tr_classes := removeClass (js ''even'') (tr_classes r)\<rparr>) rows"
  have "list_all (\<lambda>r. \<not> hasClass (js ''even'') (tr_classes r)) rs"
    by (simp add: rs_def list_all_iff)
  moreover have "length (filter shown rs) = length (filter shown rows)"
    by (simp add: rs_def filter_map o_def)
  ultimately show ?thesis
    using stripe_from_even [of rs 0] by (auto simp: updateStripes_def rs_def [symmetric] list_all_iff filter_empty_conv o_def)
      (simp add: rs_def o_def)
qed

section \<open>Levels\<close>

lemma on_id_keeps [simp]:
  "map tr_id (on_id i f rows) = map tr_id rows" "map shown (on_id i f rows) = map shown rows"
  "length (on_id i f rows) = length rows"
  by (induction rows) auto

lemma row_ids_nth: "map tr_id xs = map tr_id ys \<Longrightarrow> k < length ys \<Longrightarrow> tr_id (xs ! k) = tr_id (ys ! k)"
  by (metis length_map nth_map)

lemma map_shown_update: "map shown (xs[k := (xs ! k)\<lparr>shown := b\<rparr>]) = (map shown xs)[k := b]"
  by (simp add: map_update)

lemma map_id_update: "map tr_id (xs[k := (xs ! k)\<lparr>shown := b\<rparr>]) = map tr_id xs"
  by (cases "k < length xs") (simp_all add: map_update list_update_same_conv list_update_beyond)

lemma level_row_keeps:
  "map tr_id (level_row level k rows) = map tr_id rows"
  "map shown (level_row level k rows) = (map shown rows)[k := int (row_depth (tr_id (rows ! k))) \<le> level + 1]"
  by (auto simp: level_row_def Let_def map_shown_update map_id_update)

lemma level_rows_shown:
  "k < length rows \<Longrightarrow>
   map shown (level_rows level ks rows) ! k =
     (if k \<in> set ks then int (row_depth (tr_id (rows ! k))) \<le> level + 1 else shown (rows ! k))"
proof (induction level ks rows rule: level_rows.induct)
  case (2 level j ks rows)
  have len: "length (level_row level j rows) = length rows"
    using level_row_keeps(1) map_eq_imp_length_eq by blast
  have "tr_id (level_row level j rows ! k) = tr_id (rows ! k)"
    using 2 len level_row_keeps(1) by (intro row_ids_nth) simp_all
  moreover have "shown (level_row level j rows ! k) =
      (if k = j then int (row_depth (tr_id (rows ! k))) \<le> level + 1 else shown (rows ! k))"
    using 2 len level_row_keeps(2) [of level j rows]
    by (metis length_map nth_list_update_eq nth_list_update_neq nth_map)
  ultimately show ?case using 2 len by auto
qed simp

lemma level_rows_length [simp]: "length (level_rows level ks rows) = length rows"
proof (induction level ks rows rule: level_rows.induct)
  case (2 level j ks rows)
  then show ?case using level_row_keeps(1) map_eq_imp_length_eq by (metis level_rows.simps(2))
qed simp

text \<open>
  \<open>toggleLevel\<close> shows exactly the rows whose depth is at most one more than the level.
\<close>

theorem toggleLevel_shown:
  "map shown (toggleLevel level rows) = map (\<lambda>r. int (row_depth (tr_id r)) \<le> level + 1) rows"
proof (rule nth_equalityI)
  have len: "length (toggleLevel level rows) = length rows"
    unfolding toggleLevel_def by (metis length_map level_rows_length updateStripes_shown)
  then show "length (map shown (toggleLevel level rows)) = length (map (\<lambda>r. int (row_depth (tr_id r)) \<le> level + 1) rows)"
    by simp
  show "map shown (toggleLevel level rows) ! k = map (\<lambda>r. int (row_depth (tr_id r)) \<le> level + 1) rows ! k"
    if "k < length (map shown (toggleLevel level rows))" for k
  proof -
    have k: "k < length rows" using that len by simp
    then show ?thesis
      using level_rows_shown [OF k, of level "[0..<length rows]"] by (simp only: toggleLevel_def updateStripes_shown) simp
  qed
qed

section \<open>Folders\<close>

lemma split_row_found:
  "(\<forall>r \<in> set before. tr_id r \<noteq> tr_id cur) \<Longrightarrow> split_row (tr_id cur) (before @ cur # rest) = Some (before, cur, rest)"
  by (induction before) auto

lemma row_icons_keep [simp]:
  "tr_id (row_closed r) = tr_id r" "shown (row_closed r) = shown r"
  "tr_id (row_opened r) = tr_id r" "shown (row_opened r) = shown r"
  by (simp_all add: row_closed_def row_opened_def)

lemma split_row_Some: "split_row i rows = Some (xs, y, zs) \<Longrightarrow> rows = xs @ y # zs"
  by (induction i rows arbitrary: xs rule: split_row.induct) (auto split: if_splits option.splits)

lemma folder_ids: "map tr_id (toggleFolder i rows) = map tr_id rows"
  by (auto simp: toggleFolder_def o_def split: option.split list.split dest!: split_row_Some)

lemma folder_shown:
  assumes "tr_id cur = js ''row_'' @ i" and "\<forall>r \<in> set before. tr_id r \<noteq> tr_id cur"
  shows "map shown (toggleFolder i (before @ cur # rest)) =
    map shown before @ shown cur #
      (if (\<exists>c cs. filter (\<lambda>r. is_sub_row i (tr_id r)) rest = c # cs \<and> shown c)
       then map (\<lambda>r. shown r \<and> \<not> prefix (js ''row_'' @ i) (tr_id r)) rest
       else map (\<lambda>r. shown r \<or> is_sub_row i (tr_id r)) rest)"
proof -
  have split: "split_row (js ''row_'' @ i) (before @ cur # rest) = Some (before, cur, rest)"
    using split_row_found [OF assms(2)] assms(1) by simp
  have none: "filter (\<lambda>r. is_sub_row i (tr_id r)) rest = [] \<Longrightarrow>
      map shown rest = map (\<lambda>r. shown r \<or> is_sub_row i (tr_id r)) rest"
    by (auto simp: filter_empty_conv)
  show ?thesis
    using none by (auto simp: toggleFolder_def split o_def split: list.split)
qed

text \<open>
  \<open>toggleFolder\<close> on a row: when the first direct child below it shows, every row below whose
  id extends the folder's is hidden; otherwise exactly the direct children become visible. All
  other rows, the clicked one included, stay as they are.
\<close>

theorem toggleFolder_shown:
  assumes "tr_id cur = js ''row_'' @ i" and "\<forall>r \<in> set before. tr_id r \<noteq> tr_id cur"
  shows "map shown (toggleFolder i (before @ cur # rest)) =
    map shown before @ shown cur #
      (if (\<exists>c cs. filter (\<lambda>r. is_sub_row i (tr_id r)) rest = c # cs \<and> shown c)
       then map (\<lambda>r. shown r \<and> \<not> prefix (js ''row_'' @ i) (tr_id r)) rest
       else map (\<lambda>r. shown r \<or> is_sub_row i (tr_id r)) rest)"
  using assms by (rule folder_shown)

text \<open>A folder with two files, one of them open, for the examples.\<close>

definition sample_rows :: "trow list" where
  "sample_rows =
     [\<lparr>tr_id = js ''row_0_'', tr_classes = [], shown = True, spans = []\<rparr>,
      \<lparr>tr_id = js ''row_0_0_'', tr_classes = [], shown = True, spans = []\<rparr>,
      \<lparr>tr_id = js ''row_0_0_0_'', tr_classes = [], shown = True, spans = []\<rparr>,
      \<lparr>tr_id = js ''row_1_'', tr_classes = [], shown = True, spans = []\<rparr>]"

lemma sub_row_examples:
  "is_sub_row (js ''0_'') (js ''row_0_0_'')" "\<not> is_sub_row (js ''0_'') (js ''row_0_0_0_'')"
  "\<not> is_sub_row (js ''0_'') (js ''row_1_'')"
  by (simp_all add: is_sub_row_def js_def ascii_lower_def is_digit_unit_def Let_def)

theorem toggleFolder_shown_witness: "map shown (toggleFolder (js ''0_'') sample_rows) = [True, False, False, True]"
proof -
  have "prefix (js ''row_0_'') (js ''row_0_0_'')" "prefix (js ''row_0_'') (js ''row_0_0_0_'')"
    "\<not> prefix (js ''row_0_'') (js ''row_1_'')" "js ''row_'' @ js ''0_'' = js ''row_0_''"
    by (simp_all add: js_def)
  then show ?thesis
    using toggleFolder_shown [of "hd sample_rows" "js ''0_''" "[]" "tl sample_rows"]
    by (simp add: sample_rows_def sub_row_examples)
qed

section \<open>Images\<close>

text \<open>The images of a closed and an open section in the same directory.\<close>

lemma replace_tail_open: "replace_tail 8 ''closed.png'' (d @ js ''open.png'') = d @ js ''closed.png''"
  by (simp add: replace_tail_def substring_to_def)

lemma replace_tail_closed: "replace_tail 10 ''open.png'' (d @ js ''closed.png'') = d @ js ''open.png''"
  by (simp add: replace_tail_def substring_to_def)

text \<open>A section in step with its image: open content with the open image, closed with the closed one.\<close>

definition in_step :: "jsstring \<Rightarrow> dyn_section \<Rightarrow> bool" where
  "in_step d x \<longleftrightarrow>
     trigger_src x = Some (d @ (if content_shown x then js ''open.png'' else js ''closed.png'')) \<and>
     summary_shown x = (\<not> content_shown x) \<and>
     hasClass (js ''opened'') (link_classes x) = content_shown x \<and>
     hasClass (js ''closed'') (link_classes x) = (\<not> content_shown x)"

text \<open>
  \<open>toggleVisibility\<close> on a section whose image, summary and link class are in step with its
  content flips the content and keeps them in step; so two calls restore the section's state and
  image.
\<close>

theorem toggleVisibility_flips:
  assumes "in_step d x"
  shows "\<exists>y. toggleVisibility x = (y, None) \<and> in_step d y \<and> content_shown y = (\<not> content_shown x)"
  using assms by (auto simp: toggleVisibility_def in_step_def Let_def replace_tail_open replace_tail_closed)

theorem toggleVisibility_flips_witness:
  "\<exists>y. toggleVisibility \<lparr>link_classes = [js ''dynheader'', js ''closed''], summary_shown = True,
      content_shown = False, trigger_src = Some (js ''closed.png'')\<rparr> = (y, None) \<and> content_shown y"
  using toggleVisibility_flips [of "[]" "\<lparr>link_classes = [js ''dynheader'', js ''closed''], summary_shown = True,
      content_shown = False, trigger_src = Some (js ''closed.png'')\<rparr>"]
  by (auto simp: in_step_def hasClass_def)

text \<open>The inherited members of a class in step with the images of their header.\<close>

definition inherit_step :: "jsstring \<Rightarrow> jsstring \<Rightarrow> bool \<Rightarrow> member_row list \<Rightarrow> bool" where
  "inherit_step i d v rows \<longleftrightarrow>
     (\<exists>r \<in> set rows. is_inherited i r) \<and> (\<exists>r \<in> set rows. is_inherit_header i r \<and> imgs r \<noteq> []) \<and>
     (\<forall>r \<in> set rows. is_inherited i r \<longrightarrow> mr_shown r = v) \<and>
     (\<forall>r \<in> set rows. is_inherit_header i r \<longrightarrow>
        (\<forall>s \<in> set (imgs r). s = d @ (if v then js ''open.png'' else js ''closed.png'')))"

lemma inherit_selectors [simp]:
  "is_inherited i (r\<lparr>mr_shown := b\<rparr>) = is_inherited i r" "is_inherit_header i (r\<lparr>mr_shown := b\<rparr>) = is_inherit_header i r"
  "is_inherited i (r\<lparr>imgs := xs\<rparr>) = is_inherited i r" "is_inherit_header i (r\<lparr>imgs := xs\<rparr>) = is_inherit_header i r"
  by (simp_all add: is_inherited_def is_inherit_header_def)

text \<open>
  \<open>toggleInherit\<close> flips all inherited rows of a class together, with the images of their header,
  and never throws when the header has an image: rows that all show with the open image become rows
  that are all hidden with the closed image, and back.
\<close>

theorem toggleInherit_flips:
  assumes "inherit_step i d v rows"
  shows "\<exists>rows'. toggleInherit i rows = (rows', None) \<and> inherit_step i d (\<not> v) rows'"
proof -
  define rows1 where "rows1 = map (\<lambda>r. if is_inherited i r then r\<lparr>mr_shown := \<not> v\<rparr> else r) rows"
  obtain r rs where "filter (is_inherited i) rows = r # rs" "is_inherited i r" "r \<in> set rows"
    using assms by (cases "filter (is_inherited i) rows")
      (auto simp: inherit_step_def filter_empty_conv filter_eq_Cons_iff)
  then have vis: "(case filter (is_inherited i) rows of r # _ \<Rightarrow> mr_shown r | [] \<Rightarrow> False) = v"
    using assms by (simp add: inherit_step_def)
  have hd: "concat (map imgs (filter (is_inherit_header i) rows1)) = concat (map imgs (filter (is_inherit_header i) rows))"
    by (simp add: rows1_def filter_map o_def if_distrib [of "is_inherit_header i"] if_distrib [of imgs] cong: if_cong)
  have "\<exists>s ss. concat (map imgs (filter (is_inherit_header i) rows)) = s # ss"
    using assms by (auto simp: inherit_step_def neq_Nil_conv [symmetric])
  then obtain s ss where s: "concat (map imgs (filter (is_inherit_header i) rows)) = s # ss" by blast
  then have "s \<in> set (concat (map imgs (filter (is_inherit_header i) rows)))" by simp
  then have src: "s = d @ (if v then js ''open.png'' else js ''closed.png'')"
    using assms by (auto simp: inherit_step_def)
  define w where "w = d @ (if v then js ''closed.png'' else js ''open.png'')"
  have "(if v then replace_tail 8 ''closed.png'' s else replace_tail 10 ''open.png'' s) = w"
    using src by (simp add: w_def replace_tail_open replace_tail_closed)
  then have "toggleInherit i rows =
      (map (\<lambda>r. if is_inherit_header i r then r\<lparr>imgs := map (\<lambda>_. w) (imgs r)\<rparr> else r) rows1, None)"
    by (simp add: toggleInherit_def vis rows1_def [symmetric] hd s Let_def)
  moreover define f where "f = (\<lambda>r. let r = if is_inherited i r then r\<lparr>mr_shown := \<not> v\<rparr> else r in
    if is_inherit_header i r then r\<lparr>imgs := map (\<lambda>_. w) (imgs r)\<rparr> else r)"
  ultimately have toggle: "toggleInherit i rows = (map f rows, None)"
    by (simp add: rows1_def Let_def o_def)
  have f: "is_inherited i (f r) = is_inherited i r" "is_inherit_header i (f r) = is_inherit_header i r"
    "is_inherited i r \<Longrightarrow> mr_shown (f r) = (\<not> v)"
    "is_inherit_header i r \<Longrightarrow> imgs (f r) = map (\<lambda>_. w) (imgs r)" for r
    by (simp_all add: f_def Let_def)
  have "inherit_step i d (\<not> v) (map f rows)"
    unfolding inherit_step_def
  proof (intro conjI)
    show "\<exists>r \<in> set (map f rows). is_inherited i r"
      using assms by (auto simp: inherit_step_def f)
    show "\<exists>r \<in> set (map f rows). is_inherit_header i r \<and> imgs r \<noteq> []"
      using assms by (auto simp: inherit_step_def f intro!: bexI)
  qed (auto simp: f w_def)
  with toggle show ?thesis by blast
qed

theorem toggleInherit_flips_witness:
  "\<exists>rows'. toggleInherit (js ''c'')
     [\<lparr>mr_classes = [js ''inherit_header'', js ''c''], mr_shown = True, imgs = [js ''closed.png'']\<rparr>,
      \<lparr>mr_classes = [js ''inherit'', js ''c''], mr_shown = False, imgs = []\<rparr>] = (rows', None) \<and>
     inherit_step (js ''c'') [] True rows'"
  using toggleInherit_flips [of "js ''c''" "[]" False
     "[\<lparr>mr_classes = [js ''inherit_header'', js ''c''], mr_shown = True, imgs = [js ''closed.png'']\<rparr>,
      \<lparr>mr_classes = [js ''inherit'', js ''c''], mr_shown = False, imgs = []\<rparr>]"]
  by (simp add: inherit_step_def is_inherited_def is_inherit_header_def hasClass_def)

end
