(* ===== verification/Dyn_Tree.thy ===== *)
theory Dyn_Tree
  imports Dyn_Sections
begin

text \<open>
  The directory table as a tree: a row's id is the path of its numbers, \<open>row_0_2_1_\<close> for the
  path 0, 2, 1. The folding of \<^verbatim>\<open>dynsections.js\<close> keeps the table a tree on the screen:
  a row that shows has its parent showing.
\<close>

section \<open>Paths and ids\<close>

definition path_id :: "nat list \<Rightarrow> jsstring" where
  "path_id ns = concat (map (\<lambda>n. nat_to_string n @ [95]) ns)"

definition row_name :: "nat list \<Rightarrow> jsstring" where
  "row_name ns = js ''row_'' @ path_id ns"

lemma digit_units: "c \<in> set (nat_to_string n) \<Longrightarrow> is_digit_unit c \<and> c \<noteq> 95 \<and> ascii_lower c = c"
  using nat_to_string_digits [of c n] by (auto simp: is_digit_unit_def word_le_nat_alt ascii_lower_def)

lemma number_prefix_free: "prefix (nat_to_string m @ [95]) (nat_to_string n @ [95]) \<Longrightarrow> m = n"
proof -
  assume "prefix (nat_to_string m @ [95]) (nat_to_string n @ [95])"
  then obtain zs where zs: "nat_to_string n @ [95] = nat_to_string m @ 95 # zs" by (auto simp: prefix_def)
  have "takeWhile (\<lambda>c. c \<noteq> 95) (nat_to_string k @ 95 # ys) = nat_to_string k" for k ys
    using digit_units by (subst takeWhile_append2) auto
  from this [of n "[]"] this [of m zs] zs show "m = n" by simp
qed

interpretation num: prefix_code "\<lambda>n. nat_to_string n @ [95]"
  by unfold_locales (simp_all add: number_prefix_free)

lemma row_name_prefix: "prefix (row_name ns) (row_name ms) \<longleftrightarrow> prefix ns ms"
  by (simp add: row_name_def path_id_def num.encode_prefix_iff)

lemma row_name_inject: "row_name ns = row_name ms \<longleftrightarrow> ns = ms"
  by (simp add: row_name_def path_id_def num.encode_inject)

lemma path_id_simps: "path_id [] = []" "path_id (n # ns) = nat_to_string n @ 95 # path_id ns"
  by (simp_all add: path_id_def)

lemma path_id_eq_Nil: "path_id ns = [] \<longleftrightarrow> ns = []"
  by (cases ns) (simp_all add: path_id_simps)

lemma row_name_lower: "map ascii_lower (row_name ns) = row_name ns"
proof -
  have "map ascii_lower (path_id ns) = path_id ns"
    using digit_units by (induction ns) (auto simp: path_id_simps ascii_lower_def intro: map_idI)
  then show ?thesis by (simp add: row_name_def js_def ascii_lower_def)
qed

lemma is_sub_row_path: "is_sub_row (path_id ns) (row_name ms) \<longleftrightarrow> (\<exists>k. ms = ns @ [k])"
proof -
  let ?p = "row_name ns"
  have lower: "map ascii_lower (js ''row_'' @ path_id ns) = ?p"
    using row_name_lower by (simp add: row_name_def)
  have take_lower: "map ascii_lower (take k (row_name ms)) = take k (row_name ms)" for k
    by (metis row_name_lower take_map)
  have pre: "take (length ?p) (row_name ms) = ?p \<longleftrightarrow> prefix ns ms"
    by (metis append_take_drop_id prefixI row_name_prefix take_eq_iff_prefix)
  have digits: "takeWhile is_digit_unit (nat_to_string k @ 95 # ys) = nat_to_string k" for k ys
    using digit_units by (subst takeWhile_append2) (auto simp: is_digit_unit_def)
  have rest: "(takeWhile is_digit_unit (path_id ks) \<noteq> [] \<and>
      drop (length (takeWhile is_digit_unit (path_id ks))) (path_id ks) = js ''_'') \<longleftrightarrow> (\<exists>k. ks = [k])" for ks
    by (cases ks) (auto simp: path_id_simps digits js_def path_id_eq_Nil)
  have split: "drop (length ?p) (row_name (ns @ ks)) = path_id ks" for ks
    by (simp add: row_name_def path_id_def)
  show ?thesis
  proof (cases "prefix ns ms")
    case True
    then obtain ks where "ms = ns @ ks" by (auto simp: prefix_def)
    with pre True show ?thesis
      using rest [of ks] unfolding is_sub_row_def Let_def lower take_lower by (simp add: split)
  next
    case False
    with pre show ?thesis unfolding is_sub_row_def Let_def lower take_lower by auto
  qed
qed

section \<open>Tables\<close>

text \<open>The paths of a table: distinct, and every parent comes before its children.\<close>

definition tree_order :: "nat list list \<Rightarrow> bool" where
  "tree_order nss \<longleftrightarrow> distinct nss \<and> (\<forall>xs ms ys. nss = xs @ ms # ys \<longrightarrow> 1 < length ms \<longrightarrow> butlast ms \<in> set xs)"

definition visible :: "trow list \<Rightarrow> nat list set" where
  "visible rows = {ns. \<exists>r \<in> set rows. tr_id r = row_name ns \<and> shown r}"

definition visible_ok :: "nat list set \<Rightarrow> bool" where
  "visible_ok V \<longleftrightarrow> (\<forall>ms \<in> V. 1 < length ms \<longrightarrow> butlast ms \<in> V)"

lemma below_after:
  assumes order: "tree_order (xs @ ns # ys)" and "strict_prefix ns ms" and "ms \<in> set (xs @ ns # ys)"
    and "ns \<noteq> []"
  shows "ms \<in> set ys"
  using assms(2,3)
proof (induction "length ms" arbitrary: ms rule: less_induct)
  case less
  show ?case
  proof (rule ccontr)
    assume "ms \<notin> set ys"
    with less.prems have "ms \<in> set xs" by auto
    then obtain a b where ab: "xs = a @ ms # b" by (auto dest: split_list)
    have len: "1 < length ms"
      using less.prems(1) assms(4) by (metis One_nat_def Suc_lessI length_greater_0_conv prefix_length_less less_trans_Suc not_less_iff_gr_or_eq)
    with order ab have parent: "butlast ms \<in> set xs" unfolding tree_order_def by auto
    have dist: "distinct (xs @ ns # ys)" using order by (simp add: tree_order_def)
    have "prefix ns (butlast ms)" using less.prems(1)
      by (cases ms rule: rev_cases) (auto simp: strict_prefix_def)
    then consider "ns = butlast ms" | "strict_prefix ns (butlast ms)" by (auto simp: strict_prefix_def)
    then show False
    proof cases
      case 1
      with parent dist show False by auto
    next
      case 2
      have "butlast ms \<in> set ys" using len parent by (intro less.hyps [OF _ 2]) auto
      with parent dist show False by auto
    qed
  qed
qed

lemma visible_zip: "visible rows = {ns. (row_name ns, True) \<in> set (zip (map tr_id rows) (map shown rows))}"
  by (force simp: visible_def zip_map_map zip_same_conv_map)

text \<open>What a click on a folder does to the set of paths that show.\<close>

lemma toggleFolder_visible:
  assumes rows: "rows = before @ cur # rest" and cur: "tr_id cur = row_name ns"
    and first: "\<forall>x \<in> set before. tr_id x \<noteq> tr_id cur"
  obtains "visible (toggleFolder (path_id ns) rows) =
      visible (before @ [cur]) \<union> {ms \<in> visible rest. \<not> prefix ns ms}"
  | "visible (toggleFolder (path_id ns) rows) =
      visible (before @ [cur]) \<union> visible rest \<union> {ms. (\<exists>r \<in> set rest. tr_id r = row_name ms) \<and> (\<exists>k. ms = ns @ [k])}"
proof -
  define f where "f = (\<lambda>r :: trow. if (\<exists>c cs. filter (\<lambda>r. is_sub_row (path_id ns) (tr_id r)) rest = c # cs \<and> shown c)
    then shown r \<and> \<not> prefix (row_name ns) (tr_id r) else shown r \<or> is_sub_row (path_id ns) (tr_id r))"
  have "map shown (toggleFolder (path_id ns) rows) = map shown before @ shown cur # map f rest"
    using folder_shown [of cur "path_id ns" before rest] cur first by (auto simp: rows f_def row_name_def)
  moreover have "map tr_id (toggleFolder (path_id ns) rows) = map tr_id before @ tr_id cur # map tr_id rest"
    by (simp add: folder_ids rows)
  ultimately have zip: "zip (map tr_id (toggleFolder (path_id ns) rows)) (map shown (toggleFolder (path_id ns) rows)) =
      map (\<lambda>r. (tr_id r, shown r)) before @ (tr_id cur, shown cur) # map (\<lambda>r. (tr_id r, f r)) rest"
    by (simp add: zip_map_map zip_same_conv_map)
  have vis: "visible (toggleFolder (path_id ns) rows) =
      visible (before @ [cur]) \<union> {ms. \<exists>r \<in> set rest. tr_id r = row_name ms \<and> f r}"
    by (simp only: visible_zip [of "toggleFolder (path_id ns) rows"] zip) (auto simp: visible_def image_iff)
  show thesis
  proof (cases "\<exists>c cs. filter (\<lambda>r. is_sub_row (path_id ns) (tr_id r)) rest = c # cs \<and> shown c")
    case True
    with vis have "visible (toggleFolder (path_id ns) rows) =
        visible (before @ [cur]) \<union> {ms \<in> visible rest. \<not> prefix ns ms}"
      by (auto simp: f_def visible_def row_name_prefix)
    then show thesis by (rule that(1))
  next
    case False
    have "{ms. \<exists>r \<in> set rest. tr_id r = row_name ms \<and> f r} =
        visible rest \<union> {ms. (\<exists>r \<in> set rest. tr_id r = row_name ms) \<and> (\<exists>k. ms = ns @ [k])}"
      unfolding f_def if_not_P [OF False] visible_def by (auto simp: is_sub_row_path)
    then show thesis using vis that(2) by (simp add: Un_assoc)
  qed
qed

text \<open>
  C21. Folding keeps the table a tree on the screen: when every row that shows has its parent showing,
  then also after a click on a folder that shows.
\<close>

theorem toggleFolder_tree:
  assumes ids: "map tr_id rows = map row_name nss" and order: "tree_order nss" and nonempty: "[] \<notin> set nss"
    and ok: "visible_ok (visible rows)" and ns: "ns \<in> visible rows"
  shows "visible_ok (visible (toggleFolder (path_id ns) rows))"
proof -
  have names: "ms \<in> set nss" if "ms \<in> visible rows" for ms
  proof -
    have "row_name ms \<in> set (map tr_id rows)" using that by (auto simp: visible_def) (metis image_eqI)
    then show ?thesis by (auto simp: ids row_name_inject)
  qed
  obtain xs ys where nss: "nss = xs @ ns # ys" using names [OF ns] by (auto dest: split_list)
  obtain before cur rest where rows: "rows = before @ cur # rest" and b: "map tr_id before = map row_name xs"
    and c: "tr_id cur = row_name ns" and r: "map tr_id rest = map row_name ys"
    using ids nss by (auto simp: map_eq_append_conv map_eq_Cons_conv)
  have dist: "distinct (xs @ ns # ys)" using order nss by (simp add: tree_order_def)
  have in_rest: "(\<exists>x \<in> set rest. tr_id x = row_name ms) \<longleftrightarrow> ms \<in> set ys" for ms
  proof -
    have "(\<exists>x \<in> set rest. tr_id x = row_name ms) \<longleftrightarrow> row_name ms \<in> set (map tr_id rest)" by (auto simp: image_iff) metis
    then show ?thesis by (auto simp: r row_name_inject)
  qed
  have in_before: "(\<exists>x \<in> set before. tr_id x = row_name ms) \<longleftrightarrow> ms \<in> set xs" for ms
  proof -
    have "(\<exists>x \<in> set before. tr_id x = row_name ms) \<longleftrightarrow> row_name ms \<in> set (map tr_id before)" by (auto simp: image_iff) metis
    then show ?thesis by (auto simp: b row_name_inject)
  qed
  have first: "\<forall>x \<in> set before. tr_id x \<noteq> tr_id cur" using in_before [of ns] c dist by auto
  have V: "visible rows = visible (before @ [cur]) \<union> visible rest" by (auto simp: rows visible_def)
  have below: "ms \<in> set ys" if "strict_prefix ns ms" "ms \<in> set nss" for ms
    using below_after [of xs ns ys ms] order that nonempty by (auto simp: nss)
  have rest_ys: "ms \<in> set ys" if "ms \<in> visible rest" for ms using that in_rest by (auto simp: visible_def)
  have top: "ms \<notin> set ys" if "ms \<in> visible (before @ [cur])" for ms
    using that in_before c dist by (auto simp: visible_def row_name_inject)
  have parent_kept: "\<not> prefix ns (butlast ms)"
    if "ms \<in> visible (before @ [cur]) \<or> \<not> prefix ns ms" "ms \<in> visible rows" "butlast ms \<in> visible rest" for ms
  proof
    assume "prefix ns (butlast ms)"
    then have p: "prefix ns ms" by (metis prefix_order.trans prefixeq_butlast)
    moreover have "ms \<noteq> ns" using \<open>prefix ns (butlast ms)\<close> nonempty names [OF ns]
      by (metis append_butlast_last_id not_Cons_self2 prefix_order.antisym prefixeq_butlast self_append_conv)
    ultimately have "ms \<in> set ys" using below names [OF that(2)] by (auto simp: strict_prefix_def)
    with that(1) top p show False by blast
  qed
  show ?thesis
    using rows c first
  proof (rule toggleFolder_visible)
    assume hid: "visible (toggleFolder (path_id ns) rows) = visible (before @ [cur]) \<union> {ms \<in> visible rest. \<not> prefix ns ms}"
    show ?thesis
      using ok parent_kept unfolding hid visible_ok_def V by blast
  next
    assume new: "visible (toggleFolder (path_id ns) rows) =
        visible (before @ [cur]) \<union> visible rest \<union> {ms. (\<exists>r \<in> set rest. tr_id r = row_name ms) \<and> (\<exists>k. ms = ns @ [k])}"
    show ?thesis
      using ok ns unfolding new visible_ok_def V by auto
  qed
qed

theorem toggleFolder_tree_witness: "visible_ok (visible (toggleFolder (path_id [0]) sample_rows))"
proof -
  have name: "row_name [0] = js ''row_0_''" "row_name [0, 0] = js ''row_0_0_''" "row_name [0, 0, 0] = js ''row_0_0_0_''"
    "row_name [1] = js ''row_1_''"
    by (simp_all add: row_name_def path_id_def nat_to_string.simps js_def)
  then have ids: "map tr_id sample_rows = map row_name [[0], [0, 0], [0, 0, 0], [1]]" by (simp add: sample_rows_def)
  have order: "tree_order [[0], [0, 0], [0, 0, 0], [1]]"
    by (auto simp: tree_order_def Cons_eq_append_conv)
  have "visible sample_rows = {[0], [0, 0], [0, 0, 0], [1]}"
    by (auto simp: visible_def sample_rows_def name [symmetric] row_name_inject)
  then show ?thesis
    using toggleFolder_tree [OF ids order, of "[0]"] by (auto simp: visible_ok_def)
qed

end
