(* ===== verification/C_Memory.thy ===== *)
theory C_Memory
  imports Prelude
begin

text \<open>
  Memory as the C sources use it: a pointer into a buffer is an offset, reading outside of the buffer
  is an error of its own, and so are using a null pointer, using a block that is not allocated and
  calling a function that never returns. A C string is a buffer whose first null character is its end.
\<close>

datatype mem_error = OutOfBounds | NullPointer | Dangling | NoReturn

abbreviation (input) NUL :: char where "NUL \<equiv> CHR 0x00"

definition rd :: "char list \<Rightarrow> nat \<Rightarrow> mem_error + char" where
  "rd m d = (if d < length m then Inr (m ! d) else Inl OutOfBounds)"

lemma rd_Inr_less: "rd m d = Inr c \<Longrightarrow> d < length m"
  by (simp add: rd_def split: if_splits)

lemma rd_less_diff [termination_simp]: "rd m d = Inr c \<Longrightarrow> length m - Suc d < length m - d"
  by (auto dest: rd_Inr_less)

lemma rd_at [simp]: "rd (xs @ c # ys) (length xs) = Inr c"
  by (simp add: rd_def nth_append)

text \<open>Reading and writing several bytes from an offset on.\<close>

definition peek :: "char list \<Rightarrow> nat \<Rightarrow> nat \<Rightarrow> mem_error + char list" where
  "peek m d n = (if d + n \<le> length m then Inr (take n (drop d m)) else Inl OutOfBounds)"

definition poke :: "char list \<Rightarrow> nat \<Rightarrow> char list \<Rightarrow> mem_error + char list" where
  "poke m d xs =
     (if d + length xs \<le> length m then Inr (take d m @ xs @ drop (d + length xs) m) else Inl OutOfBounds)"

lemma poke_length: "poke m d xs = Inr m' \<Longrightarrow> length m' = length m"
  by (auto simp: poke_def split: if_splits)

lemma poke_total: "d + length xs \<le> length m \<Longrightarrow> \<exists>m'. poke m d xs = Inr m'"
  by (simp add: poke_def)

lemma poke_take: "poke m d xs = Inr m' \<Longrightarrow> e \<le> d \<Longrightarrow> take e m' = take e m"
  by (auto simp: poke_def split: if_splits)

lemma poke_nth: "poke m d xs = Inr m' \<Longrightarrow> k < length xs \<Longrightarrow> m' ! (d + k) = xs ! k"
  by (auto simp: poke_def nth_append split: if_splits)

lemma poke_nul_drop:
  assumes "poke buf (s + n) [NUL] = Inr buf1"
  shows "drop s buf1 = take n (drop s buf) @ NUL # drop (Suc (s + n)) buf"
  using assms by (auto simp: poke_def drop_append drop_take split: if_splits)

text \<open>\<open>strncmp(m + d, key, strlen(key)) == 0\<close>: the comparison stops at the first difference.\<close>

fun strncmp_eq :: "char list \<Rightarrow> nat \<Rightarrow> string \<Rightarrow> mem_error + bool" where
  "strncmp_eq m d [] = Inr True"
| "strncmp_eq m d (k # ks) =
     bindE (rd m d) (\<lambda>c. if c = k then strncmp_eq m (Suc d) ks else Inr False)"

text \<open>A buffer that holds the string \<open>s\<close> and its terminator from offset \<open>d\<close> on.\<close>

definition holds :: "char list \<Rightarrow> nat \<Rightarrow> string \<Rightarrow> bool" where
  "holds m d s \<longleftrightarrow> NUL \<notin> set s \<and> (\<exists>pre post. m = pre @ s @ NUL # post \<and> length pre = d)"

lemma holds_Cons: "holds m d (c # s) \<Longrightarrow> rd m d = Inr c \<and> c \<noteq> NUL \<and> holds m (Suc d) s"
  unfolding holds_def by (force intro: exI [of _ "_ @ [c]"])

lemma holds_Nil: "holds m d [] \<Longrightarrow> rd m d = Inr NUL"
  by (auto simp: holds_def)

lemma holds_append: "holds m d (s @ t) \<Longrightarrow> holds m (d + length s) t"
  unfolding holds_def by (force intro: exI [of _ "_ @ s"])

lemma holds_cstring: "NUL \<notin> set s \<Longrightarrow> holds (s @ [NUL]) 0 s"
  by (simp add: holds_def)

lemma strncmp_eq_holds:
  "holds m d s \<Longrightarrow> NUL \<notin> set key \<Longrightarrow> strncmp_eq m d key = Inr (prefix key s)"
proof (induction key arbitrary: d s)
  case (Cons k key)
  show ?case
  proof (cases s)
    case Nil
    with Cons.prems show ?thesis by (auto simp: holds_Nil)
  next
    case (Cons c t)
    with Cons.prems Cons.IH [of "Suc d" t] show ?thesis
      using holds_Cons [of m d c t] by auto
  qed
qed simp

text \<open>The string in an array.\<close>

definition c_string :: "char list \<Rightarrow> string" where
  "c_string m = takeWhile (\<lambda>c. c \<noteq> NUL) m"

lemma c_string_no_nul [simp]: "NUL \<notin> set (c_string m)"
  by (auto simp: c_string_def dest: set_takeWhileD)

section \<open>Character classes\<close>

text \<open>The functions of \<^verbatim>\<open>ctype.h\<close> in the C locale, and the comparison without case.\<close>

definition isdigit :: "char \<Rightarrow> bool" where
  "isdigit c \<longleftrightarrow> 48 \<le> (of_char c :: nat) \<and> of_char c \<le> (57 :: nat)"

definition isupper :: "char \<Rightarrow> bool" where
  "isupper c \<longleftrightarrow> 65 \<le> (of_char c :: nat) \<and> of_char c \<le> (90 :: nat)"

definition isalnum :: "char \<Rightarrow> bool" where
  "isalnum c \<longleftrightarrow> isdigit c \<or> isupper c \<or> 97 \<le> (of_char c :: nat) \<and> of_char c \<le> (122 :: nat)"

definition tolower :: "char \<Rightarrow> int" where
  "tolower c = (if isupper c then of_char c + 32 else of_char c)"

definition strncasecmp_eq :: "string \<Rightarrow> string \<Rightarrow> nat \<Rightarrow> bool" where
  "strncasecmp_eq s t n \<longleftrightarrow> map tolower (take n (s @ [NUL])) = map tolower (take n (t @ [NUL]))"

text \<open>Numbers in texts: blanks, a sign, and the digits.\<close>

definition digits_value :: "string \<Rightarrow> int" where
  "digits_value s = foldl (\<lambda>n c. 10 * n + (of_char c - 48)) 0 (takeWhile isdigit s)"

definition atoi :: "string \<Rightarrow> int" where
  "atoi s =
     (let t = dropWhile (\<lambda>c. c = CHR '' '' \<or> c \<in> {CHR 0x09, CHR 0x0A, CHR 0x0B, CHR 0x0C, CHR 0x0D}) s in
      case t of
        [] \<Rightarrow> 0
      | c # u \<Rightarrow> if c = CHR ''-'' then - digits_value u else if c = CHR ''+'' then digits_value u else digits_value t)"

fun decimal :: "nat \<Rightarrow> string" where
  "decimal n = (if n < 10 then [char_of (48 + n)] else decimal (n div 10) @ [char_of (48 + n mod 10)])"

declare decimal.simps [simp del]

end
