(* ===== verification/Url_Encode.thy ===== *)
theory Url_Encode
  imports C_Memory
begin

text \<open>
  \<^verbatim>\<open>cc3200/samples/blink/urlencode.c\<close>: percent encoding of query strings. A pointer into a
  C string is the memory from there on, so that running off its end shows. Bytes are characters; the
  shift of a negative \<open>char\<close> and the masks that follow it keep the same four bits for both signs.
\<close>

unbundle bit_operations_syntax

section \<open>Definitions\<close>

text \<open>The result of \<open>fromHex\<close> is a \<open>char\<close>: only its lower eight bits are kept.\<close>

definition fromHex :: "char \<Rightarrow> int" where
  "fromHex ch = (if isdigit ch then of_char ch - 48 else tolower ch - 97 + 10) mod 256"

definition toHex :: "nat \<Rightarrow> char" where
  "toHex code = ''0123456789abcdef'' ! (code mod 16)"

definition unreserved :: "char \<Rightarrow> bool" where
  "unreserved c \<longleftrightarrow> isalnum c \<or> c = CHR ''-'' \<or> c = CHR ''_'' \<or> c = CHR ''.'' \<or> c = CHR ''~''"

definition encode_char :: "char \<Rightarrow> string" where
  "encode_char c =
     (if unreserved c then [c]
      else if c = CHR '' '' then ''+''
      else [CHR ''%'', toHex (of_char c div 16), toHex (of_char c mod 16)])"

fun urlEncode :: "char list \<Rightarrow> mem_error + char list" where
  "urlEncode [] = Inl OutOfBounds"
| "urlEncode (c # pstr) =
     (if c = NUL then Inr [NUL]
      else bindE (urlEncode pstr) (\<lambda>buf. Inr (encode_char c @ buf)))"

fun urlDecode :: "char list \<Rightarrow> mem_error + char list" where
  "urlDecode [] = Inl OutOfBounds"
| "urlDecode (c # pstr) =
     (if c = NUL then Inr [NUL]
      else if c = CHR ''%'' then
        (case pstr of
           [] \<Rightarrow> Inl OutOfBounds
         | a # pstr1 \<Rightarrow>
             if a = NUL then urlDecode pstr
             else case pstr1 of
               [] \<Rightarrow> Inl OutOfBounds
             | b # pstr2 \<Rightarrow>
                 if b = NUL then urlDecode pstr
                 else bindE (urlDecode pstr2)
                        (\<lambda>buf. Inr (char_of (push_bit 4 (fromHex a) OR fromHex b) # buf)))
      else bindE (urlDecode pstr) (\<lambda>buf. Inr ((if c = CHR ''+'' then CHR '' '' else c) # buf)))"

section \<open>One character\<close>

lemma fromHex_toHex: "fromHex (toHex n) = int (n mod 16)" "toHex n \<noteq> NUL"
proof -
  have hex: "fromHex (''0123456789abcdef'' ! k) = int k \<and> ''0123456789abcdef'' ! k \<noteq> NUL" if "k < 16" for k
  proof -
    from that have "k = 0 \<or> k = 1 \<or> k = 2 \<or> k = 3 \<or> k = 4 \<or> k = 5 \<or> k = 6 \<or> k = 7 \<or> k = 8 \<or> k = 9 \<or>
      k = 10 \<or> k = 11 \<or> k = 12 \<or> k = 13 \<or> k = 14 \<or> k = 15" by arith
    then show ?thesis by (auto simp: fromHex_def isdigit_def tolower_def isupper_def)
  qed
  have "n mod 16 < 16" by simp
  from hex [OF this] show "fromHex (toHex n) = int (n mod 16)" "toHex n \<noteq> NUL"
    by (simp_all add: toHex_def)
qed

lemma nibbles_or:
  fixes a b :: int
  assumes "0 \<le> b" "b < 16"
  shows "push_bit 4 a OR b = 16 * a + b"
proof -
  have "push_bit 4 a AND b = 0"
  proof (rule bit_eqI)
    fix n
    have "b = take_bit 4 b" using assms by (simp add: take_bit_int_eq_self)
    then have "bit b n \<Longrightarrow> n < 4" by (metis bit_take_bit_iff)
    then show "bit (push_bit 4 a AND b) n = bit 0 n" by (auto simp: bit_simps)
  qed
  then show ?thesis
    using disjunctive_add_eq_or [of "push_bit 4 a" b] by (simp add: push_bit_eq_mult)
qed

lemma decode_nibbles:
  "char_of (push_bit 4 (fromHex (toHex (of_char c div 16))) OR fromHex (toHex (of_char c mod 16))) = c"
proof -
  let ?n = "of_char c :: nat"
  have "?n < 256" by (metis of_char_mod_256 mod_less_divisor zero_less_numeral)
  then have "?n div 16 < 16" by (intro less_mult_imp_div_less) simp
  then have "?n div 16 mod 16 = ?n div 16" "?n mod 16 mod 16 = ?n mod 16" by simp_all
  moreover have "push_bit 4 (int (?n div 16)) OR int (?n mod 16) = int ?n"
    by (subst nibbles_or) (simp_all add: zdiv_int zmod_int)
  ultimately show ?thesis by (simp add: fromHex_toHex)
qed

lemma unreserved_not: "unreserved c \<Longrightarrow> c \<notin> {NUL, CHR ''%'', CHR ''+''}"
  by (auto simp: unreserved_def isalnum_def isdigit_def isupper_def)

lemma urlDecode_encode_char:
  "urlDecode (encode_char c @ buf) = bindE (urlDecode buf) (\<lambda>r. Inr (c # r))"
  using unreserved_not [of c] decode_nibbles [of c] fromHex_toHex(2)
  by (auto simp: encode_char_def)

lemma encode_char_safe: "c' \<in> set (encode_char c) \<Longrightarrow> unreserved c' \<or> c' = CHR ''%'' \<or> c' = CHR ''+''"
proof -
  have "unreserved (''0123456789abcdef'' ! k)" if "k < 16" for k
  proof -
    from that have "''0123456789abcdef'' ! k \<in> set ''0123456789abcdef''" by (intro nth_mem) simp
    then show ?thesis
      by (auto simp: unreserved_def isalnum_def isdigit_def isupper_def)
  qed
  then have "unreserved (toHex n)" for n by (simp add: toHex_def)
  then show "c' \<in> set (encode_char c) \<Longrightarrow> ?thesis" by (auto simp: encode_char_def split: if_splits)
qed

lemma encode_char_length: "length (encode_char c) \<le> 3"
  by (simp add: encode_char_def)

section \<open>Strings\<close>

text \<open>Decoding a terminated string always succeeds and terminates its output.\<close>

lemma urlDecode_total: "\<exists>r. urlDecode (xs @ NUL # ys) = Inr (r @ [NUL])"
proof (induction xs rule: length_induct)
  case (1 xs)
  then have IH: "length zs < length xs \<Longrightarrow> \<exists>r. urlDecode (zs @ NUL # ys) = Inr (r @ [NUL])" for zs by blast
  show ?case
  proof (cases xs)
    case (Cons c cs)
    from IH [of cs] Cons obtain r where r: "urlDecode (cs @ NUL # ys) = Inr (r @ [NUL])" by auto
    consider "cs = []" | a where "cs = [a]" | a b ds where "cs = a # b # ds"
      by (metis neq_Nil_conv)
    then show ?thesis
    proof cases
      case 3
      from IH [of ds] 3 Cons obtain s where "urlDecode (ds @ NUL # ys) = Inr (s @ [NUL])" by auto
      with r 3 Cons show ?thesis by (auto simp del: urlDecode.simps(2) simp add: urlDecode.simps(2) [of c] intro!: exI)
    qed (use r Cons in \<open>auto simp: urlDecode.simps(2) [of c]\<close>)
  qed simp
qed

definition decoded :: "string \<Rightarrow> string" where
  "decoded xs = (case urlDecode (xs @ [NUL]) of Inl _ \<Rightarrow> [] | Inr buf \<Rightarrow> butlast buf)"

interpretation url: codec encode_char decoded
proof
  show "decoded [] = []" by (simp add: decoded_def)
  show "decoded (encode_char a @ xs) = a # decoded xs" for a xs
    using urlDecode_total [of xs "[]"] by (auto simp: decoded_def urlDecode_encode_char)
qed

lemma urlEncode_string: "NUL \<notin> set s \<Longrightarrow> urlEncode (s @ NUL # ys) = Inr (concat (map encode_char s) @ [NUL])"
  by (induction s) auto

lemma urlDecode_decoded: "urlDecode (xs @ [NUL]) = Inr (decoded xs @ [NUL])"
  using urlDecode_total [of xs "[]"] by (auto simp: decoded_def)

lemma encoded_length: "length (concat (map encode_char s)) \<le> 3 * length s"
proof (induction s)
  case (Cons c s)
  then show ?case using encode_char_length [of c] by simp
qed simp

section \<open>Correctness\<close>

text \<open>
  C25. Percent encoding is safe and can be undone: a C string is encoded into at most three bytes per
  character and a terminator, all of them unreserved characters, percent signs or plus signs;
  decoding the result gives the string back, and different strings have different encodings.
\<close>

theorem urlEncode_round_trip:
  assumes "NUL \<notin> set s" "NUL \<notin> set t"
  shows "\<exists>e. urlEncode (s @ NUL # ys) = Inr (e @ [NUL]) \<and> urlDecode (e @ [NUL]) = Inr (s @ [NUL]) \<and>
    length e \<le> 3 * length s \<and> list_all (\<lambda>c. unreserved c \<or> c = CHR ''%'' \<or> c = CHR ''+'') e \<and>
    (urlEncode (t @ NUL # zs) = Inr (e @ [NUL]) \<longleftrightarrow> t = s)"
  using urlEncode_string [OF assms(1)] urlEncode_string [OF assms(2)] encoded_length [of s]
    url.dec_encode [of s] url.encode_inject [of t s]
  by (auto simp: urlDecode_decoded list_all_iff dest!: encode_char_safe)

theorem urlEncode_round_trip_witness:
  "urlEncode (''a b&'' @ [NUL]) = Inr (''a+b%26'' @ [NUL]) \<and> urlDecode (''a+b%26'' @ [NUL]) = Inr (''a b&'' @ [NUL])"
proof -
  have e: "urlEncode (''a b&'' @ [NUL]) = Inr (''a+b%26'' @ [NUL])"
    by (simp add: encode_char_def unreserved_def isalnum_def isdigit_def isupper_def toHex_def)
  obtain x where x: "urlEncode (''a b&'' @ [NUL]) = Inr (x @ [NUL])" "urlDecode (x @ [NUL]) = Inr (''a b&'' @ [NUL])"
    using urlEncode_round_trip [of "''a b&''" "''a''" "[]" "[]"] by (auto simp del: urlEncode.simps urlDecode.simps)
  with e have "x = ''a+b%26''" by (simp del: urlEncode.simps urlDecode.simps)
  with e x show ?thesis by (simp only: simp_thms)
qed

end
