(* ===== verification/Simple_Json.thy ===== *)
theory Simple_Json
  imports C_Memory
begin

text \<open>
  \<^verbatim>\<open>common/simplejson.c\<close>: the lightweight JSON scanner of the SDKs. The four scanning
  functions return offsets into the buffer; \<open>simpleJsonProcessor\<close> finds the value of a key and
  copies it. Every read of a byte is explicit, so that reading past the end of a buffer shows.
\<close>

section \<open>Beginning and end of an object\<close>

function findJsonBeginningParams ::
  "char list \<Rightarrow> nat \<Rightarrow> nat \<Rightarrow> bool \<Rightarrow> nat \<Rightarrow> mem_error + (nat option \<times> bool \<times> nat)" where
  "findJsonBeginningParams m sz data inString pos =
     bindE (rd m data) (\<lambda>c.
       if c = NUL \<or> \<not> pos < sz then Inr (None, inString, pos)
       else if c = CHR ''{'' \<and> \<not> inString then Inr (Some data, inString, pos)
       else if c = CHR 0x22 then findJsonBeginningParams m sz (Suc data) (\<not> inString) (Suc pos)
       else if c = CHR 0x5C \<and> inString then
         bindE (rd m (Suc data)) (\<lambda>e.
           if e \<noteq> NUL then findJsonBeginningParams m sz (Suc (Suc data)) inString (Suc (Suc pos))
           else findJsonBeginningParams m sz (Suc data) inString (Suc pos))
       else findJsonBeginningParams m sz (Suc data) inString (Suc pos))"
  by pat_completeness auto
termination
  by (relation "measure (\<lambda>(m, sz, data, inString, pos). length m - data)") (auto dest!: rd_Inr_less)

function findJsonEndParams ::
  "char list \<Rightarrow> nat \<Rightarrow> nat \<Rightarrow> bool \<Rightarrow> int \<Rightarrow> nat \<Rightarrow> mem_error + (nat option \<times> bool \<times> int \<times> nat)" where
  "findJsonEndParams m sz data inString level pos =
     bindE (rd m data) (\<lambda>c.
       if c = NUL \<or> \<not> pos < sz then Inr (None, inString, level, pos)
       else if c = CHR ''{'' then
         findJsonEndParams m sz (Suc data) inString (if inString then level else level + 1) (Suc pos)
       else if c = CHR ''}'' then
         (let level = (if inString then level else level - 1) in
          if level = 0 then Inr (Some (Suc data), inString, level, pos)
          else findJsonEndParams m sz (Suc data) inString level (Suc pos))
       else if c = CHR 0x22 then findJsonEndParams m sz (Suc data) (\<not> inString) level (Suc pos)
       else if c = CHR 0x5C \<and> inString then
         bindE (rd m (Suc data)) (\<lambda>e.
           if e \<noteq> NUL then findJsonEndParams m sz (Suc (Suc data)) inString level (Suc (Suc pos))
           else findJsonEndParams m sz (Suc data) inString level (Suc pos))
       else findJsonEndParams m sz (Suc data) inString level (Suc pos))"
  by pat_completeness auto
termination
  by (relation "measure (\<lambda>(m, sz, data, inString, level, pos). length m - data)") (auto dest!: rd_Inr_less)

declare findJsonBeginningParams.simps [simp del] findJsonEndParams.simps [simp del]

text \<open>\<open>strlen\<close> reads up to the terminator.\<close>

function strlen_from :: "char list \<Rightarrow> nat \<Rightarrow> mem_error + nat" where
  "strlen_from m d =
     bindE (rd m d) (\<lambda>c. if c = NUL then Inr 0 else bindE (strlen_from m (Suc d)) (\<lambda>n. Inr (Suc n)))"
  by pat_completeness auto
termination
  by (relation "measure (\<lambda>(m, d). length m - d)") (auto dest!: rd_Inr_less)

declare strlen_from.simps [simp del]

definition findJsonBeginning :: "char list \<Rightarrow> nat \<Rightarrow> mem_error + nat option" where
  "findJsonBeginning m data =
     bindE (strlen_from m data) (\<lambda>n.
     bindE (findJsonBeginningParams m n data False 0) (\<lambda>(r, _). Inr r))"

definition findJsonEnd :: "char list \<Rightarrow> nat \<Rightarrow> mem_error + nat option" where
  "findJsonEnd m data =
     bindE (strlen_from m data) (\<lambda>n.
     bindE (findJsonEndParams m n data False 0 0) (\<lambda>(r, _). Inr r))"

definition findSecondJson :: "char list \<Rightarrow> nat \<Rightarrow> mem_error + nat option" where
  "findSecondJson m data =
     bindE (findJsonBeginning m data) (\<lambda>b.
       case b of
         None \<Rightarrow> Inr None
       | Some b \<Rightarrow>
           bindE (findJsonEnd m b) (\<lambda>e.
             case e of None \<Rightarrow> Inr None | Some e \<Rightarrow> findJsonBeginning m e))"

definition isCompleteJson :: "char list \<Rightarrow> nat \<Rightarrow> mem_error + bool" where
  "isCompleteJson m data =
     bindE (findJsonBeginning m data) (\<lambda>b.
       case b of None \<Rightarrow> Inr False | Some b \<Rightarrow> bindE (findJsonEnd m b) (\<lambda>e. Inr (e \<noteq> None)))"

text \<open>The result of \<open>getPushJson\<close>: the returned pointer, \<open>*start\<close> and \<open>*length\<close>.\<close>

definition getPushJson :: "char list \<Rightarrow> nat \<Rightarrow> mem_error + (nat option \<times> int \<times> int)" where
  "getPushJson m dataSize =
     bindE (findJsonBeginningParams m dataSize 0 False 0) (\<lambda>(beginning, _, pos).
       case beginning of
         None \<Rightarrow> Inr (None, -1, -1)
       | Some _ \<Rightarrow>
           bindE (findJsonEndParams m (dataSize - pos) pos False 0 0) (\<lambda>(end, _, _, endPos).
             Inr (Some pos, int pos, if end \<noteq> None then int endPos + 1 else -1)))"

section \<open>The value of a key\<close>

function skip_blanks :: "char list \<Rightarrow> nat \<Rightarrow> mem_error + nat" where
  "skip_blanks m d =
     bindE (rd m d) (\<lambda>c. if c = CHR '' '' \<or> c = CHR 0x09 then skip_blanks m (Suc d) else Inr d)"
  by pat_completeness auto
termination
  by (relation "measure (\<lambda>(m, d). length m - d)") (auto dest!: rd_Inr_less)

declare skip_blanks.simps [simp del]

lemma skip_blanks_le: "skip_blanks m d = Inr e \<Longrightarrow> d \<le> e \<and> e < length m"
proof (induction m d rule: skip_blanks.induct)
  case (1 m d)
  from "1.prems" obtain c where c: "rd m d = Inr c"
    by (auto simp: skip_blanks.simps [of m d] bindE_Inr_iff)
  show ?case
  proof (cases "c = CHR '' '' \<or> c = CHR 0x09")
    case True
    with "1.prems" c have "skip_blanks m (Suc d) = Inr e" by (simp add: skip_blanks.simps [of m d])
    with "1.IH" [OF c True] show ?thesis by simp
  next
    case False
    with "1.prems" c have "e = d" by (simp add: skip_blanks.simps [of m d])
    with rd_Inr_less [OF c] show ?thesis by simp
  qed
qed

text \<open>
  The first loop: \<open>None\<close> when the function returns 0, otherwise the offset of the value, whether
  it is an object or an array (\<open>json\<close>) and whether it ends with a quote (\<open>endWithQuote\<close>).
\<close>

function find_key ::
  "char list \<Rightarrow> string \<Rightarrow> nat \<Rightarrow> bool \<Rightarrow> int \<Rightarrow> mem_error + (nat \<times> bool \<times> bool) option" where
  "find_key m key found inString jsonLevel =
     bindE (rd m found) (\<lambda>c.
     if c = NUL then Inr None
     else bindE (strncmp_eq m found key) (\<lambda>eq.
       if \<not> eq then
         if c = CHR 0x22 then find_key m key (Suc found) (\<not> inString) jsonLevel
         else if c = CHR 0x5C then
           if inString then
             bindE (rd m (Suc found)) (\<lambda>e.
               if e \<noteq> NUL then find_key m key (Suc (Suc found)) inString jsonLevel
               else find_key m key (Suc found) inString jsonLevel)
           else find_key m key (Suc found) inString jsonLevel
         else if c = CHR ''{'' \<or> c = CHR ''['' then
           find_key m key (Suc found) inString (if inString then jsonLevel else jsonLevel + 1)
         else if c = CHR ''}'' \<or> c = CHR '']'' then
           if inString then find_key m key (Suc found) inString jsonLevel
           else if jsonLevel - 1 < 0 then Inr None
           else find_key m key (Suc found) inString (jsonLevel - 1)
         else find_key m key (Suc found) inString jsonLevel
       else if jsonLevel > 1 then find_key m key (Suc found) inString jsonLevel
       else
         bindE (rd m (found + length key)) (\<lambda>c1.
           if c1 \<noteq> CHR 0x22 then find_key m key (Suc (found + length key)) inString jsonLevel
           else
             bindE (skip_blanks m (Suc (found + length key))) (\<lambda>d2.
             bindE (rd m d2) (\<lambda>c2.
               if c2 \<noteq> CHR '':'' then find_key m key (Suc d2) inString jsonLevel
               else
                 bindE (skip_blanks m (Suc d2)) (\<lambda>d3.
                 bindE (rd m d3) (\<lambda>c3.
                   if c3 = CHR ''{'' \<or> c3 = CHR ''['' then Inr (Some (d3, True, False))
                   else Inr (Some (d3, False, c3 = CHR 0x22)))))))))"
  by pat_completeness auto
termination
proof (relation "measure (\<lambda>(m, key, found, inString, jsonLevel). length m - found)", goal_cases)
qed (simp_all only: wf_measure in_measure case_prod_conv, (drule rd_Inr_less, linarith?)+,
    drule skip_blanks_le, linarith)

declare find_key.simps [simp del]

text \<open>
  The second loop copies the value; \<open>out\<close> holds the bytes written so far. The label
  \<open>RETURN_VALUE\<close> writes the terminator and reports a value that ran into the end of the data.
\<close>

definition return_value :: "char list \<Rightarrow> nat \<Rightarrow> char list \<Rightarrow> mem_error + (bool \<times> char list)" where
  "return_value m found out = bindE (rd m found) (\<lambda>c. Inr (c \<noteq> NUL, out @ [NUL]))"

function copy_value ::
  "char list \<Rightarrow> bool \<Rightarrow> bool \<Rightarrow> int \<Rightarrow> nat \<Rightarrow> bool \<Rightarrow> int \<Rightarrow> bool \<Rightarrow> char list \<Rightarrow> mem_error + (bool \<times> char list)" where
  "copy_value m json endWithQuote sz found inString jsonLevel backslash out =
     (if \<not> sz > 1 then return_value m found out
      else bindE (rd m found) (\<lambda>c.
        if c = NUL then return_value m found out
        else if backslash then
          copy_value m json endWithQuote (sz - 1) (Suc found) inString jsonLevel False (out @ [c])
        else if c = CHR ''{'' \<or> c = CHR ''['' then
          copy_value m json endWithQuote (sz - 1) (Suc found) inString
            (if inString then jsonLevel else jsonLevel + 1) False (out @ [c])
        else if (c = CHR ''}'' \<or> c = CHR '']'') \<and> \<not> endWithQuote \<and> \<not> inString then
          (let jsonLevel = (if jsonLevel \<noteq> 0 then jsonLevel - 1 else jsonLevel) in
           if jsonLevel < 0 then Inr (False, out)
           else if jsonLevel = 0 then return_value m found (if json then out @ [c] else out)
           else copy_value m json endWithQuote (sz - 1) (Suc found) inString jsonLevel False (out @ [c]))
        else if c = CHR ''}'' \<or> c = CHR '']'' \<or> c = CHR 0x22 \<or> c = CHR '','' then
          (if endWithQuote \<and> c \<noteq> CHR 0x22 then
             copy_value m json endWithQuote (sz - 1) (Suc found) inString jsonLevel False (out @ [c])
           else if \<not> json then return_value m found out
           else copy_value m json endWithQuote (sz - 1) (Suc found)
                  (if c = CHR 0x22 then \<not> inString else inString) jsonLevel False (out @ [c]))
        else copy_value m json endWithQuote (sz - 1) (Suc found) inString jsonLevel
               (c = CHR 0x5C) (out @ [c])))"
  by pat_completeness auto
termination
  by (relation "measure (\<lambda>(m, json, endWithQuote, sz, found, inString, jsonLevel, backslash, out). nat sz)") auto

declare copy_value.simps [simp del]

text \<open>
  \<open>simpleJsonProcessor\<close>: null pointers are \<open>None\<close>; \<open>value\<close> says whether an output
  buffer is given. The result is the returned flag and the bytes written. The length of the key is
  taken before the null checks.
\<close>

definition simpleJsonProcessor ::
  "char list option \<Rightarrow> string option \<Rightarrow> bool \<Rightarrow> int \<Rightarrow> mem_error + (bool \<times> char list)" where
  "simpleJsonProcessor data key value sz =
     (case key of
        None \<Rightarrow> Inl NullPointer
      | Some key \<Rightarrow>
          (case data of
             None \<Rightarrow> Inr (False, [])
           | Some m \<Rightarrow>
               if key = [] then Inr (False, [])
               else bindE (find_key m key 0 False 0) (\<lambda>r.
                 case r of
                   None \<Rightarrow> Inr (False, [])
                 | Some (found, json, endWithQuote) \<Rightarrow>
                     bindE (rd m found) (\<lambda>c.
                       if c = NUL then Inr (False, [])
                       else if \<not> value then Inr (True, [])
                       else copy_value m json endWithQuote sz (if endWithQuote then Suc found else found)
                              (\<not> json) 0 False []))))"

end
