(* ===== verification/Json_Frames.thy ===== *)
theory Json_Frames
  imports Simple_Json
begin

text \<open>
  What the scanning functions of \<^verbatim>\<open>simplejson.c\<close> find. The text of a JSON object is
  described independently of the scanner, as a sequence of pieces: braces, strings with their escape
  sequences, and other characters. The scanner finds the end of an object at its matching brace,
  whatever its strings contain, and reports every proper beginning of an object as incomplete.
\<close>

section \<open>Texts\<close>

datatype string_item = Ch char | Esc char

datatype piece = BraceOpen | BraceClose | Str "string_item list" | Plain char

fun item_text :: "string_item \<Rightarrow> string" where
  "item_text (Ch c) = [c]"
| "item_text (Esc c) = [CHR 0x5C, c]"

fun item_ok :: "string_item \<Rightarrow> bool" where
  "item_ok (Ch c) \<longleftrightarrow> c \<noteq> CHR 0x22 \<and> c \<noteq> CHR 0x5C \<and> c \<noteq> NUL"
| "item_ok (Esc c) \<longleftrightarrow> c \<noteq> NUL"

definition items_text :: "string_item list \<Rightarrow> string" where
  "items_text its = concat (map item_text its)"

fun piece_text :: "piece \<Rightarrow> string" where
  "piece_text BraceOpen = ''{''"
| "piece_text BraceClose = ''}''"
| "piece_text (Str its) = CHR 0x22 # items_text its @ [CHR 0x22]"
| "piece_text (Plain c) = [c]"

fun piece_ok :: "piece \<Rightarrow> bool" where
  "piece_ok (Str its) \<longleftrightarrow> list_all item_ok its"
| "piece_ok (Plain c) \<longleftrightarrow> c \<noteq> CHR ''{'' \<and> c \<noteq> CHR ''}'' \<and> c \<noteq> CHR 0x22 \<and> c \<noteq> NUL"
| "piece_ok _ \<longleftrightarrow> True"

definition text_of :: "piece list \<Rightarrow> string" where
  "text_of ps = concat (map piece_text ps)"

text \<open>The pieces after \<open>n\<close> open braces close the last of them at their end, and not before.\<close>

fun closes :: "nat \<Rightarrow> piece list \<Rightarrow> bool" where
  "closes n [] \<longleftrightarrow> False"
| "closes n (BraceOpen # ps) \<longleftrightarrow> closes (Suc n) ps"
| "closes n (BraceClose # ps) \<longleftrightarrow> (if n = 1 then ps = [] else closes (n - 1) ps)"
| "closes n (p # ps) \<longleftrightarrow> closes n ps"

definition is_object :: "piece list \<Rightarrow> bool" where
  "is_object ps \<longleftrightarrow> list_all piece_ok ps \<and> (\<exists>qs. ps = BraceOpen # qs \<and> closes 1 qs)"

text \<open>Text before an object: pieces without an opening brace.\<close>

definition is_junk :: "piece list \<Rightarrow> bool" where
  "is_junk ps \<longleftrightarrow> list_all piece_ok ps \<and> BraceOpen \<notin> set ps"

lemma items_text_simps [simp]:
  "items_text [] = []" "items_text (i # its) = item_text i @ items_text its"
  by (simp_all add: items_text_def)

lemma text_of_simps [simp]:
  "text_of [] = []" "text_of (p # ps) = piece_text p @ text_of ps"
  by (simp_all add: text_of_def)

lemma items_no_NUL: "list_all item_ok its \<Longrightarrow> NUL \<notin> set (items_text its)"
proof (induction its)
  case (Cons i its)
  then show ?case by (cases i) auto
qed simp

lemma text_no_NUL: "list_all piece_ok ps \<Longrightarrow> NUL \<notin> set (text_of ps)"
proof (induction ps)
  case (Cons p ps)
  then show ?case using items_no_NUL by (cases p) auto
qed simp

section \<open>Scanning over a text\<close>

text \<open>The buffer has the characters of \<open>s\<close> from offset \<open>d\<close> on.\<close>

definition seg :: "char list \<Rightarrow> nat \<Rightarrow> string \<Rightarrow> bool" where
  "seg m d s \<longleftrightarrow> (\<exists>pre post. m = pre @ s @ post \<and> length pre = d)"

lemma seg_Cons: "seg m d (c # s) \<Longrightarrow> rd m d = Inr c \<and> seg m (Suc d) s"
  unfolding seg_def by (force intro: exI [of _ "_ @ [c]"])

lemma seg_append: "seg m d (s @ t) \<Longrightarrow> seg m d s \<and> seg m (d + length s) t"
  unfolding seg_def by (force intro: exI [of _ "_ @ s"])

lemma holds_seg: "holds m d s \<Longrightarrow> seg m d (s @ [NUL])"
  by (auto simp: holds_def seg_def)

lemma seg_holds: "seg m d (s @ [NUL]) \<Longrightarrow> NUL \<notin> set s \<Longrightarrow> holds m d s"
  by (auto simp: holds_def seg_def)

text \<open>One step of each scanner at a character that is there and within the size.\<close>

lemma End_step:
  assumes "rd m d = Inr c" and "c \<noteq> NUL" and "pos < sz"
  shows "findJsonEndParams m sz d inS lvl pos =
    (if c = CHR ''{'' then findJsonEndParams m sz (Suc d) inS (if inS then lvl else lvl + 1) (Suc pos)
     else if c = CHR ''}'' then
       (let lvl = (if inS then lvl else lvl - 1) in
        if lvl = 0 then Inr (Some (Suc d), inS, lvl, pos)
        else findJsonEndParams m sz (Suc d) inS lvl (Suc pos))
     else if c = CHR 0x22 then findJsonEndParams m sz (Suc d) (\<not> inS) lvl (Suc pos)
     else if c = CHR 0x5C \<and> inS then
       bindE (rd m (Suc d)) (\<lambda>e.
         if e \<noteq> NUL then findJsonEndParams m sz (Suc (Suc d)) inS lvl (Suc (Suc pos))
         else findJsonEndParams m sz (Suc d) inS lvl (Suc pos))
     else findJsonEndParams m sz (Suc d) inS lvl (Suc pos))"
  using assms by (simp add: findJsonEndParams.simps [of m sz d inS lvl pos])

lemma Beginning_step:
  assumes "rd m d = Inr c" and "c \<noteq> NUL" and "pos < sz"
  shows "findJsonBeginningParams m sz d inS pos =
    (if c = CHR ''{'' \<and> \<not> inS then Inr (Some d, inS, pos)
     else if c = CHR 0x22 then findJsonBeginningParams m sz (Suc d) (\<not> inS) (Suc pos)
     else if c = CHR 0x5C \<and> inS then
       bindE (rd m (Suc d)) (\<lambda>e.
         if e \<noteq> NUL then findJsonBeginningParams m sz (Suc (Suc d)) inS (Suc (Suc pos))
         else findJsonBeginningParams m sz (Suc d) inS (Suc pos))
     else findJsonBeginningParams m sz (Suc d) inS (Suc pos))"
  using assms by (simp add: findJsonBeginningParams.simps [of m sz d inS pos])

text \<open>
  Both scanners treat strings alike: a quote changes between inside and outside, a backslash inside
  takes the next character with it, other characters inside are passed over, and the terminator ends
  the scan without a result. What follows from this is proved once.
\<close>

locale quote_scanner =
  fixes m :: "char list" and sz :: nat and scan :: "nat \<Rightarrow> bool \<Rightarrow> nat \<Rightarrow> 'r" and ended :: "'r \<Rightarrow> bool"
  assumes at_quote: "rd m d = Inr (CHR 0x22) \<Longrightarrow> pos < sz \<Longrightarrow> scan d inS pos = scan (Suc d) (\<not> inS) (Suc pos)"
    and at_escape: "rd m d = Inr (CHR 0x5C) \<Longrightarrow> rd m (Suc d) = Inr e \<Longrightarrow> pos < sz \<Longrightarrow>
      scan d True pos = (if e \<noteq> NUL then scan (Suc (Suc d)) True (Suc (Suc pos)) else scan (Suc d) True (Suc pos))"
    and at_char: "rd m d = Inr c \<Longrightarrow> item_ok (Ch c) \<Longrightarrow> pos < sz \<Longrightarrow> scan d True pos = scan (Suc d) True (Suc pos)"
    and at_end: "rd m d = Inr NUL \<Longrightarrow> ended (scan d inS pos)"
begin

lemma items:
  "seg m d (items_text its) \<Longrightarrow> list_all item_ok its \<Longrightarrow> pos + length (items_text its) \<le> sz \<Longrightarrow>
   scan d True pos = scan (d + length (items_text its)) True (pos + length (items_text its))"
proof (induction its arbitrary: d pos)
  case (Cons i its)
  show ?case
  proof (cases i)
    case (Ch c)
    then have s: "rd m d = Inr c" "seg m (Suc d) (items_text its)"
      using Cons.prems(1) seg_Cons by auto
    have "scan d True pos = scan (Suc d) True (Suc pos)"
      using Ch Cons.prems by (intro at_char [OF s(1)]) simp_all
    with Ch Cons.prems Cons.IH [OF s(2), of "Suc pos"] show ?thesis by simp
  next
    case (Esc c)
    then have s: "rd m d = Inr (CHR 0x5C)" "rd m (Suc d) = Inr c" "seg m (Suc (Suc d)) (items_text its)"
      using Cons.prems(1) seg_Cons [of m d "CHR 0x5C" "c # items_text its"] seg_Cons [of m "Suc d" c] by auto
    have "scan d True pos = scan (Suc (Suc d)) True (Suc (Suc pos))"
      using Esc Cons.prems by (simp add: at_escape [OF s(1,2)])
    with Esc Cons.prems Cons.IH [OF s(3), of "Suc (Suc pos)"] show ?thesis by simp
  qed
qed simp

text \<open>A whole string, from its opening quote to after its closing quote.\<close>

lemma whole_string:
  assumes "seg m d (piece_text (Str its))" and "list_all item_ok its"
    and "pos + length (piece_text (Str its)) \<le> sz"
  shows "scan d False pos = scan (d + length (piece_text (Str its))) False (pos + length (piece_text (Str its)))"
proof -
  let ?n = "length (items_text its)"
  have s: "rd m d = Inr (CHR 0x22)" "seg m (Suc d) (items_text its)" "rd m (Suc d + ?n) = Inr (CHR 0x22)"
    using assms(1) seg_Cons [of m d "CHR 0x22"] seg_append [of m "Suc d" "items_text its" "[CHR 0x22]"]
      seg_Cons [of m "Suc d + ?n" "CHR 0x22" "[]"] by auto
  have "scan d False pos = scan (Suc d) True (Suc pos)"
    using assms(3) by (simp add: at_quote [OF s(1)])
  also have "\<dots> = scan (Suc d + ?n) True (Suc pos + ?n)"
    using assms s(2) by (intro items) simp_all
  also have "\<dots> = scan (Suc (Suc d + ?n)) False (Suc (Suc pos + ?n))"
    using assms(3) by (subst at_quote [OF s(3)]) simp_all
  finally show ?thesis by simp
qed

text \<open>A string that breaks off.\<close>

lemma partial_items:
  "holds m d s \<Longrightarrow> prefix s (items_text its) \<Longrightarrow> list_all item_ok its \<Longrightarrow> pos + length s \<le> sz \<Longrightarrow> ended (scan d True pos)"
proof (induction its arbitrary: d pos s)
  case Nil
  then show ?case using at_end holds_Nil by simp
next
  case (Cons i its)
  show ?case
  proof (cases s)
    case Nil
    with Cons.prems(1) show ?thesis using at_end holds_Nil by simp
  next
    case (Cons c t)
    then have s: "rd m d = Inr c" "holds m (Suc d) t" using Cons.prems(1) holds_Cons by auto
    show ?thesis
    proof (cases i)
      case (Ch x)
      have "scan d True pos = scan (Suc d) True (Suc pos)"
        using Ch Cons Cons.prems by (intro at_char [OF s(1)]) simp_all
      moreover have "ended (scan (Suc d) True (Suc pos))"
        using Ch Cons Cons.prems by (intro Cons.IH [OF s(2)]) simp_all
      ultimately show ?thesis by simp
    next
      case (Esc x)
      then have c: "c = CHR 0x5C" "pos < sz" using Cons Cons.prems by simp_all
      show ?thesis
      proof (cases t)
        case Nil
        then have nul: "rd m (Suc d) = Inr NUL" using s(2) holds_Nil by simp
        with c s(1) have "scan d True pos = scan (Suc d) True (Suc pos)" by (simp add: at_escape)
        with nul show ?thesis by (simp add: at_end)
      next
        case (Cons e u)
        then have e: "rd m (Suc d) = Inr e" "e \<noteq> NUL" "holds m (Suc (Suc d)) u" using s(2) holds_Cons by auto
        have "ended (scan (Suc (Suc d)) True (Suc (Suc pos)))"
          using Esc Cons \<open>s = c # t\<close> Cons.prems by (intro Cons.IH [OF e(3)]) simp_all
        with c s(1) e show ?thesis by (simp add: at_escape)
      qed
    qed
  qed
qed

lemma partial_string:
  assumes "holds m d s" and "strict_prefix s (piece_text (Str its))" and "list_all item_ok its" and "pos + length s \<le> sz"
  shows "ended (scan d False pos)"
proof (cases s)
  case Nil
  with assms(1) show ?thesis using at_end holds_Nil by simp
next
  case (Cons c t)
  then have c: "c = CHR 0x22" and "strict_prefix t (items_text its @ [CHR 0x22])"
    using assms(2) by (auto simp: strict_prefix_def)
  then have t: "prefix t (items_text its)" by (auto simp: strict_prefix_def)
  have s: "rd m d = Inr (CHR 0x22)" "holds m (Suc d) t" using assms(1) Cons c holds_Cons by auto
  have "ended (scan (Suc d) True (Suc pos))"
    using t assms(3,4) Cons by (intro partial_items [OF s(2)]) simp_all
  with assms(4) Cons s(1) show ?thesis by (simp add: at_quote)
qed

end

interpretation jb: quote_scanner m sz "findJsonBeginningParams m sz" "\<lambda>r. \<exists>b k. r = Inr (None, b, k)" for m sz
  by unfold_locales (auto simp: Beginning_step, simp add: findJsonBeginningParams.simps)

interpretation je: quote_scanner m sz "\<lambda>d inS. findJsonEndParams m sz d inS (int (Suc n))"
  "\<lambda>r. \<exists>b l k. r = Inr (None, b, l, k)" for m sz n
  by unfold_locales (auto simp: End_step Let_def, simp add: findJsonEndParams.simps)

text \<open>Skipping the text before an object.\<close>

lemma Beginning_junk:
  "seg m d (text_of ps) \<Longrightarrow> is_junk ps \<Longrightarrow> pos + length (text_of ps) \<le> sz \<Longrightarrow>
   findJsonBeginningParams m sz d False pos =
   findJsonBeginningParams m sz (d + length (text_of ps)) False (pos + length (text_of ps))"
proof (induction ps arbitrary: d pos)
  case (Cons p ps)
  let ?n = "length (piece_text p)"
  have s: "seg m d (piece_text p)" "seg m (d + ?n) (text_of ps)"
    using Cons.prems(1) seg_append by auto
  have ok: "piece_ok p" "p \<noteq> BraceOpen" "is_junk ps" using Cons.prems(2) by (auto simp: is_junk_def)
  have "findJsonBeginningParams m sz d False pos = findJsonBeginningParams m sz (d + ?n) False (pos + ?n)"
  proof (cases p)
    case (Str its)
    with ok s(1) Cons.prems(3) show ?thesis by (simp only:) (intro jb.whole_string, simp_all)
  next
    case (Plain c)
    then have "rd m d = Inr c" using s(1) seg_Cons by auto
    with Plain ok Cons.prems(3) show ?thesis by (simp add: Beginning_step)
  next
    case BraceClose
    then have "rd m d = Inr (CHR ''}'')" using s(1) seg_Cons by auto
    with BraceClose Cons.prems(3) show ?thesis by (simp add: Beginning_step)
  qed (use ok in simp)
  with Cons.IH [OF s(2) ok(3), of "pos + ?n"] Cons.prems(3) show ?case by (simp add: add.assoc)
qed simp

text \<open>From inside \<open>n\<close> open braces to the brace that closes the last of them.\<close>

lemma End_closes:
  "seg m d (text_of ps) \<Longrightarrow> list_all piece_ok ps \<Longrightarrow> closes n ps \<Longrightarrow> 0 < n \<Longrightarrow> pos + length (text_of ps) \<le> sz \<Longrightarrow>
   findJsonEndParams m sz d False (int n) pos =
   Inr (Some (d + length (text_of ps)), False, 0, pos + length (text_of ps) - 1)"
proof (induction ps arbitrary: n d pos)
  case (Cons p ps)
  let ?n = "length (piece_text p)"
  have s: "seg m d (piece_text p)" "seg m (d + ?n) (text_of ps)"
    using Cons.prems(1) seg_append by auto
  have ok: "piece_ok p" "list_all piece_ok ps" using Cons.prems(2) by simp_all
  have fit: "pos + ?n + length (text_of ps) \<le> sz" using Cons.prems(5) by simp
  show ?case
  proof (cases p)
    case BraceOpen
    then have "rd m d = Inr (CHR ''{'')" using s(1) seg_Cons by auto
    then have "findJsonEndParams m sz d False (int n) pos = findJsonEndParams m sz (Suc d) False (int (Suc n)) (Suc pos)"
      using BraceOpen fit by (simp add: End_step add.commute)
    with BraceOpen Cons.IH [of "d + ?n" "Suc n" "pos + ?n"] s(2) ok(2) Cons.prems(3) fit show ?thesis by simp
  next
    case BraceClose
    then have rd: "rd m d = Inr (CHR ''}'')" using s(1) seg_Cons by auto
    show ?thesis
    proof (cases "n = 1")
      case True
      with BraceClose rd Cons.prems(3) fit show ?thesis by (simp add: End_step)
    next
      case False
      then have lvl: "int n - 1 = int (n - 1)" "int n - 1 \<noteq> 0" "0 < n - 1"
        using Cons.prems(4) by auto
      have "findJsonEndParams m sz d False (int n) pos = findJsonEndParams m sz (Suc d) False (int (n - 1)) (Suc pos)"
        using rd fit BraceClose lvl by (simp add: End_step Let_def)
      with False BraceClose Cons.IH [of "d + ?n" "n - 1" "pos + ?n"] s(2) ok(2) Cons.prems(3) lvl(3) fit
      show ?thesis by simp
    qed
  next
    case (Str its)
    have "findJsonEndParams m sz d False (int n) pos = findJsonEndParams m sz (d + ?n) False (int n) (pos + ?n)"
      using Str s(1) ok(1) Cons.prems(4) fit je.whole_string [where m = m and d = d and pos = pos and sz = sz and n = "n - 1" and its = its] by simp
    with Str Cons.IH [of "d + ?n" n "pos + ?n"] s(2) ok(2) Cons.prems(3,4) fit show ?thesis by simp
  next
    case (Plain c)
    then have "rd m d = Inr c" using s(1) seg_Cons by auto
    then have "findJsonEndParams m sz d False (int n) pos = findJsonEndParams m sz (Suc d) False (int n) (Suc pos)"
      using Plain ok(1) fit by (simp add: End_step)
    with Plain Cons.IH [of "d + ?n" n "pos + ?n"] s(2) ok(2) Cons.prems(3,4) fit show ?thesis by simp
  qed
qed simp

text \<open>An object that breaks off before its last brace.\<close>

lemma End_partial:
  "holds m d s \<Longrightarrow> strict_prefix s (text_of ps) \<Longrightarrow> list_all piece_ok ps \<Longrightarrow> closes n ps \<Longrightarrow> 0 < n \<Longrightarrow>
   pos + length s \<le> sz \<Longrightarrow> \<exists>b l k. findJsonEndParams m sz d False (int n) pos = Inr (None, b, l, k)"
proof (induction ps arbitrary: n d pos s)
  case (Cons p ps)
  show ?case
  proof (cases "strict_prefix s (piece_text p)")
    case True
    show ?thesis
    proof (cases "\<exists>its. p = Str its")
      case True
      with \<open>strict_prefix s (piece_text p)\<close> Cons.prems show ?thesis
        using je.partial_string [where m = m and d = d and s = s and pos = pos and sz = sz and n = "n - 1"] by auto
    next
      case False
      with True have "s = []" by (cases p) (auto simp: strict_prefix_def prefix_Cons)
      with Cons.prems(1) show ?thesis using je.at_end [where m = m and d = d and sz = sz and n = "n - 1" and inS = False and pos = pos] Cons.prems(5) holds_Nil by simp
    qed
  next
    case False
    with Cons.prems(2) have "\<exists>t. s = piece_text p @ t \<and> prefix t (text_of ps)"
      by (auto simp: strict_prefix_def prefix_append)
    then obtain t where "s = piece_text p @ t" "prefix t (text_of ps)" by blast
    with Cons.prems(2) have t: "s = piece_text p @ t" "strict_prefix t (text_of ps)"
      by (auto simp: strict_prefix_def)
    let ?n = "length (piece_text p)"
    have h: "holds m (d + ?n) t" using Cons.prems(1) holds_append by (simp add: t)
    have g: "seg m d (piece_text p)" using holds_seg [OF Cons.prems(1)] seg_append by (simp add: t)
    have ok: "piece_ok p" "list_all piece_ok ps" using Cons.prems(3) by simp_all
    have fit: "pos + ?n + length t \<le> sz" using Cons.prems(6) by (simp add: t)
    have nxt: "\<exists>k > 0. closes k ps \<and>
      findJsonEndParams m sz d False (int n) pos = findJsonEndParams m sz (d + ?n) False (int k) (pos + ?n)"
    proof (cases p)
      case BraceOpen
      then have "rd m d = Inr (CHR ''{'')" using g seg_Cons by auto
      with BraceOpen Cons.prems(4) fit show ?thesis by (intro exI [of _ "Suc n"]) (simp add: End_step add.commute)
    next
      case BraceClose
      then have "rd m d = Inr (CHR ''}'')" using g seg_Cons by auto
      moreover have "n \<noteq> 1" using BraceClose Cons.prems(4) t(2) by (auto simp: strict_prefix_def)
      ultimately show ?thesis
        using BraceClose Cons.prems(4,5) fit by (intro exI [of _ "n - 1"]) (auto simp: End_step Let_def of_nat_diff)
    next
      case (Str its)
      with g ok fit Cons.prems(4,5) show ?thesis
        using je.whole_string [where m = m and d = d and pos = pos and sz = sz and n = "n - 1" and its = its] by (intro exI [of _ n]) simp
    next
      case (Plain c)
      then have "rd m d = Inr c" using g seg_Cons by auto
      with Plain ok fit Cons.prems(4,5) show ?thesis by (intro exI [of _ n]) (simp add: End_step)
    qed
    with Cons.IH [OF h t(2) ok(2)] fit show ?thesis by (metis add.assoc)
  qed
qed simp

section \<open>The four functions\<close>

lemma strlen_holds: "holds m d s \<Longrightarrow> strlen_from m d = Inr (length s)"
proof (induction s arbitrary: d)
  case Nil
  then show ?case by (simp add: strlen_from.simps [of m d] holds_Nil)
next
  case (Cons c s)
  then show ?case using holds_Cons [of m d c s] by (simp add: strlen_from.simps [of m d])
qed

lemma is_object_text:
  assumes "is_object ps"
  obtains u qs where "text_of ps = CHR ''{'' # u" "u = text_of qs" "closes 1 qs" "list_all piece_ok qs"
  using assms by (auto simp: is_object_def)

lemma seg_object:
  assumes obj: "is_object ps" and "seg m d (text_of ps)" and fit: "pos + length (text_of ps) \<le> sz"
  shows "findJsonEndParams m sz d False 0 pos =
    Inr (Some (d + length (text_of ps)), False, 0, pos + length (text_of ps) - 1)"
proof -
  obtain u qs where u: "text_of ps = CHR ''{'' # u" "u = text_of qs" "closes 1 qs" "list_all piece_ok qs"
    by (rule is_object_text [OF obj])
  have s: "rd m d = Inr (CHR ''{'')" "seg m (Suc d) (text_of qs)"
    using assms(2) seg_Cons by (auto simp: u)
  have "findJsonEndParams m sz d False 0 pos = findJsonEndParams m sz (Suc d) False (int 1) (Suc pos)"
    using fit by (simp add: End_step [OF s(1)] u(1))
  with End_closes [OF s(2) u(4,3), of "Suc pos" sz] fit show ?thesis by (simp add: u)
qed

lemma Beginning_object:
  assumes "is_junk js" and obj: "is_object ps" and "seg m d (text_of js @ w)" and w: "prefix w (text_of ps)" "w \<noteq> []"
    and fit: "pos + length (text_of js) < sz"
  shows "findJsonBeginningParams m sz d False pos =
    Inr (Some (d + length (text_of js)), False, pos + length (text_of js))"
proof -
  obtain u qs where u: "text_of ps = CHR ''{'' # u" by (rule is_object_text [OF obj])
  then obtain v where v: "w = CHR ''{'' # v" using w by (cases w) auto
  have s: "seg m d (text_of js)" "rd m (d + length (text_of js)) = Inr (CHR ''{'')"
    using seg_append [OF assms(3)] seg_Cons by (auto simp: v)
  then show ?thesis
    using Beginning_junk [OF s(1) assms(1), of pos sz] fit by (simp add: Beginning_step)
qed

lemma Beginning_none:
  assumes "is_junk js" and "holds m d (text_of js)" and "pos + length (text_of js) \<le> sz"
  shows "\<exists>b k. findJsonBeginningParams m sz d False pos = Inr (None, b, k)"
proof -
  have s: "seg m d (text_of js)" "rd m (d + length (text_of js)) = Inr NUL"
    using seg_append [of m d "text_of js" "[NUL]"] holds_seg [OF assms(2)] seg_Cons by auto
  then show ?thesis
    using Beginning_junk [OF s(1) assms(1,3)] jb.at_end [OF s(2)] by simp
qed

lemma getPushJson_object:
  assumes junk: "is_junk js" and obj: "is_object ps" and data: "seg m 0 (text_of js @ text_of ps)"
    and fit: "length (text_of js) + length (text_of ps) \<le> dataSize"
  shows "getPushJson m dataSize =
    Inr (Some (length (text_of js)), int (length (text_of js)), int (length (text_of ps)))"
proof -
  have ne: "text_of ps \<noteq> []" using is_object_text [OF obj] by (metis list.discI)
  then have len: "0 < length (text_of ps)" by simp
  have "findJsonBeginningParams m dataSize 0 False 0 = Inr (Some (length (text_of js)), False, length (text_of js))"
    using Beginning_object [OF junk obj data, of 0 dataSize] ne fit len by simp
  moreover have "findJsonEndParams m (dataSize - length (text_of js)) (length (text_of js)) False 0 0 =
      Inr (Some (length (text_of js) + length (text_of ps)), False, 0, length (text_of ps) - 1)"
    using seg_object [OF obj, of m "length (text_of js)" 0 "dataSize - length (text_of js)"]
      seg_append [OF data] fit by simp
  moreover have "int (length (text_of ps) - 1) + 1 = int (length (text_of ps))" using len by linarith
  ultimately show ?thesis by (simp add: getPushJson_def)
qed

section \<open>Correctness\<close>

text \<open>
  C19. \<open>getPushJson\<close> frames messages: with an object somewhere in the received bytes, after text
  without an opening brace, it reports where the object starts and exactly how long it is, whatever
  follows and whatever the object's strings contain. The buffer needs no terminator.
\<close>

theorem getPushJson_frames:
  assumes junk: "is_junk js" and obj: "is_object ps" and data: "seg m 0 (text_of js @ text_of ps)"
    and fit: "length (text_of js) + length (text_of ps) \<le> dataSize"
  shows "getPushJson m dataSize =
    Inr (Some (length (text_of js)), int (length (text_of js)), int (length (text_of ps)))"
  using assms by (rule getPushJson_object)

definition demo_object :: "piece list" where
  "demo_object = [BraceOpen, Str [Ch (CHR ''a'')], Plain (CHR '':''), Str [Esc (CHR 0x22), Ch (CHR ''}'')], BraceClose]"

lemma demo_object_ok: "is_object demo_object" "is_junk [Plain (CHR 0x0A)]"
  by (simp_all add: is_object_def is_junk_def demo_object_def)

theorem getPushJson_frames_witness:
  "getPushJson (text_of [Plain (CHR 0x0A)] @ text_of demo_object @ ''x'') 13 = Inr (Some 1, 1, 11)"
proof -
  have "seg (text_of [Plain (CHR 0x0A)] @ text_of demo_object @ ''x'') 0 (text_of [Plain (CHR 0x0A)] @ text_of demo_object)"
    unfolding seg_def by (intro exI [of _ "[]"] exI [of _ "''x''"]) simp
  moreover have "length (text_of demo_object) = 11" by (simp add: demo_object_def)
  ultimately show ?thesis
    using getPushJson_frames [OF demo_object_ok(2,1)] by simp
qed

text \<open>
  \<open>isCompleteJson\<close> tells when to stop reading: on a string that holds the first part of an
  object, after text without an opening brace, it answers yes exactly when that part is the whole
  object.
\<close>

theorem isCompleteJson_iff:
  assumes junk: "is_junk js" and obj: "is_object ps" and data: "holds m d (text_of js @ w)"
    and w: "prefix w (text_of ps)"
  shows "isCompleteJson m d = Inr (w = text_of ps)"
proof (cases "w = []")
  case True
  obtain u qs where "text_of ps = CHR ''{'' # u" by (rule is_object_text [OF obj])
  moreover have "\<exists>b k. findJsonBeginningParams m (length (text_of js)) d False 0 = Inr (None, b, k)"
    using True Beginning_none [OF junk, of m d 0 "length (text_of js)"] data by simp
  ultimately show ?thesis
    using True data strlen_holds [OF data] by (auto simp: isCompleteJson_def findJsonBeginning_def)
next
  case False
  let ?b = "d + length (text_of js)" and ?n = "length (text_of js @ w)"
  have s: "seg m d (text_of js @ w)"
    using holds_seg [OF data] seg_append by blast
  have "findJsonBeginningParams m ?n d False 0 = Inr (Some ?b, False, length (text_of js))"
    using Beginning_object [OF junk obj s w False, of 0 ?n] False by simp
  then have first: "findJsonBeginning m d = Inr (Some ?b)"
    using strlen_holds [OF data] by (simp add: findJsonBeginning_def)
  have hw: "holds m ?b w" using data holds_append by blast
  have "findJsonEnd m ?b = Inr (if w = text_of ps then Some (?b + length w) else None)"
  proof (cases "w = text_of ps")
    case True
    then show ?thesis
      using seg_object [OF obj, of m ?b 0 "length w"] holds_seg [OF hw] seg_append strlen_holds [OF hw]
      by (simp add: findJsonEnd_def)
  next
    case ne: False
    obtain u qs where u: "text_of ps = CHR ''{'' # u" "u = text_of qs" "closes 1 qs" "list_all piece_ok qs"
      by (rule is_object_text [OF obj])
    then obtain v where v: "w = CHR ''{'' # v" "strict_prefix v (text_of qs)"
      using w False ne by (cases w) (auto simp: strict_prefix_def)
    have hv: "rd m ?b = Inr (CHR ''{'')" "holds m (Suc ?b) v" using hw holds_Cons by (auto simp: v)
    have "findJsonEndParams m (length w) ?b False 0 0 = findJsonEndParams m (length w) (Suc ?b) False (int 1) (Suc 0)"
      by (simp add: End_step [OF hv(1)] v)
    then show ?thesis
      using End_partial [OF hv(2) v(2) u(4,3), of "Suc 0" "length w"] ne strlen_holds [OF hw]
      by (auto simp: findJsonEnd_def v)
  qed
  with first show ?thesis by (simp add: isCompleteJson_def)
qed

theorem isCompleteJson_iff_witness: "isCompleteJson (butlast (text_of demo_object) @ [NUL]) 0 = Inr False"
proof -
  have "holds (butlast (text_of demo_object) @ [NUL]) 0 (text_of [] @ butlast (text_of demo_object))"
    using holds_cstring [of "butlast (text_of demo_object)"] by (simp add: demo_object_def)
  then show ?thesis
    using isCompleteJson_iff [of "[]" demo_object _ 0 "butlast (text_of demo_object)"] demo_object_ok(1)
    by (simp add: is_junk_def demo_object_def)
qed

text \<open>
  \<open>findSecondJson\<close> returns the start of the second object of a string, skipping the first one
  and the text between them.
\<close>

theorem findSecondJson_second:
  assumes "is_junk js" "is_object ps" "is_junk ks" "is_object qs"
    and data: "holds m d (text_of js @ text_of ps @ text_of ks @ text_of qs @ rest)"
  shows "findSecondJson m d = Inr (Some (d + length (text_of js) + length (text_of ps) + length (text_of ks)))"
proof -
  let ?b = "d + length (text_of js)"
  let ?e = "?b + length (text_of ps)"
  have ne: "text_of ps \<noteq> []" "text_of qs \<noteq> []"
    using is_object_text [OF assms(2)] is_object_text [OF assms(4)] by (metis list.discI)+
  have first: "findJsonBeginning m x = Inr (Some (x + length (text_of j)))"
    if "is_junk j" "is_object ob" "holds m x (text_of j @ text_of ob @ r)" "text_of ob \<noteq> []" for x j ob r
  proof -
    have "seg m x (text_of j @ text_of ob)" using holds_seg [OF that(3)] seg_append [of m x "text_of j @ text_of ob"] by simp
    then show ?thesis
      using Beginning_object [OF that(1,2), of m x "text_of ob" 0 "length (text_of j @ text_of ob @ r)"] that(4)
        strlen_holds [OF that(3)] by (simp add: findJsonBeginning_def)
  qed
  have hb: "holds m ?b (text_of ps @ text_of ks @ text_of qs @ rest)" using data holds_append by blast
  have he: "holds m ?e (text_of ks @ text_of qs @ rest)" using hb holds_append by blast
  have "findJsonEnd m ?b = Inr (Some ?e)"
    using seg_object [OF assms(2), of m ?b 0 "length (text_of ps @ text_of ks @ text_of qs @ rest)"]
      holds_seg [OF hb] seg_append [of m ?b "text_of ps"] strlen_holds [OF hb] by (simp add: findJsonEnd_def)
  with first [OF assms(1,2) data ne(1)] first [OF assms(3,4) he ne(2)] show ?thesis
    by (simp add: findSecondJson_def)
qed

theorem findSecondJson_second_witness:
  "findSecondJson (text_of demo_object @ '' '' @ text_of demo_object @ [NUL]) 0 = Inr (Some 12)"
proof -
  have "holds (text_of demo_object @ '' '' @ text_of demo_object @ [NUL]) 0
      (text_of [] @ text_of demo_object @ text_of [Plain (CHR '' '')] @ text_of demo_object @ [])"
    using holds_cstring [of "text_of demo_object @ '' '' @ text_of demo_object"] by (simp add: demo_object_def)
  moreover have "is_junk []" "is_junk [Plain (CHR '' '')]" by (simp_all add: is_junk_def)
  ultimately have "findSecondJson (text_of demo_object @ '' '' @ text_of demo_object @ [NUL]) 0 =
      Inr (Some (0 + length (text_of []) + length (text_of demo_object) + length (text_of [Plain (CHR '' '')])))"
    using findSecondJson_second [of "[]" demo_object "[Plain (CHR '' '')]" demo_object _ 0 "[]"] demo_object_ok(1) by blast
  then show ?thesis by (simp add: demo_object_def)
qed

text \<open>
  The header says that the data of \<open>getPushJson\<close> need not be terminated, but an incomplete
  object makes the scan read the byte after the data: with a buffer that ends there, the function
  reads out of bounds.
\<close>

theorem getPushJson_reads_past_end:
  "getPushJson (CHR ''{'' # replicate n (CHR '' '')) (Suc n) = Inl OutOfBounds"
proof -
  let ?m = "CHR ''{'' # replicate n (CHR '' '')"
  have blanks: "findJsonEndParams ?m (Suc n) d False 1 d = Inl OutOfBounds" if "0 < d" "d \<le> Suc n" for d
    using that
  proof (induction "Suc n - d" arbitrary: d)
    case 0
    then show ?case by (simp add: findJsonEndParams.simps rd_def)
  next
    case (Suc k)
    then have "rd ?m d = Inr (CHR '' '')" by (cases d) (simp_all add: rd_def)
    moreover have "d < Suc n" using Suc.hyps(2) by simp
    ultimately have "findJsonEndParams ?m (Suc n) d False 1 d = findJsonEndParams ?m (Suc n) (Suc d) False 1 (Suc d)"
      by (simp add: End_step)
    with Suc.hyps(1) [of "Suc d"] Suc.hyps(2) show ?case by simp
  qed
  have "findJsonEndParams ?m (Suc n) 0 False 0 0 = findJsonEndParams ?m (Suc n) 1 False 1 1"
    by (simp add: End_step rd_def)
  moreover have "findJsonBeginningParams ?m (Suc n) 0 False 0 = Inr (Some 0, False, 0)"
    by (simp add: Beginning_step rd_def)
  ultimately show ?thesis using blanks [of 1] by (simp add: getPushJson_def)
qed

end
