(* ===== verification/Json_Values.thy ===== *)
theory Json_Values
  imports Json_Frames
begin

text \<open>
  \<open>simpleJsonProcessor\<close> of \<^verbatim>\<open>simplejson.c\<close>: it never writes more than the given
  size, and for a member whose value is a string or a literal it copies exactly the value. The theory
  also shows where the function goes wrong: a text that ends with the key makes it read past the end,
  and a key is found at the end of a longer one.
\<close>

section \<open>Bounds\<close>

lemma return_value_length: "return_value m found out = Inr (b, res) \<Longrightarrow> length res = Suc (length out)"
  by (auto simp: return_value_def bindE_Inr_iff)

text \<open>One iteration of the copying loop returns, or writes one byte and goes on.\<close>

definition copy_next :: "char list \<Rightarrow> bool \<Rightarrow> bool \<Rightarrow> int \<Rightarrow> nat \<Rightarrow> char list \<Rightarrow> mem_error + (bool \<times> char list) \<Rightarrow> bool" where
  "copy_next m json ewq sz found out r \<longleftrightarrow>
     (\<exists>c inS lvl bs. r = copy_value m json ewq (sz - 1) (Suc found) inS lvl bs (out @ [c]))"

definition copy_stop :: "char list \<Rightarrow> nat \<Rightarrow> char list \<Rightarrow> mem_error + (bool \<times> char list) \<Rightarrow> bool" where
  "copy_stop m found out r \<longleftrightarrow>
     r = return_value m found out \<or> (\<exists>c. r = return_value m found (out @ [c])) \<or> r = Inr (False, out)"

lemma copy_nextI: "copy_next m json ewq sz found out (copy_value m json ewq (sz - 1) (Suc found) inS lvl bs (out @ [c]))"
  by (auto simp: copy_next_def)

lemma copy_stopI:
  "copy_stop m found out (return_value m found out)" "copy_stop m found out (return_value m found (out @ [c]))"
  "copy_stop m found out (Inr (False, out))"
  by (auto simp: copy_stop_def)

lemma copy_step:
  assumes "1 < sz" and "rd m found = Inr c" and r: "copy_value m json ewq sz found inS lvl bs out = r"
  shows "copy_next m json ewq sz found out r \<or> copy_stop m found out r"
  unfolding r [symmetric] copy_value.simps [of m json ewq sz found inS lvl bs out] assms(2) bindE_simps Let_def
  by (simp only: assms(1) not_True_eq_False if_False split: if_split) (simp add: copy_nextI copy_stopI)

text \<open>What is written fits, and a buffer that was cleared before stays a terminated string.\<close>

definition fits :: "nat \<Rightarrow> int \<Rightarrow> char list \<Rightarrow> bool" where
  "fits n sz res \<longleftrightarrow> length res \<le> n + (if sz > 1 then nat sz else 1) \<and>
     (res \<noteq> [] \<and> last res = NUL \<or> int (length res) < int n + sz)"

lemma return_value_fits: "return_value m found out = Inr (b, res) \<Longrightarrow> length out < n + max 1 (nat sz) \<Longrightarrow> fits n sz res"
  by (auto simp: return_value_def bindE_Inr_iff fits_def)

lemma copy_value_fits:
  "copy_value m json ewq sz found inS lvl bs out = Inr (b, res) \<Longrightarrow> fits (length out) sz res"
proof (induction "nat sz" arbitrary: sz found inS lvl bs out)
  case 0
  then show ?case using return_value_fits [of m found out b res] by (auto simp: copy_value.simps [of m json ewq sz])
next
  case (Suc n)
  show ?case
  proof (cases "sz > 1")
    case False
    with Suc.prems show ?thesis
      using return_value_fits [of m found out b res] by (auto simp: copy_value.simps [of m json ewq sz])
  next
    case True
    then obtain c where c: "rd m found = Inr c"
      using Suc.prems by (auto simp: copy_value.simps [of m json ewq sz] bindE_Inr_iff)
    from copy_step [OF True c Suc.prems] show ?thesis
    proof
      assume "copy_next m json ewq sz found out (Inr (b, res))"
      then obtain d inS lvl bs where "copy_value m json ewq (sz - 1) (Suc found) inS lvl bs (out @ [d]) = Inr (b, res)"
        by (auto simp: copy_next_def)
      moreover have "n = nat (sz - 1)" using Suc.hyps(2) True by linarith
      ultimately have "fits (length (out @ [d])) (sz - 1) res" by (intro Suc.hyps(1))
      then show ?thesis using True by (auto simp: fits_def split: if_splits)
    next
      assume "copy_stop m found out (Inr (b, res))"
      then show ?thesis
        using True by (auto simp: copy_stop_def fits_def dest!: return_value_fits [OF sym, where n = "length out" and sz = sz])
    qed
  qed
qed

lemma processor_fits:
  assumes "simpleJsonProcessor data key value sz = Inr (b, out)"
  shows "out = [] \<or> fits 0 sz out"
proof (cases "out = []")
  case False
  with assms obtain k m where "key = Some k" "data = Some m" "k \<noteq> []"
    by (cases key; cases data) (auto simp: simpleJsonProcessor_def split: if_splits)
  moreover from this assms False obtain d json ewq where "find_key m k 0 False 0 = Inr (Some (d, json, ewq))"
    by (cases "find_key m k 0 False 0") (auto simp: simpleJsonProcessor_def split: option.splits)
  moreover from calculation assms False obtain c where "rd m d = Inr c"
    by (cases "rd m d") (auto simp: simpleJsonProcessor_def)
  ultimately have "copy_value m json ewq sz (if ewq then Suc d else d) (\<not> json) 0 False [] = Inr (b, out)"
    using assms False by (auto simp: simpleJsonProcessor_def split: if_splits)
  then show ?thesis using copy_value_fits by fastforce
qed simp

text \<open>A value that is reported as found is terminated.\<close>

lemma return_value_end: "return_value m found out = Inr (b, res) \<Longrightarrow> res \<noteq> [] \<and> last res = NUL"
  by (auto simp: return_value_def bindE_Inr_iff)

lemma copy_value_true:
  "copy_value m json ewq sz found inS lvl bs out = Inr (True, res) \<Longrightarrow> res \<noteq> [] \<and> last res = NUL"
proof (induction "nat sz" arbitrary: sz found inS lvl bs out)
  case 0
  then show ?case by (auto simp: copy_value.simps [of m json ewq sz] dest: return_value_end)
next
  case (Suc n)
  show ?case
  proof (cases "sz > 1")
    case False
    with Suc.prems show ?thesis by (auto simp: copy_value.simps [of m json ewq sz] dest: return_value_end)
  next
    case True
    then obtain c where c: "rd m found = Inr c"
      using Suc.prems by (auto simp: copy_value.simps [of m json ewq sz] bindE_Inr_iff)
    from copy_step [OF True c Suc.prems] show ?thesis
    proof
      assume "copy_next m json ewq sz found out (Inr (True, res))"
      then obtain d inS lvl bs where "copy_value m json ewq (sz - 1) (Suc found) inS lvl bs (out @ [d]) = Inr (True, res)"
        by (auto simp: copy_next_def)
      moreover have "n = nat (sz - 1)" using Suc.hyps(2) True by linarith
      ultimately show ?thesis by (intro Suc.hyps(1))
    next
      assume "copy_stop m found out (Inr (True, res))"
      then obtain x where "return_value m found x = Inr (True, res)" by (force simp: copy_stop_def)
      then show ?thesis by (rule return_value_end)
    qed
  qed
qed

lemma processor_true:
  assumes "simpleJsonProcessor data key True sz = Inr (True, out)"
  shows "out \<noteq> [] \<and> last out = NUL"
proof -
  from assms obtain k m where "key = Some k" "data = Some m" "k \<noteq> []"
    by (cases key; cases data) (auto simp: simpleJsonProcessor_def split: if_splits)
  moreover from this assms obtain d json ewq where "find_key m k 0 False 0 = Inr (Some (d, json, ewq))"
    by (cases "find_key m k 0 False 0") (auto simp: simpleJsonProcessor_def split: option.splits)
  moreover from calculation assms obtain c where "rd m d = Inr c"
    by (cases "rd m d") (auto simp: simpleJsonProcessor_def)
  ultimately have "copy_value m json ewq sz (if ewq then Suc d else d) (\<not> json) 0 False [] = Inr (True, out)"
    using assms by (auto simp: simpleJsonProcessor_def split: if_splits)
  then show ?thesis using copy_value_true by blast
qed

section \<open>Finding the key\<close>

text \<open>The effect of text before the key on the two variables of the first loop.\<close>

fun pre_scan :: "string \<Rightarrow> bool \<Rightarrow> int \<Rightarrow> (bool \<times> int) option" where
  "pre_scan [] inS lvl = Some (inS, lvl)"
| "pre_scan (c # s) inS lvl =
     (if c = CHR 0x22 then pre_scan s (\<not> inS) lvl
      else if c = CHR 0x5C \<and> inS then (case s of [] \<Rightarrow> None | e # s' \<Rightarrow> pre_scan s' inS lvl)
      else if inS then pre_scan s inS lvl
      else if c = CHR ''{'' \<or> c = CHR ''['' then pre_scan s inS (lvl + 1)
      else if c = CHR ''}'' \<or> c = CHR '']'' then (if lvl \<le> 0 then None else pre_scan s inS (lvl - 1))
      else pre_scan s inS lvl)"

text \<open>The key does not begin anywhere in the text, where \<open>tail\<close> follows it.\<close>

fun no_match :: "string \<Rightarrow> string \<Rightarrow> string \<Rightarrow> bool" where
  "no_match key [] tail \<longleftrightarrow> True"
| "no_match key (c # s) tail \<longleftrightarrow> \<not> prefix key (c # s @ tail) \<and> no_match key s tail"

lemma find_key_skip:
  "holds m d (pre @ tail) \<Longrightarrow> NUL \<notin> set key \<Longrightarrow> no_match key pre tail \<Longrightarrow> pre_scan pre inS lvl = Some (inS', lvl') \<Longrightarrow>
   find_key m key d inS lvl = find_key m key (d + length pre) inS' lvl'"
proof (induction pre inS lvl arbitrary: d rule: pre_scan.induct)
  case (2 c s inS lvl)
  have h: "rd m d = Inr c" "c \<noteq> NUL" "holds m (Suc d) (s @ tail)" using "2.prems"(1) holds_Cons by auto
  have eq: "strncmp_eq m d key = Inr False"
    using strncmp_eq_holds [OF "2.prems"(1,2)] "2.prems"(3) by simp
  have m: "no_match key s tail" using "2.prems"(3) by simp
  consider (quote) "c = CHR 0x22" | (esc) "c = CHR 0x5C" inS | (inside) "c \<noteq> CHR 0x22" "c \<noteq> CHR 0x5C" inS
    | (opn) "c = CHR ''{'' \<or> c = CHR ''[''" "\<not> inS" | (cls) "c = CHR ''}'' \<or> c = CHR '']''" "\<not> inS"
    | (other) "c \<noteq> CHR 0x22" "c \<notin> {CHR ''{'', CHR ''['', CHR ''}'', CHR '']''}" "\<not> inS" by blast
  then show ?case
  proof cases
    case quote
    with "2.IH"(1) [OF quote h(3) "2.prems"(2) m] "2.prems"(4) h eq show ?thesis
      by (simp add: find_key.simps [of m key d])
  next
    case esc
    then obtain e s' where s: "s = e # s'" using "2.prems"(4) by (cases s) auto
    then have h2: "rd m (Suc d) = Inr e" "e \<noteq> NUL" "holds m (Suc (Suc d)) (s' @ tail)"
      using h(3) holds_Cons by auto
    with "2.IH"(2) [OF _ _ s h2(3) "2.prems"(2)] esc m "2.prems"(4) h eq s show ?thesis
      by (simp add: find_key.simps [of m key d])
  next
    case inside
    with "2.IH"(3) [OF _ _ _ h(3) "2.prems"(2) m] "2.prems"(4) h eq show ?thesis
      by (simp add: find_key.simps [of m key d])
  next
    case opn
    with "2.IH"(4) [OF _ _ _ _ h(3) "2.prems"(2) m] "2.prems"(4) h eq show ?thesis
      by (auto simp: find_key.simps [of m key d])
  next
    case cls
    with "2.IH"(5) [OF _ _ _ _ _ _ h(3) "2.prems"(2) m] "2.prems"(4) h eq show ?thesis
      by (auto simp: find_key.simps [of m key d] split: if_splits)
  next
    case other
    with "2.IH"(6) [OF _ _ _ _ _ h(3) "2.prems"(2) m] "2.prems"(4) h eq show ?thesis
      by (simp add: find_key.simps [of m key d])
  qed
qed simp

definition blanks :: "string \<Rightarrow> bool" where
  "blanks b \<longleftrightarrow> list_all (\<lambda>c. c = CHR '' '' \<or> c = CHR 0x09) b"

lemma skip_blanks_holds:
  "holds m d (b @ c # s) \<Longrightarrow> blanks b \<Longrightarrow> c \<noteq> CHR '' '' \<Longrightarrow> c \<noteq> CHR 0x09 \<Longrightarrow> skip_blanks m d = Inr (d + length b)"
proof (induction b arbitrary: d)
  case Nil
  then show ?case using holds_Cons [of m d c s] by (simp add: skip_blanks.simps [of m d])
next
  case (Cons x b)
  then show ?case using holds_Cons [of m d x "b @ c # s"] by (auto simp: skip_blanks.simps [of m d] blanks_def)
qed

lemma find_key_hit:
  assumes data: "holds m d (key @ CHR 0x22 # b1 @ CHR '':'' # b2 @ c # s)" and "NUL \<notin> set key" and "key \<noteq> []"
    and "blanks b1" "blanks b2" and "c \<noteq> CHR '' ''" "c \<noteq> CHR 0x09" and "lvl \<le> 1"
  shows "find_key m key d inS lvl =
    Inr (Some (d + length key + length b1 + length b2 + 2, c = CHR ''{'' \<or> c = CHR ''['', c = CHR 0x22))"
proof -
  let ?t = "CHR 0x22 # b1 @ CHR '':'' # b2 @ c # s"
  obtain k ks where k: "key = k # ks" using assms(3) by (cases key) auto
  have h0: "rd m d = Inr k" "k \<noteq> NUL" using data holds_Cons by (auto simp: k)
  have eq: "strncmp_eq m d key = Inr True" using strncmp_eq_holds [OF data assms(2)] by simp
  have h1: "rd m (d + length key) = Inr (CHR 0x22)" "holds m (Suc (d + length key)) (b1 @ CHR '':'' # b2 @ c # s)"
    using holds_append [OF data] holds_Cons by auto
  let ?d2 = "Suc (d + length key) + length b1"
  have h2: "rd m ?d2 = Inr (CHR '':'')" "holds m (Suc ?d2) (b2 @ c # s)"
    using holds_append [OF h1(2)] holds_Cons by auto
  let ?d3 = "Suc ?d2 + length b2"
  have h3: "rd m ?d3 = Inr c" using holds_append [OF h2(2)] holds_Cons by auto
  have "skip_blanks m (Suc (d + length key)) = Inr ?d2" "skip_blanks m (Suc ?d2) = Inr ?d3"
    using skip_blanks_holds [OF h1(2)] skip_blanks_holds [OF h2(2)] assms(4-7) by simp_all
  then show ?thesis
    using h0 eq h1(1) h2(1) h3 assms(8) by (auto simp: find_key.simps [of m key d] add.commute add.left_commute)
qed

section \<open>Copying the value\<close>

lemma copy_full:
  assumes "sz = 1" and "holds m d (c # s)"
  shows "copy_value m json ewq sz d inS lvl bs out = Inr (True, out @ [NUL])"
  using assms holds_Cons [of m d c s] by (simp add: copy_value.simps [of m json ewq 1] return_value_def)

lemma copy_string:
  "holds m d (items_text its @ CHR 0x22 # rest) \<Longrightarrow> list_all item_ok its \<Longrightarrow> 1 \<le> sz \<Longrightarrow>
   copy_value m False True sz d True 0 False out = Inr (True, out @ take (nat (sz - 1)) (items_text its) @ [NUL])"
proof (induction its arbitrary: d sz out)
  case Nil
  then show ?case
    using holds_Cons [of m d] by (simp add: copy_value.simps [of m False True sz] return_value_def)
next
  case (Cons i its)
  show ?case
  proof (cases "sz = 1")
    case True
    with Cons.prems(1) show ?thesis by (cases i) (simp_all add: copy_full)
  next
    case False
    then have sz: "1 < sz" "nat (sz - 1) = Suc (nat (sz - 1 - 1))" using Cons.prems(3) by auto
    show ?thesis
    proof (cases i)
      case (Ch c)
      then have h: "rd m d = Inr c" "holds m (Suc d) (items_text its @ CHR 0x22 # rest)"
        using Cons.prems(1) holds_Cons by auto
      have "copy_value m False True sz d True 0 False out = copy_value m False True (sz - 1) (Suc d) True 0 False (out @ [c])"
        using Ch Cons.prems(2) sz h(1) by (simp add: copy_value.simps [of m False True sz])
      with Cons.IH [OF h(2), of "sz - 1" "out @ [c]"] Cons.prems(2) sz Ch show ?thesis by simp
    next
      case (Esc c)
      then have h: "rd m d = Inr (CHR 0x5C)" "rd m (Suc d) = Inr c" "c \<noteq> NUL"
        "holds m (Suc d) (c # items_text its @ CHR 0x22 # rest)" "holds m (Suc (Suc d)) (items_text its @ CHR 0x22 # rest)"
        using Cons.prems(1) holds_Cons [of m d "CHR 0x5C"] holds_Cons [of m "Suc d" c] by auto
      have one: "copy_value m False True sz d True 0 False out =
          copy_value m False True (sz - 1) (Suc d) True 0 True (out @ [CHR 0x5C])"
        using sz h(1) by (simp add: copy_value.simps [of m False True sz])
      show ?thesis
      proof (cases "sz = 2")
        case True
        with one h(4) sz Esc show ?thesis by (simp add: copy_full)
      next
        case False
        then have sz2: "1 < sz - 1" "nat (sz - 1 - 1) = Suc (nat (sz - 2 - 1))" using sz(1) by auto
        have "copy_value m False True (sz - 1) (Suc d) True 0 True (out @ [CHR 0x5C]) =
            copy_value m False True (sz - 2) (Suc (Suc d)) True 0 False (out @ [CHR 0x5C, c])"
          using sz2 h(2,3) by (simp add: copy_value.simps [of m False True "sz - 1"])
        with one Cons.IH [OF h(5), of "sz - 2" "out @ [CHR 0x5C, c]"] Cons.prems(2) sz sz2 Esc show ?thesis by simp
      qed
    qed
  qed
qed

text \<open>A literal (a number, \<open>true\<close>, \<open>false\<close>, \<open>null\<close>) ends at a comma or a closing bracket.\<close>

definition literal_char :: "char \<Rightarrow> bool" where
  "literal_char c \<longleftrightarrow> c \<notin> {CHR 0x22, CHR 0x5C, CHR ''{'', CHR ''}'', CHR ''['', CHR '']'', CHR '','', NUL}"

lemma copy_literal:
  "holds m d (v @ t # rest) \<Longrightarrow> list_all literal_char v \<Longrightarrow> t \<in> {CHR '','', CHR ''}'', CHR '']''} \<Longrightarrow> 1 \<le> sz \<Longrightarrow>
   copy_value m False False sz d True 0 False out = Inr (True, out @ take (nat (sz - 1)) v @ [NUL])"
proof (induction v arbitrary: d sz out)
  case Nil
  then show ?case
    using holds_Cons [of m d t rest] by (auto simp: copy_value.simps [of m False False sz] return_value_def)
next
  case (Cons c v)
  show ?case
  proof (cases "sz = 1")
    case True
    with Cons.prems(1) show ?thesis by (simp add: copy_full)
  next
    case False
    then have sz: "1 < sz" "nat (sz - 1) = Suc (nat (sz - 1 - 1))" using Cons.prems(4) by auto
    have h: "rd m d = Inr c" "holds m (Suc d) (v @ t # rest)" using Cons.prems(1) holds_Cons by auto
    have "copy_value m False False sz d True 0 False out = copy_value m False False (sz - 1) (Suc d) True 0 False (out @ [c])"
      using Cons.prems(2) sz h(1) by (simp add: copy_value.simps [of m False False sz] literal_char_def)
    with Cons.IH [OF h(2), of "sz - 1" "out @ [c]"] Cons.prems(2,3) sz show ?thesis by simp
  qed
qed

text \<open>An object or array: the copy counts both kinds of brackets outside of strings.\<close>

fun copy_ok :: "piece \<Rightarrow> bool" where
  "copy_ok (Plain c) \<longleftrightarrow> piece_ok (Plain c) \<and> c \<noteq> CHR 0x5C"
| "copy_ok p \<longleftrightarrow> piece_ok p"

definition opens :: "piece \<Rightarrow> bool" where
  "opens p \<longleftrightarrow> p = BraceOpen \<or> p = Plain (CHR ''['')"

definition shuts :: "piece \<Rightarrow> bool" where
  "shuts p \<longleftrightarrow> p = BraceClose \<or> p = Plain (CHR '']'')"

fun balanced :: "nat \<Rightarrow> piece list \<Rightarrow> bool" where
  "balanced n [] \<longleftrightarrow> False"
| "balanced n (p # ps) \<longleftrightarrow>
     (if opens p then balanced (Suc n) ps
      else if shuts p then (if n = 1 then ps = [] else balanced (n - 1) ps)
      else balanced n ps)"

lemma copy_json_items:
  "holds m d (items_text its @ rest) \<Longrightarrow> list_all item_ok its \<Longrightarrow> int (length (items_text its)) < sz \<Longrightarrow>
   copy_value m True False sz d True lvl False out =
   copy_value m True False (sz - int (length (items_text its))) (d + length (items_text its)) True lvl False (out @ items_text its)"
proof (induction its arbitrary: d sz out)
  case (Cons i its)
  show ?case
  proof (cases i)
    case (Ch c)
    then have h: "rd m d = Inr c" "holds m (Suc d) (items_text its @ rest)"
      using Cons.prems(1) holds_Cons by auto
    have "copy_value m True False sz d True lvl False out = copy_value m True False (sz - 1) (Suc d) True lvl False (out @ [c])"
      using Ch Cons.prems(2,3) h(1) by (simp add: copy_value.simps [of m True False sz])
    with Cons.IH [OF h(2), of "sz - 1" "out @ [c]"] Cons.prems(2,3) Ch show ?thesis by (simp add: algebra_simps)
  next
    case (Esc c)
    then have h: "rd m d = Inr (CHR 0x5C)" "rd m (Suc d) = Inr c" "c \<noteq> NUL" "holds m (Suc (Suc d)) (items_text its @ rest)"
      using Cons.prems(1) holds_Cons [of m d "CHR 0x5C"] holds_Cons [of m "Suc d" c] by auto
    have "copy_value m True False sz d True lvl False out =
        copy_value m True False (sz - 1) (Suc d) True lvl True (out @ [CHR 0x5C])"
      using Cons.prems(3) Esc h(1) by (simp add: copy_value.simps [of m True False sz])
    also have "\<dots> = copy_value m True False (sz - 2) (Suc (Suc d)) True lvl False (out @ [CHR 0x5C, c])"
      using Cons.prems(3) Esc h(2,3) by (simp add: copy_value.simps [of m True False "sz - 1"])
    finally show ?thesis
      using Cons.IH [OF h(4), of "sz - 2" "out @ [CHR 0x5C, c]"] Cons.prems(2,3) Esc by (simp add: algebra_simps)
  qed
qed simp

lemma copy_json_quote:
  assumes "rd m d = Inr (CHR 0x22)" and "1 < sz"
  shows "copy_value m True False sz d inS lvl False out =
    copy_value m True False (sz - 1) (Suc d) (\<not> inS) lvl False (out @ [CHR 0x22])"
  using assms by (simp add: copy_value.simps [of m True False sz])

lemma copy_json_string:
  assumes "holds m d (piece_text (Str its) @ rest)" and "list_all item_ok its" and "int (length (piece_text (Str its))) < sz"
  shows "copy_value m True False sz d False lvl False out =
    copy_value m True False (sz - int (length (piece_text (Str its)))) (d + length (piece_text (Str its))) False lvl False
      (out @ piece_text (Str its))"
proof -
  let ?n = "length (items_text its)"
  have h: "rd m d = Inr (CHR 0x22)" "holds m (Suc d) (items_text its @ CHR 0x22 # rest)"
    using assms(1) holds_Cons by auto
  have q: "rd m (Suc d + ?n) = Inr (CHR 0x22)" using holds_append [OF h(2)] holds_Cons by auto
  have "copy_value m True False sz d False lvl False out =
      copy_value m True False (sz - 1) (Suc d) True lvl False (out @ [CHR 0x22])"
    using copy_json_quote [OF h(1), of sz False lvl out] assms(3) by simp
  also have "\<dots> = copy_value m True False (sz - 1 - int ?n) (Suc d + ?n) True lvl False (out @ CHR 0x22 # items_text its)"
    using copy_json_items [OF h(2) assms(2), of "sz - 1" lvl "out @ [CHR 0x22]"] assms(3) by simp
  also have "\<dots> = copy_value m True False (sz - 1 - int ?n - 1) (Suc (Suc d + ?n)) False lvl False
      (out @ CHR 0x22 # items_text its @ [CHR 0x22])"
    using copy_json_quote [OF q, of "sz - 1 - int ?n" True lvl] assms(3) by simp
  finally show ?thesis by (simp add: algebra_simps)
qed

lemma copy_json:
  "holds m d (text_of ps @ rest) \<Longrightarrow> list_all copy_ok ps \<Longrightarrow> balanced n ps \<Longrightarrow> int (length (text_of ps)) < sz \<Longrightarrow>
   0 < n \<or> (\<exists>p qs. ps = p # qs \<and> opens p) \<Longrightarrow>
   copy_value m True False sz d False (int n) False out = Inr (True, out @ text_of ps @ [NUL])"
proof (induction ps arbitrary: n d sz out)
  case (Cons p ps)
  let ?n = "length (piece_text p)"
  have h: "holds m d (piece_text p @ text_of ps @ rest)" using Cons.prems(1) by simp
  then have hs: "holds m (d + ?n) (text_of ps @ rest)" using holds_append by blast
  have ok: "copy_ok p" "list_all copy_ok ps" using Cons.prems(2) by simp_all
  have fit: "int ?n + int (length (text_of ps)) < sz" using Cons.prems(4) by simp
  have IH: "copy_value m True False (sz - int ?n) (d + ?n) False (int k) False (out @ piece_text p) =
      Inr (True, out @ text_of (p # ps) @ [NUL])" if "balanced k ps" "0 < k" for k
    using Cons.IH [OF hs ok(2) that(1), of "sz - int ?n" "out @ piece_text p"] that(2) fit by simp
  consider (opn) c where "opens p" "piece_text p = [c]" "c = CHR ''{'' \<or> c = CHR ''[''"
    | (cls) c where "shuts p" "\<not> opens p" "piece_text p = [c]" "c = CHR ''}'' \<or> c = CHR '']''"
    | (str) its where "p = Str its"
    | (other) c where "p = Plain c" "\<not> opens p" "\<not> shuts p"
    by (cases p) (auto simp: opens_def shuts_def)
  then show ?case
  proof cases
    case (opn c)
    then have "rd m d = Inr c" using h holds_Cons by auto
    then have "copy_value m True False sz d False (int n) False out =
        copy_value m True False (sz - 1) (Suc d) False (int (Suc n)) False (out @ [c])"
      using opn fit by (auto simp: copy_value.simps [of m True False sz] add.commute)
    with IH [of "Suc n"] opn Cons.prems(3) show ?thesis by simp
  next
    case (cls c)
    then have rd: "rd m d = Inr c" "c \<noteq> NUL" using h holds_Cons by auto
    have n: "0 < n" using cls Cons.prems(5) by auto
    show ?thesis
    proof (cases "n = 1")
      case True
      with cls Cons.prems(3) rd fit show ?thesis
        by (auto simp: copy_value.simps [of m True False sz] return_value_def)
    next
      case False
      then have "int n - 1 = int (n - 1)" "int (n - 1) > 0" using n by auto
      then have "copy_value m True False sz d False (int n) False out =
          copy_value m True False (sz - 1) (Suc d) False (int (n - 1)) False (out @ [c])"
        using cls rd fit n by (auto simp: copy_value.simps [of m True False sz] Let_def)
      with IH [of "n - 1"] cls False n Cons.prems(3) show ?thesis by simp
    qed
  next
    case (str its)
    then have "copy_value m True False sz d False (int n) False out =
        copy_value m True False (sz - int ?n) (d + ?n) False (int n) False (out @ piece_text p)"
      using copy_json_string [of m d its "text_of ps @ rest" sz "int n" out] h ok(1) fit by simp
    with IH [of n] str Cons.prems(3,5) show ?thesis by (simp add: opens_def shuts_def)
  next
    case (other c)
    then have "rd m d = Inr c" using h holds_Cons by auto
    then have "copy_value m True False sz d False (int n) False out =
        copy_value m True False (sz - 1) (Suc d) False (int n) False (out @ [c])"
      using other ok(1) fit by (auto simp: copy_value.simps [of m True False sz] opens_def shuts_def)
    with IH [of n] other Cons.prems(3,5) show ?thesis by (simp add: opens_def shuts_def)
  qed
qed simp

section \<open>Correctness\<close>

lemma processor_member:
  assumes data: "holds m 0 (pre @ key @ CHR 0x22 # b1 @ CHR '':'' # b2 @ c # s)" and key: "key \<noteq> []" "NUL \<notin> set key"
    and "no_match key pre (key @ CHR 0x22 # b1 @ CHR '':'' # b2 @ c # s)"
    and "pre_scan pre False 0 = Some (inS, lvl)" "lvl \<le> 1" and "blanks b1" "blanks b2"
    and c: "c \<noteq> CHR '' ''" "c \<noteq> CHR 0x09"
  shows "simpleJsonProcessor (Some m) (Some key) True sz =
    copy_value m (c = CHR ''{'' \<or> c = CHR ''['') (c = CHR 0x22) sz
      (length pre + length key + length b1 + length b2 + (if c = CHR 0x22 then 3 else 2))
      (\<not> (c = CHR ''{'' \<or> c = CHR ''['')) 0 False []"
proof -
  let ?d = "length pre + length key + length b1 + length b2 + 2"
  have hit: "holds m (length pre) (key @ CHR 0x22 # b1 @ CHR '':'' # b2 @ c # s)"
    using holds_append [OF data] by simp
  have "find_key m key 0 False 0 = Inr (Some (?d, c = CHR ''{'' \<or> c = CHR ''['', c = CHR 0x22))"
    using find_key_skip [OF data key(2) assms(4,5)] find_key_hit [OF hit key(2,1) assms(7,8) c assms(6), of inS] by simp
  moreover have "holds m (length pre + length (key @ CHR 0x22 # b1 @ CHR '':'' # b2)) (c # s)"
    using holds_append [of m "length pre" "key @ CHR 0x22 # b1 @ CHR '':'' # b2" "c # s"] hit by simp
  then have "rd m ?d = Inr c" "c \<noteq> NUL" using holds_Cons by (auto simp: add.assoc)
  ultimately show ?thesis using key(1) by (simp add: simpleJsonProcessor_def numeral_3_eq_3)
qed

lemma processor_string:
  assumes "holds m 0 (pre @ key @ CHR 0x22 # b1 @ CHR '':'' # b2 @ CHR 0x22 # items_text its @ CHR 0x22 # rest)"
    and "key \<noteq> []" "NUL \<notin> set key"
    and "no_match key pre (key @ CHR 0x22 # b1 @ CHR '':'' # b2 @ CHR 0x22 # items_text its @ CHR 0x22 # rest)"
    and "pre_scan pre False 0 = Some (inS, lvl)" "lvl \<le> 1" and "blanks b1" "blanks b2"
    and "list_all item_ok its" and "1 \<le> sz"
  shows "simpleJsonProcessor (Some m) (Some key) True sz =
    Inr (True, take (nat (sz - 1)) (items_text its) @ [NUL])"
proof -
  have "holds m (0 + length (pre @ key @ CHR 0x22 # b1 @ CHR '':'' # b2 @ [CHR 0x22])) (items_text its @ CHR 0x22 # rest)"
    using assms(1) by (intro holds_append) simp
  then have "holds m (length pre + length key + length b1 + length b2 + 3) (items_text its @ CHR 0x22 # rest)"
    by (simp add: numeral_3_eq_3 add.assoc)
  then show ?thesis
    using processor_member [OF assms(1-8), of sz] copy_string [OF _ assms(9,10), of m _ rest "[]"] by simp
qed

text \<open>
  C20. The value of a member that is a string: \<open>simpleJsonProcessor\<close> returns 1 and copies exactly the
  characters between the quotes, escape sequences included, cut off to the size of the buffer. The
  key may follow any text in which it does not occur and which leaves at most one bracket open.
\<close>

theorem simpleJsonProcessor_string:
  assumes "holds m 0 (pre @ key @ CHR 0x22 # b1 @ CHR '':'' # b2 @ CHR 0x22 # items_text its @ CHR 0x22 # rest)"
    and "key \<noteq> []" "NUL \<notin> set key"
    and "no_match key pre (key @ CHR 0x22 # b1 @ CHR '':'' # b2 @ CHR 0x22 # items_text its @ CHR 0x22 # rest)"
    and "pre_scan pre False 0 = Some (inS, lvl)" "lvl \<le> 1" and "blanks b1" "blanks b2"
    and "list_all item_ok its" and "1 \<le> sz"
  shows "simpleJsonProcessor (Some m) (Some key) True sz =
    Inr (True, take (nat (sz - 1)) (items_text its) @ [NUL])"
  using assms by (rule processor_string)

theorem simpleJsonProcessor_string_witness:
  "simpleJsonProcessor (Some (''{'' @ [CHR 0x22] @ ''id'' @ CHR 0x22 # CHR '':'' # CHR 0x22 # ''xyz'' @ CHR 0x22 # ''}'' @ [NUL]))
     (Some ''id'') True 3 = Inr (True, ''xy'' @ [NUL])"
proof -
  let ?pre = "[CHR ''{'', CHR 0x22]" and ?its = "[Ch (CHR ''x''), Ch (CHR ''y''), Ch (CHR ''z'')]"
  have "holds ((?pre @ ''id'' @ CHR 0x22 # [] @ CHR '':'' # [] @ CHR 0x22 # items_text ?its @ CHR 0x22 # ''}'') @ [NUL]) 0
      (?pre @ ''id'' @ CHR 0x22 # [] @ CHR '':'' # [] @ CHR 0x22 # items_text ?its @ CHR 0x22 # ''}'')"
    by (rule holds_cstring) simp
  from simpleJsonProcessor_string [OF this, of True 1 3] show ?thesis by (simp add: blanks_def)
qed

text \<open>
  The value of a member that is a literal is copied up to the comma or bracket that ends it.
\<close>

theorem simpleJsonProcessor_literal:
  assumes "holds m 0 (pre @ key @ CHR 0x22 # b1 @ CHR '':'' # b2 @ c # v @ t # rest)"
    and "key \<noteq> []" "NUL \<notin> set key"
    and "no_match key pre (key @ CHR 0x22 # b1 @ CHR '':'' # b2 @ c # v @ t # rest)"
    and "pre_scan pre False 0 = Some (inS, lvl)" "lvl \<le> 1" and "blanks b1" "blanks b2"
    and "list_all literal_char (c # v)" "c \<noteq> CHR '' ''" "c \<noteq> CHR 0x09"
    and "t \<in> {CHR '','', CHR ''}'', CHR '']''}" and "1 \<le> sz"
  shows "simpleJsonProcessor (Some m) (Some key) True sz = Inr (True, take (nat (sz - 1)) (c # v) @ [NUL])"
proof -
  have "holds m (0 + length (pre @ key @ CHR 0x22 # b1 @ CHR '':'' # b2)) ((c # v) @ t # rest)"
    using assms(1) by (intro holds_append) simp
  then have "holds m (length pre + length key + length b1 + length b2 + 2) ((c # v) @ t # rest)"
    by (simp add: numeral_2_eq_2 add.assoc)
  moreover have "c \<noteq> CHR ''{''" "c \<noteq> CHR ''[''" "c \<noteq> CHR 0x22" using assms(9) by (auto simp: literal_char_def)
  ultimately show ?thesis
    using processor_member [OF assms(1-8,10,11), of sz] copy_literal [OF _ assms(9,12,13), of m _ rest "[]"] by simp
qed

theorem simpleJsonProcessor_literal_witness:
  "simpleJsonProcessor (Some (''{'' @ [CHR 0x22] @ ''n'' @ CHR 0x22 # CHR '':'' # ''42'' @ ''}'' @ [NUL])) (Some ''n'') True 8 =
     Inr (True, ''42'' @ [NUL])"
proof -
  let ?pre = "[CHR ''{'', CHR 0x22]"
  have "holds ((?pre @ ''n'' @ CHR 0x22 # [] @ CHR '':'' # [] @ CHR ''4'' # ''2'' @ CHR ''}'' # []) @ [NUL]) 0
      (?pre @ ''n'' @ CHR 0x22 # [] @ CHR '':'' # [] @ CHR ''4'' # ''2'' @ CHR ''}'' # [])"
    by (rule holds_cstring) simp
  from simpleJsonProcessor_literal [OF this, of True 1 8] show ?thesis by (simp add: blanks_def literal_char_def)
qed

text \<open>
  The value of a member that is an object or an array is copied whole, from its opening bracket
  to the bracket that closes it, whatever its strings contain, when the buffer has room for it.
\<close>

theorem simpleJsonProcessor_object:
  assumes "holds m 0 (pre @ key @ CHR 0x22 # b1 @ CHR '':'' # b2 @ c # s)"
    and "key \<noteq> []" "NUL \<notin> set key"
    and "no_match key pre (key @ CHR 0x22 # b1 @ CHR '':'' # b2 @ c # s)"
    and "pre_scan pre False 0 = Some (inS, lvl)" "lvl \<le> 1" and "blanks b1" "blanks b2"
    and "c # s = text_of (p # ps) @ rest" and "opens p" and "list_all copy_ok (p # ps)" and "balanced 0 (p # ps)"
    and "int (length (text_of (p # ps))) < sz"
  shows "simpleJsonProcessor (Some m) (Some key) True sz = Inr (True, text_of (p # ps) @ [NUL])"
proof -
  have c: "c = CHR ''{'' \<or> c = CHR ''[''" using assms(9,10) by (auto simp: opens_def)
  have "holds m (0 + length (pre @ key @ CHR 0x22 # b1 @ CHR '':'' # b2)) (c # s)"
    using assms(1) by (intro holds_append) simp
  then have h: "holds m (length pre + length key + length b1 + length b2 + 2) (text_of (p # ps) @ rest)"
    by (simp add: numeral_2_eq_2 add.assoc assms(9))
  have "copy_value m True False sz (length pre + length key + length b1 + length b2 + 2) False (int 0) False [] =
      Inr (True, [] @ text_of (p # ps) @ [NUL])"
    using assms(10) by (intro copy_json [OF h assms(11,12,13)]) blast
  moreover have nc: "c \<noteq> CHR '' ''" "c \<noteq> CHR 0x09" "c \<noteq> CHR 0x22" using c by auto
  moreover have "(c = CHR ''{'' \<or> c = CHR ''['') = True" "(c = CHR 0x22) = False" using c nc by simp_all
  ultimately show ?thesis
    using processor_member [OF assms(1-8) nc(1,2), of sz] by (simp del: text_of_simps)
qed

theorem simpleJsonProcessor_object_witness:
  "simpleJsonProcessor (Some (''{'' @ [CHR 0x22] @ ''d'' @ CHR 0x22 # CHR '':'' # ''{[]}'' @ ''}'' @ [NUL])) (Some ''d'') True 8 =
     Inr (True, ''{[]}'' @ [NUL])"
proof -
  let ?pre = "[CHR ''{'', CHR 0x22]" and ?ps = "[Plain (CHR ''[''), Plain (CHR '']''), BraceClose]"
  have "holds ((?pre @ ''d'' @ CHR 0x22 # [] @ CHR '':'' # [] @ CHR ''{'' # ''[]}}'') @ [NUL]) 0
      (?pre @ ''d'' @ CHR 0x22 # [] @ CHR '':'' # [] @ CHR ''{'' # ''[]}}'')"
    by (rule holds_cstring) simp
  then have "simpleJsonProcessor (Some ((?pre @ ''d'' @ CHR 0x22 # [] @ CHR '':'' # [] @ CHR ''{'' # ''[]}}'') @ [NUL])) (Some ''d'') True 8 =
      Inr (True, text_of (BraceOpen # ?ps) @ [NUL])"
  proof (rule simpleJsonProcessor_object)
    show "pre_scan ?pre False 0 = Some (True, 1)" by simp
    show "balanced 0 (BraceOpen # ?ps)" by (simp add: opens_def shuts_def)
    show "CHR ''{'' # ''[]}}'' = text_of (BraceOpen # ?ps) @ ''}''" by simp
  qed (simp_all add: blanks_def opens_def)
  then show ?thesis by simp
qed

lemma processor_overrun:
  assumes "key \<noteq> []" and "NUL \<notin> set (pre @ key)" and "no_match key pre key"
    and "pre_scan pre False 0 = Some (inS, lvl)" and "lvl \<le> 1"
  shows "simpleJsonProcessor (Some (pre @ key @ [NUL])) (Some key) value sz = Inl OutOfBounds"
proof -
  let ?m = "pre @ key @ [NUL]"
  have h: "holds ?m 0 (pre @ key)" using holds_cstring [OF assms(2)] by simp
  have k: "NUL \<notin> set key" using assms(2) by simp
  have hk: "holds ?m (length pre) (key @ [])" using holds_append [OF h] by simp
  obtain x ks where x: "key = x # ks" using assms(1) by (cases key) auto
  have "rd ?m (length pre) = Inr x" "x \<noteq> NUL" using hk holds_Cons by (auto simp: x)
  moreover have "strncmp_eq ?m (length pre) key = Inr True" using strncmp_eq_holds [OF hk k] by simp
  moreover have "rd ?m (length pre + length key) = Inr NUL" using holds_append [OF hk] holds_Nil by auto
  moreover have "find_key ?m key (Suc (length pre + length key)) inS lvl = Inl OutOfBounds"
    by (simp add: find_key.simps [of ?m key "Suc (length pre + length key)"] rd_def)
  ultimately have "find_key ?m key (length pre) inS lvl = Inl OutOfBounds"
    using assms(5) by (simp add: find_key.simps [of ?m key "length pre"])
  then show ?thesis
    using find_key_skip [OF h k assms(3,4)] assms(1) by (simp add: simpleJsonProcessor_def)
qed

text \<open>
  A text that ends with the key makes the function read past its end: after the key it steps over
  the terminator and goes on. Any text in which the key occurs only at the very end does.
\<close>

theorem simpleJsonProcessor_overrun:
  assumes "key \<noteq> []" and "NUL \<notin> set (pre @ key)" and "no_match key pre key"
    and "pre_scan pre False 0 = Some (inS, lvl)" and "lvl \<le> 1"
  shows "simpleJsonProcessor (Some (pre @ key @ [NUL])) (Some key) value sz = Inl OutOfBounds"
  using assms by (rule processor_overrun)

theorem simpleJsonProcessor_overrun_witness:
  "simpleJsonProcessor (Some (''{'' @ [CHR 0x22] @ ''id'' @ [NUL])) (Some ''id'') True 8 = Inl OutOfBounds"
  using simpleJsonProcessor_overrun [of "''id''" "[CHR ''{'', CHR 0x22]" True 1 True 8] by simp

text \<open>
  A key is also found at the end of a longer one: in an object whose first member's name ends with
  the key, the function returns the value of that member.
\<close>

theorem simpleJsonProcessor_suffix_key:
  assumes key: "key = k # ks" "NUL \<notin> set key" and k: "k \<noteq> CHR ''{''" "k \<noteq> CHR 0x22"
    and x: "list_all (\<lambda>c. c \<noteq> k \<and> c \<noteq> CHR 0x22 \<and> c \<noteq> CHR 0x5C \<and> c \<noteq> NUL) x"
    and v: "list_all item_ok its" and sz: "int (length (items_text its)) < sz"
  shows "simpleJsonProcessor
      (Some (''{'' @ [CHR 0x22] @ x @ key @ [CHR 0x22, CHR '':'', CHR 0x22] @ items_text its @ [CHR 0x22, CHR ''}'', NUL]))
      (Some key) True sz = Inr (True, items_text its @ [NUL])"
proof -
  let ?tail = "key @ CHR 0x22 # [] @ CHR '':'' # [] @ CHR 0x22 # items_text its @ CHR 0x22 # ''}''"
  have xs: "no_match key y tail" "pre_scan y True 1 = Some (True, 1)"
    if "list_all (\<lambda>c. c \<noteq> k \<and> c \<noteq> CHR 0x22 \<and> c \<noteq> CHR 0x5C \<and> c \<noteq> NUL) y" for y tail
    using that by (induction y) (auto simp: key(1))
  have "holds ((''{'' @ [CHR 0x22] @ x @ ?tail) @ [NUL]) 0 (''{'' @ [CHR 0x22] @ x @ ?tail)"
    using x key(2) items_no_NUL [OF v] by (intro holds_cstring) (auto simp: list_all_iff)
  then have data: "holds (''{'' @ [CHR 0x22] @ x @ key @ [CHR 0x22, CHR '':'', CHR 0x22] @ items_text its @ [CHR 0x22, CHR ''}'', NUL])
      0 ((''{'' @ [CHR 0x22] @ x) @ ?tail)" by simp
  have "no_match key (''{'' @ [CHR 0x22] @ x) ?tail" using xs(1) [OF x] k by (simp add: key(1))
  moreover have "pre_scan (''{'' @ [CHR 0x22] @ x) False 0 = Some (True, 1)" using xs(2) [OF x] by simp
  ultimately have "simpleJsonProcessor
      (Some (''{'' @ [CHR 0x22] @ x @ key @ [CHR 0x22, CHR '':'', CHR 0x22] @ items_text its @ [CHR 0x22, CHR ''}'', NUL]))
      (Some key) True sz =
      Inr (True, take (nat (sz - 1)) (items_text its) @ [NUL])"
    using sz key by (intro processor_string [where lvl = 1 and inS = True, OF data _ key(2) _ _ _ _ _ v]) (simp_all add: blanks_def)
  then show ?thesis using sz by simp
qed

theorem simpleJsonProcessor_suffix_key_witness:
  "simpleJsonProcessor
      (Some (''{'' @ [CHR 0x22] @ ''objectI'' @ ''d'' @ [CHR 0x22, CHR '':'', CHR 0x22] @ ''7'' @ [CHR 0x22, CHR ''}'', NUL]))
      (Some ''d'') True 8 = Inr (True, ''7'' @ [NUL])"
  using simpleJsonProcessor_suffix_key [of "''d''" "CHR ''d''" "[]" "''objectI''" "[Ch (CHR ''7'')]" 8] by simp

end
