(* ===== verification/Push_Queue.thy ===== *)
theory Push_Queue
  imports Json_Values
begin

text \<open>
  \<^verbatim>\<open>unix/yun/parse_push.c\<close>: the bridge that keeps push messages for an Arduino sketch in a
  linked list. Nodes and strings are blocks of an explicit heap, \<open>head\<close> and \<open>tail\<close> are
  pointers into it, \<open>malloc\<close> is a parameter that may fail, and a null or dangling pointer that is
  used is an error. The list is shown to implement a first-in-first-out queue.
\<close>

section \<open>Queues\<close>

text \<open>A run of operations: \<open>Some x\<close> puts \<open>x\<close> in, \<open>None\<close> takes an element out.\<close>

fun run_queue :: "('a \<Rightarrow> 's \<Rightarrow> 'e + 's) \<Rightarrow> ('s \<Rightarrow> 'e + 'a list \<times> 's) \<Rightarrow> 'a option list \<Rightarrow> 's \<Rightarrow> 'e + 'a list \<times> 's" where
  "run_queue enq deq [] s = Inr ([], s)"
| "run_queue enq deq (Some x # es) s = bindE (enq x s) (run_queue enq deq es)"
| "run_queue enq deq (None # es) s =
     bindE (deq s) (\<lambda>(out, s'). bindE (run_queue enq deq es s') (\<lambda>(outs, t). Inr (out @ outs, t)))"

text \<open>
  The interface of a queue: \<open>rep s xs\<close> says that the state \<open>s\<close> holds
  the elements \<open>xs\<close>, first in first; \<open>ok\<close> are the elements that can be stored.
\<close>

locale fifo =
  fixes enq :: "'a \<Rightarrow> 's \<Rightarrow> 'e + 's" and deq :: "'s \<Rightarrow> 'e + 'a list \<times> 's"
    and rep :: "'s \<Rightarrow> 'a list \<Rightarrow> bool" and ok :: "'a \<Rightarrow> bool"
  assumes enq_rep: "rep s xs \<Longrightarrow> ok x \<Longrightarrow> \<exists>s'. enq x s = Inr s' \<and> rep s' (xs @ [x])"
    and deq_Nil: "rep s [] \<Longrightarrow> deq s = Inr ([], s)"
    and deq_Cons: "rep s (x # xs) \<Longrightarrow> \<exists>s'. deq s = Inr ([x], s') \<and> rep s' xs"
begin

text \<open>Nothing is lost, doubled or reordered.\<close>

lemma run_fifo:
  "rep s xs \<Longrightarrow> list_all ok (List.map_filter id es) \<Longrightarrow>
    \<exists>outs t ys. run_queue enq deq es s = Inr (outs, t) \<and> rep t ys \<and> outs @ ys = xs @ List.map_filter id es"
proof (induction es arbitrary: s xs)
  case (Cons e es)
  show ?case
  proof (cases e)
    case (Some x)
    with Cons.prems obtain s' where s': "enq x s = Inr s'" "rep s' (xs @ [x])"
      using enq_rep [of s xs x] by (auto simp: List.map_filter_def)
    from Cons.IH [OF s'(2)] Cons.prems(2) Some s'(1) show ?thesis by (simp add: List.map_filter_def)
  next
    case None
    have "\<exists>out s' zs. deq s = Inr (out, s') \<and> rep s' zs \<and> out @ zs = xs"
      using Cons.prems(1) deq_Nil [of s] deq_Cons [of s "List.hd xs" "List.tl xs"] by (cases xs) auto
    then obtain out s' zs where d: "deq s = Inr (out, s')" "rep s' zs" "out @ zs = xs" by blast
    from Cons.IH [OF d(2)] Cons.prems(2) None obtain outs t ys where "run_queue enq deq es s' = Inr (outs, t)"
      "rep t ys" "outs @ ys = zs @ List.map_filter id es" by (auto simp: List.map_filter_def)
    with d None show ?thesis by (auto simp: List.map_filter_def)
  qed
qed (simp add: List.map_filter_def)

end

section \<open>Definitions\<close>

record node =
  push_data :: "nat option"
  next_node :: "nat option"

record push_state =
  nodes :: "nat \<rightharpoonup> node"
  bufs :: "nat \<rightharpoonup> char list"
  head :: "nat option"
  tail :: "nat option"

definition deref :: "(nat \<rightharpoonup> 'b) \<Rightarrow> nat option \<Rightarrow> mem_error + 'b" where
  "deref h p =
     (case p of None \<Rightarrow> Inl NullPointer | Some a \<Rightarrow> (case h a of None \<Rightarrow> Inl Dangling | Some x \<Rightarrow> Inr x))"

text \<open>
  \<open>enqueuePush\<close>: neither result of \<open>malloc\<close> is checked, so a failure is a write through a null
  pointer. The string is cleared and then filled with the characters before the terminator.
\<close>

definition enqueuePush ::
  "(push_state \<Rightarrow> nat option) \<Rightarrow> char list \<Rightarrow> push_state \<Rightarrow> mem_error + push_state" where
  "enqueuePush malloc push st =
     bindE (strlen_from push 0) (\<lambda>nextSize.
     bindE (deref (nodes st) (tail st)) (\<lambda>t.
       let new = malloc st;
           st1 = st\<lparr>nodes := (nodes st)(the (tail st) \<mapsto> t\<lparr>next_node := new\<rparr>), tail := new\<rparr>;
           st2 = (case new of None \<Rightarrow> st1
                  | Some a \<Rightarrow> st1\<lparr>nodes := (nodes st1)(a \<mapsto> \<lparr>push_data = None, next_node = None\<rparr>)\<rparr>) in
       bindE (deref (nodes st2) (tail st2)) (\<lambda>u.
         case malloc st2 of
           None \<Rightarrow> Inl NullPointer
         | Some b \<Rightarrow>
             Inr (st2\<lparr>bufs := (bufs st2)(b \<mapsto> take nextSize push @ [NUL]),
                      nodes := (nodes st2)(the (tail st2) \<mapsto> u\<lparr>push_data := Some b, next_node := None\<rparr>)\<rparr>))))"

text \<open>
  \<open>arduinoPushFetchHandler\<close>: \<open>c\<close> are the bytes read from the standard input. The result is what
  is printed and the new state.
\<close>

definition arduinoPushFetchHandler ::
  "bool \<Rightarrow> char list \<Rightarrow> push_state \<Rightarrow> mem_error + string list \<times> push_state" where
  "arduinoPushFetchHandler commandLine c st =
     (if commandLine then Inr ([], st)
      else if c = [] \<or> hd c \<noteq> CHR ''n'' then Inr ([], st)
      else bindE (deref (nodes st) (head st)) (\<lambda>h.
        case next_node h of
          None \<Rightarrow> Inr ([], st)
        | Some tmp \<Rightarrow>
            bindE (deref (nodes st) (Some tmp)) (\<lambda>t.
            bindE (deref (bufs st) (push_data t)) (\<lambda>d.
            bindE (strlen_from d 0) (\<lambda>n.
              let st1 = st\<lparr>nodes := (nodes st)(the (head st) \<mapsto> h\<lparr>next_node := next_node t\<rparr>)\<rparr>;
                  st2 = (if next_node t = None then st1\<lparr>tail := head st1\<rparr> else st1) in
              Inr ([take n d],
                   st2\<lparr>bufs := (bufs st2)(the (push_data t) := None), nodes := (nodes st2)(tmp := None)\<rparr>))))))"

text \<open>\<open>getValueFromJSON\<close> of \<^verbatim>\<open>unix/yun/utils.c\<close> is the code of \<open>simpleJsonProcessor\<close>.\<close>

definition getValueFromJSON ::
  "char list option \<Rightarrow> string option \<Rightarrow> bool \<Rightarrow> int \<Rightarrow> mem_error + (bool \<times> char list)" where
  "getValueFromJSON data key value sz = simpleJsonProcessor data key value sz"

text \<open>
  \<open>newPushHandler\<close>, the callback of the push service: the buffer for the value is cleared and filled
  by \<open>getValueFromJSON\<close>, then printed or put into the queue.
\<close>

definition newPushHandler ::
  "(push_state \<Rightarrow> nat option) \<Rightarrow> bool \<Rightarrow> char list option \<Rightarrow> push_state \<Rightarrow> mem_error + string list \<times> push_state" where
  "newPushHandler malloc commandLine buffer st =
     bindE (getValueFromJSON buffer (Some ''data'') True 2048) (\<lambda>(_, out).
       let pushBuf = out @ replicate (2048 - length out) NUL in
       if commandLine then
         (if buffer \<noteq> None then bindE (strlen_from pushBuf 0) (\<lambda>n. Inr ([take n pushBuf @ [CHR 0x0A]], st))
          else Inr ([], st))
       else bindE (enqueuePush malloc pushBuf st) (\<lambda>st'. Inr ([], st')))"

text \<open>The queue as \<open>main\<close> sets it up: one node on the stack, here at address \<open>queue\<close>.\<close>

definition empty_queue :: "nat \<Rightarrow> push_state" where
  "empty_queue queue =
     \<lparr>nodes = [queue \<mapsto> \<lparr>push_data = None, next_node = None\<rparr>], bufs = Map.empty,
      head = Some queue, tail = Some queue\<rparr>"

text \<open>What the main loop serves: a push that arrives, and bytes on the standard input.\<close>

datatype push_event = Pushed "char list option" | Input "char list"

fun serve :: "(push_state \<Rightarrow> nat option) \<Rightarrow> push_event list \<Rightarrow> push_state \<Rightarrow> mem_error + string list \<times> push_state" where
  "serve malloc [] st = Inr ([], st)"
| "serve malloc (e # es) st =
     bindE (case e of Pushed buffer \<Rightarrow> newPushHandler malloc False buffer st
                    | Input c \<Rightarrow> arduinoPushFetchHandler False c st)
       (\<lambda>(out, st'). bindE (serve malloc es st') (\<lambda>(outs, t). Inr (out @ outs, t)))"

section \<open>The linked list\<close>

text \<open>The nodes \<open>as\<close> follow the node \<open>a\<close>, and the last of them ends the list.\<close>

fun chain :: "(nat \<rightharpoonup> node) \<Rightarrow> nat \<Rightarrow> nat list \<Rightarrow> bool" where
  "chain N a [] \<longleftrightarrow> (\<exists>n. N a = Some n \<and> next_node n = None)"
| "chain N a (b # bs) \<longleftrightarrow> (\<exists>n. N a = Some n \<and> next_node n = Some b) \<and> chain N b bs"

text \<open>The node \<open>a\<close> has the string block \<open>b\<close>, which holds the text \<open>x\<close>.\<close>

definition entry :: "push_state \<Rightarrow> nat \<Rightarrow> nat \<Rightarrow> string \<Rightarrow> bool" where
  "entry st a b x \<longleftrightarrow> map_option push_data (nodes st a) = Some (Some b) \<and> bufs st b = Some (x @ [NUL]) \<and> NUL \<notin> set x"

fun entries :: "push_state \<Rightarrow> nat list \<Rightarrow> nat list \<Rightarrow> string list \<Rightarrow> bool" where
  "entries st [] [] [] \<longleftrightarrow> True"
| "entries st (a # as) (b # bs) (x # xs) \<longleftrightarrow> entry st a b x \<and> entries st as bs xs"
| "entries st _ _ _ \<longleftrightarrow> False"

definition queue_rep :: "push_state \<Rightarrow> string list \<Rightarrow> bool" where
  "queue_rep st xs \<longleftrightarrow> (\<exists>q as bs. head st = Some q \<and> tail st = Some (last (q # as)) \<and>
     chain (nodes st) q as \<and> distinct (q # as) \<and> distinct bs \<and> entries st as bs xs)"

lemma chain_dom: "chain N a as \<Longrightarrow> x \<in> set (a # as) \<Longrightarrow> N x \<noteq> None"
  by (induction as arbitrary: a) auto

lemma chain_other: "x \<notin> set (a # as) \<Longrightarrow> chain (N(x := v)) a as = chain N a as"
  by (induction as arbitrary: a) auto

lemma chain_snoc:
  "chain N a as \<Longrightarrow> distinct (a # as) \<Longrightarrow> l = last (a # as) \<Longrightarrow> c \<notin> set (a # as) \<Longrightarrow>
   next_node n = Some c \<Longrightarrow> next_node m = None \<Longrightarrow> chain (N(l \<mapsto> n, c \<mapsto> m)) a (as @ [c])"
proof (induction as arbitrary: a)
  case (Cons b bs)
  then have l: "l = last (b # bs)" by simp
  have "chain (N(l \<mapsto> n, c \<mapsto> m)) b (bs @ [c])"
    by (rule Cons.IH [OF _ _ l]) (use Cons.prems in simp_all)
  moreover have "l \<noteq> a" unfolding l using Cons.prems(2) by (metis distinct.simps(2) last_in_set list.discI)
  then have "(N(l \<mapsto> n, c \<mapsto> m)) a = N a" using Cons.prems(4) by simp
  ultimately show ?case using Cons.prems(1) by (simp del: fun_upd_apply)
qed auto

lemma entries_Nil: "entries st as bs [] \<longleftrightarrow> as = [] \<and> bs = []"
  by (cases as; cases bs) simp_all

lemma entries_Cons:
  "entries st as bs (x # xs) \<longleftrightarrow> (\<exists>a as' b bs'. as = a # as' \<and> bs = b # bs' \<and> entry st a b x \<and> entries st as' bs' xs)"
  by (cases as; cases bs) simp_all

lemma entries_other:
  "entries st as bs xs \<Longrightarrow>
   (\<And>a. a \<in> set as \<Longrightarrow> map_option push_data (nodes st' a) = map_option push_data (nodes st a)) \<Longrightarrow>
   (\<And>b. b \<in> set bs \<Longrightarrow> bufs st' b = bufs st b) \<Longrightarrow> entries st' as bs xs"
  by (induction st as bs xs rule: entries.induct) (auto simp: entry_def)

lemma entries_bufs: "entries st as bs xs \<Longrightarrow> b \<in> set bs \<Longrightarrow> bufs st b \<noteq> None"
  by (induction st as bs xs rule: entries.induct) (auto simp: entry_def)

lemma entries_snoc: "entries st as bs xs \<Longrightarrow> entry st a b x \<Longrightarrow> entries st (as @ [a]) (bs @ [b]) (xs @ [x])"
  by (induction st as bs xs rule: entries.induct) auto

text \<open>
  What \<open>malloc\<close> promises: the block it returns is not in use. With enough memory it returns one
  whenever finitely many blocks are in use.
\<close>

definition malloc_fresh :: "(push_state \<Rightarrow> nat option) \<Rightarrow> bool" where
  "malloc_fresh malloc \<longleftrightarrow> (\<forall>st a. malloc st = Some a \<longrightarrow> nodes st a = None \<and> bufs st a = None)"

definition finite_heap :: "push_state \<Rightarrow> bool" where
  "finite_heap st \<longleftrightarrow> finite (dom (nodes st)) \<and> finite (dom (bufs st))"

definition enough_memory :: "(push_state \<Rightarrow> nat option) \<Rightarrow> bool" where
  "enough_memory malloc \<longleftrightarrow> (\<forall>st. finite_heap st \<longrightarrow> malloc st \<noteq> None)"

definition holds_queue :: "(push_state \<Rightarrow> nat option) \<Rightarrow> push_state \<Rightarrow> string list \<Rightarrow> bool" where
  "holds_queue malloc st xs \<longleftrightarrow> malloc_fresh malloc \<and> enough_memory malloc \<and> finite_heap st \<and> queue_rep st xs"

lemma strlen_cstring: "NUL \<notin> set x \<Longrightarrow> strlen_from (x @ NUL # ys) 0 = Inr (length x)"
  using strlen_holds [of "x @ NUL # ys" 0 x] by (auto simp: holds_def)

lemma enqueuePush_cstring:
  "NUL \<notin> set x \<Longrightarrow> enqueuePush malloc (x @ NUL # ys) st = enqueuePush malloc (x @ [NUL]) st"
proof -
  assume x: "NUL \<notin> set x"
  have "take (length x) (x @ NUL # ys) = x" "take (length x) (x @ [NUL]) = x" by simp_all
  then show ?thesis unfolding enqueuePush_def strlen_cstring [OF x] bindE_simps by (simp only:)
qed

lemma deref_simps [simp]:
  "deref h None = Inl NullPointer" "h a = Some x \<Longrightarrow> deref h (Some a) = Inr x" "h a = None \<Longrightarrow> deref h (Some a) = Inl Dangling"
  by (simp_all add: deref_def)

text \<open>The result of \<open>enqueuePush\<close> when both blocks can be allocated.\<close>

lemma enqueuePush_blocks:
  assumes "NUL \<notin> set x" and "tail st = Some l" "nodes st l = Some t" and "malloc st = Some a" "a \<noteq> l"
    and st2: "st2 = st\<lparr>tail := Some a, nodes := (nodes st)(l \<mapsto> t\<lparr>next_node := Some a\<rparr>, a \<mapsto> \<lparr>push_data = None, next_node = None\<rparr>)\<rparr>"
  shows "enqueuePush malloc (x @ [NUL]) st =
    (case malloc st2 of None \<Rightarrow> Inl NullPointer
     | Some b \<Rightarrow> Inr (st2\<lparr>bufs := (bufs st)(b \<mapsto> x @ [NUL]),
         nodes := (nodes st)(l \<mapsto> t\<lparr>next_node := Some a\<rparr>, a \<mapsto> \<lparr>push_data = Some b, next_node = None\<rparr>)\<rparr>))"
  using assms by (simp add: enqueuePush_def strlen_cstring Let_def split: option.split)

lemma enqueuePush_rep:
  assumes hold: "holds_queue malloc st xs" and x: "NUL \<notin> set x"
  shows "\<exists>st'. enqueuePush malloc (x @ [NUL]) st = Inr st' \<and> holds_queue malloc st' (xs @ [x])"
proof -
  from hold obtain q as bs where q: "head st = Some q" "tail st = Some (last (q # as))" "chain (nodes st) q as"
    "distinct (q # as)" "distinct bs" "entries st as bs xs" by (auto simp: holds_queue_def queue_rep_def)
  from hold have fresh: "malloc s = Some c \<Longrightarrow> nodes s c = None \<and> bufs s c = None"
    and enough: "finite_heap s \<Longrightarrow> malloc s \<noteq> None" and fin: "finite_heap st" for s c
    by (auto simp: holds_queue_def malloc_fresh_def enough_memory_def)
  obtain l where l: "l = last (q # as)" "l \<in> set (q # as)" by (metis last_in_set list.discI)
  with chain_dom [OF q(3)] obtain t where t: "nodes st l = Some t" by blast
  have tl: "tail st = Some l" using q(2) l(1) by simp
  obtain a where a: "malloc st = Some a" using enough [OF fin] by blast
  then have a_new: "a \<notin> set (q # as)" using fresh chain_dom [OF q(3)] by blast
  with l(2) have al: "a \<noteq> l" by metis
  define st2 where "st2 = st\<lparr>tail := Some a, nodes := (nodes st)(l \<mapsto> t\<lparr>next_node := Some a\<rparr>, a \<mapsto> \<lparr>push_data = None, next_node = None\<rparr>)\<rparr>"
  have "finite_heap st2" using fin by (simp add: finite_heap_def st2_def)
  with enough obtain b where b: "malloc st2 = Some b" by blast
  define st' where "st' = st2\<lparr>bufs := (bufs st)(b \<mapsto> x @ [NUL]),
         nodes := (nodes st)(l \<mapsto> t\<lparr>next_node := Some a\<rparr>, a \<mapsto> \<lparr>push_data = Some b, next_node = None\<rparr>)\<rparr>"
  have enq: "enqueuePush malloc (x @ [NUL]) st = Inr st'"
    using enqueuePush_blocks [of x st l t malloc a st2, OF x tl t a al st2_def] b by (simp add: st'_def)
  have "bufs st2 b = None" using fresh [OF b] by simp
  then have "bufs st b = None" by (simp add: st2_def)
  then have b_new: "b \<notin> set bs" using entries_bufs [OF q(6)] by blast
  have "entries st' as bs xs"
    by (rule entries_other [OF q(6)]) (use t b_new a_new in \<open>auto simp: st'_def st2_def\<close>)
  moreover have "entry st' a b x" using x by (simp add: entry_def st'_def)
  ultimately have "entries st' (as @ [a]) (bs @ [b]) (xs @ [x])" by (rule entries_snoc)
  moreover have "chain (nodes st') q (as @ [a])"
    using chain_snoc [OF q(3,4) l(1) a_new] by (simp add: st'_def)
  ultimately have "queue_rep st' (xs @ [x])"
    unfolding queue_rep_def using q a_new b_new
    by (intro exI [of _ q] exI [of _ "as @ [a]"] exI [of _ "bs @ [b]"]) (auto simp: st'_def st2_def)
  moreover have "finite_heap st'" using fin by (simp add: finite_heap_def st'_def st2_def)
  ultimately show ?thesis using enq hold by (auto simp: holds_queue_def)
qed

text \<open>When memory runs out, the node that is not there is written to.\<close>

lemma enqueuePush_no_memory:
  assumes "queue_rep st xs" and "NUL \<notin> set x" and "malloc st = None"
  shows "enqueuePush malloc (x @ [NUL]) st = Inl NullPointer"
proof -
  from assms(1) obtain l t where "tail st = Some l" "nodes st l = Some t"
    unfolding queue_rep_def using chain_dom last_in_set by (metis list.discI not_None_eq)
  with assms(2,3) show ?thesis by (simp add: enqueuePush_def strlen_cstring Let_def)
qed

lemma fetch_Nil: "holds_queue malloc st [] \<Longrightarrow> arduinoPushFetchHandler False ''n'' st = Inr ([], st)"
  by (auto simp: holds_queue_def queue_rep_def arduinoPushFetchHandler_def entries_Nil)

lemma fetch_Cons:
  assumes hold: "holds_queue malloc st (x # xs)"
  shows "\<exists>st'. arduinoPushFetchHandler False ''n'' st = Inr ([x], st') \<and> holds_queue malloc st' xs"
proof -
  from hold obtain q a as b bs where q: "head st = Some q" "tail st = Some (last (q # a # as))"
    "chain (nodes st) q (a # as)" "distinct (q # a # as)" "distinct (b # bs)" "entry st a b x" "entries st as bs xs"
    unfolding holds_queue_def queue_rep_def by (auto simp: entries_Cons)
  then obtain h t where h: "nodes st q = Some h" "next_node h = Some a" "chain (nodes st) a as"
    and t: "nodes st a = Some t" "push_data t = Some b" "bufs st b = Some (x @ [NUL])" "NUL \<notin> set x"
    by (auto simp: entry_def)
  define st' where "st' = (if next_node t = None then st\<lparr>tail := Some q\<rparr> else st)
    \<lparr>bufs := (bufs st)(b := None), nodes := (nodes st)(q \<mapsto> h\<lparr>next_node := next_node t\<rparr>, a := None)\<rparr>"
  have "arduinoPushFetchHandler False ''n'' st = Inr ([x], st')"
    using q(1) h t by (simp add: arduinoPushFetchHandler_def strlen_cstring Let_def st'_def)
  moreover have "chain (nodes st') q as"
    using h(3) t(1) q(4) by (cases as) (auto simp: st'_def chain_other)
  moreover have "tail st' = Some (last (q # as))" using h(3) t(1) q(2) by (cases as) (auto simp: st'_def)
  moreover have "entries st' as bs xs"
    by (rule entries_other [OF q(7)]) (use q(4,5) in \<open>auto simp: st'_def\<close>)
  moreover have "head st' = Some q" using q(1) by (simp add: st'_def)
  moreover have "finite_heap st'" using hold by (simp add: holds_queue_def finite_heap_def st'_def)
  ultimately show ?thesis
    using q(4,5) hold unfolding holds_queue_def queue_rep_def
    by (intro exI [of _ st'] conjI exI [of _ q] exI [of _ as] exI [of _ bs]) simp_all
qed

text \<open>
  The list is a queue: the laws are discharged for every \<open>malloc\<close> that keeps its promises.
\<close>

interpretation pq: fifo "\<lambda>x. enqueuePush malloc (x @ [NUL])" "arduinoPushFetchHandler False ''n''"
  "holds_queue malloc" "\<lambda>x. NUL \<notin> set x" for malloc
  by unfold_locales (rule enqueuePush_rep fetch_Nil fetch_Cons, assumption+)+

lemma empty_queue_rep: "malloc_fresh malloc \<Longrightarrow> enough_memory malloc \<Longrightarrow> holds_queue malloc (empty_queue q) []"
  unfolding holds_queue_def queue_rep_def empty_queue_def finite_heap_def
  by (intro conjI exI [of _ q] exI [of _ "[]"]) simp_all

section \<open>The service\<close>

text \<open>The operations of the queue that an event amounts to, and the texts that arrive.\<close>

definition pushed_text :: "char list option \<Rightarrow> string" where
  "pushed_text buffer =
     (case getValueFromJSON buffer (Some ''data'') True 2048 of
        Inl _ \<Rightarrow> [] | Inr (_, out) \<Rightarrow> takeWhile (\<lambda>c. c \<noteq> NUL) out)"

fun event_ops :: "push_event \<Rightarrow> string option list" where
  "event_ops (Pushed buffer) = [Some (pushed_text buffer)]"
| "event_ops (Input c) = (if c \<noteq> [] \<and> hd c = CHR ''n'' then [None] else [])"

lemma pushBuf_string:
  assumes "getValueFromJSON buffer (Some ''data'') True 2048 = Inr (b, out)"
  shows "\<exists>ys. out @ replicate (2048 - length out) NUL = pushed_text buffer @ NUL # ys" "NUL \<notin> set (pushed_text buffer)"
proof -
  let ?p = "out @ replicate (2048 - length out) NUL"
  have "out = [] \<or> fits 0 2048 out" using processor_fits assms by (auto simp: getValueFromJSON_def)
  then have "NUL \<in> set ?p" by (auto simp: fits_def dest: last_in_set)
  moreover have "takeWhile (\<lambda>c. c \<noteq> NUL) ?p = pushed_text buffer"
    using assms by (auto simp: pushed_text_def takeWhile_append takeWhile_eq_all_conv eq_commute [of out])
  moreover from calculation obtain us vs where "?p = us @ NUL # vs" "NUL \<notin> set us"
    using split_list_first by metis
  moreover from this have "takeWhile (\<lambda>c. c \<noteq> NUL) ?p = us" by (auto simp: takeWhile_tail takeWhile_eq_all_conv)
  ultimately show "\<exists>ys. ?p = pushed_text buffer @ NUL # ys" by auto
  show "NUL \<notin> set (pushed_text buffer)"
    by (auto simp: pushed_text_def dest: set_takeWhileD split: sum.split)
qed

definition readable :: "push_event \<Rightarrow> bool" where
  "readable e \<longleftrightarrow> (case e of Pushed buffer \<Rightarrow> \<exists>r. getValueFromJSON buffer (Some ''data'') True 2048 = Inr r | Input _ \<Rightarrow> True)"

lemma serve_Pushed:
  assumes "readable (Pushed buffer)"
  shows "newPushHandler malloc False buffer st = bindE (enqueuePush malloc (pushed_text buffer @ [NUL]) st) (\<lambda>st'. Inr ([], st'))"
proof -
  from assms obtain b out where r: "getValueFromJSON buffer (Some ''data'') True 2048 = Inr (b, out)"
    by (auto simp: readable_def)
  from pushBuf_string(1) [OF r] obtain ys where "out @ replicate (2048 - length out) NUL = pushed_text buffer @ NUL # ys"
    by blast
  with r show ?thesis
    using enqueuePush_cstring [OF pushBuf_string(2) [OF r], of malloc ys st] by (simp add: newPushHandler_def Let_def)
qed

lemma fetch_Input:
  "arduinoPushFetchHandler False c st =
    (if c \<noteq> [] \<and> hd c = CHR ''n'' then arduinoPushFetchHandler False ''n'' st else Inr ([], st))"
  by (simp add: arduinoPushFetchHandler_def)

lemma serve_run:
  "list_all readable es \<Longrightarrow>
   serve malloc es st = run_queue (\<lambda>x. enqueuePush malloc (x @ [NUL])) (arduinoPushFetchHandler False ''n'') (concat (map event_ops es)) st"
proof (induction es arbitrary: st)
  case (Cons e es)
  have pair: "bindE r (\<lambda>(outs, t). Inr (outs, t)) = r" for r :: "mem_error + string list \<times> push_state"
    by (cases r) auto
  show ?case
  proof (cases e)
    case (Pushed buffer)
    with Cons pair show ?thesis
      by (cases "enqueuePush malloc (pushed_text buffer @ [NUL]) st") (simp_all add: serve_Pushed)
  next
    case (Input c)
    with Cons pair show ?thesis by (simp add: fetch_Input [of c])
  qed
qed simp

text \<open>The buffers that arrived, in order.\<close>

fun arrived :: "push_event list \<Rightarrow> char list option list" where
  "arrived [] = []"
| "arrived (Pushed buffer # es) = buffer # arrived es"
| "arrived (Input _ # es) = arrived es"

lemma arrived_ops: "List.map_filter id (concat (map event_ops es)) = map pushed_text (arrived es)"
  by (induction es rule: arrived.induct) (simp_all add: List.map_filter_def)

lemma readable_texts: "list_all readable es \<Longrightarrow> list_all (\<lambda>x. NUL \<notin> set x) (map pushed_text (arrived es))"
  by (induction es rule: arrived.induct) (auto simp: readable_def dest: pushBuf_string(2))

section \<open>Correctness\<close>

text \<open>
  C7. The bridge implements a first-in-first-out queue: with enough memory, any interleaving of
  arriving pushes and requests of the sketch is served without using a null or dangling pointer, and
  the texts that were printed, followed by those still in the list, are the texts that arrived, in
  their order: none is lost, doubled or reordered.
\<close>

theorem push_queue_refines_fifo:
  assumes "malloc_fresh malloc" "enough_memory malloc" "list_all readable es"
  shows "\<exists>outs st ys. serve malloc es (empty_queue q) = Inr (outs, st) \<and> queue_rep st ys \<and>
    outs @ ys = map pushed_text (arrived es)"
  using pq.run_fifo [OF empty_queue_rep [OF assms(1,2), of q], of "concat (map event_ops es)"]
    readable_texts [OF assms(3)] serve_run [OF assms(3), of malloc "empty_queue q"]
  by (auto simp: arrived_ops holds_queue_def)

definition first_fit :: "push_state \<Rightarrow> nat option" where
  "first_fit st = (if finite_heap st then Some (LEAST a. nodes st a = None \<and> bufs st a = None) else None)"

lemma first_fit_ok: "malloc_fresh first_fit" "enough_memory first_fit"
proof -
  have "nodes st (LEAST a. nodes st a = None \<and> bufs st a = None) = None \<and>
      bufs st (LEAST a. nodes st a = None \<and> bufs st a = None) = None" if "finite_heap st" for st
  proof -
    have "finite (dom (nodes st) \<union> dom (bufs st))" using that by (simp add: finite_heap_def)
    then obtain a where "a \<notin> dom (nodes st) \<union> dom (bufs st)" using ex_new_if_finite infinite_UNIV_nat by blast
    then have "nodes st a = None \<and> bufs st a = None" by auto
    then show ?thesis by (rule LeastI)
  qed
  then show "malloc_fresh first_fit" "enough_memory first_fit"
    by (auto simp: malloc_fresh_def enough_memory_def first_fit_def split: if_splits)
qed

definition demo_push :: "string" where
  "demo_push = ''{'' @ [CHR 0x22] @ ''data'' @ [CHR 0x22] @ '':'' @ [CHR 0x22] @ ''hi'' @ [CHR 0x22] @ ''}'' @ [NUL]"

lemma demo_push_value: "getValueFromJSON (Some demo_push) (Some ''data'') True 2048 = Inr (True, ''hi'' @ [NUL])"
proof -
  have "simpleJsonProcessor (Some demo_push) (Some ''data'') True 2048 =
      Inr (True, take (nat (2048 - 1)) (items_text [Ch (CHR ''h''), Ch (CHR ''i'')]) @ [NUL])"
    by (rule processor_string [where pre = "''{'' @ [CHR 0x22]" and ?b1.0 = "[]" and ?b2.0 = "[]" and rest = "''}''" and inS = True and lvl = 1])
      (auto simp: demo_push_def holds_def items_text_def blanks_def)
  then show ?thesis by (simp add: getValueFromJSON_def items_text_def)
qed

theorem push_queue_refines_fifo_witness:
  "\<exists>outs st ys. serve first_fit [Pushed (Some demo_push), Input ''n'', Pushed None] (empty_queue 0) = Inr (outs, st) \<and>
    queue_rep st ys \<and> outs @ ys = [''hi'', []]"
proof -
  have none: "getValueFromJSON None (Some ''data'') True 2048 = Inr (False, [])"
    by (simp add: getValueFromJSON_def simpleJsonProcessor_def)
  have "list_all readable [Pushed (Some demo_push), Input ''n'', Pushed None]"
    by (auto simp: readable_def demo_push_value none)
  from push_queue_refines_fifo [OF first_fit_ok this, of 0] show ?thesis
    by (simp add: pushed_text_def demo_push_value none del: serve.simps)
qed

end
