(* ===== verification/Json_Safe.thy ===== *)
theory Json_Safe
  imports Json_Values
begin

text \<open>
  Memory safety of the scanner. The scans for an object stay inside of a buffer that has a terminator
  somewhere after their start, and what \<open>getPushJson\<close> frames is text without a terminator that ends
  with a closing brace. On such a text neither loop of \<open>simpleJsonProcessor\<close> reads outside of it.
\<close>

section \<open>The scans for an object\<close>

lemma findJsonBeginningParams_total:
  "rd m e = Inr NUL \<Longrightarrow> d \<le> e \<Longrightarrow> \<exists>r. findJsonBeginningParams m sz d inS pos = Inr r"
proof (induction "e - d" arbitrary: d inS pos rule: less_induct)
  case less
  obtain c where c: "rd m d = Inr c" using less.prems rd_Inr_less [OF less.prems(1)] by (simp add: rd_def)
  show ?case
  proof (cases "c = NUL")
    case False
    with c less.prems have lt: "d < e" by (cases "d = e") auto
    then obtain x where x: "rd m (Suc d) = Inr x" using rd_Inr_less [OF less.prems(1)] by (simp add: rd_def)
    have one: "\<exists>r. findJsonBeginningParams m sz (Suc d) i p = Inr r" for i p using less.hyps [of "Suc d"] less.prems lt by simp
    have "x \<noteq> NUL \<Longrightarrow> Suc d < e" using x less.prems lt by (cases "Suc d = e") auto
    then have "x \<noteq> NUL \<Longrightarrow> \<exists>r. findJsonBeginningParams m sz (Suc (Suc d)) i p = Inr r" for i p
      using less.hyps [of "Suc (Suc d)"] less.prems by simp
    with c x one show ?thesis by (auto simp: findJsonBeginningParams.simps [of m sz d])
  qed (simp add: findJsonBeginningParams.simps [of m sz d] c)
qed

lemma findJsonEndParams_total:
  "rd m e = Inr NUL \<Longrightarrow> d \<le> e \<Longrightarrow> \<exists>r. findJsonEndParams m sz d inS lvl pos = Inr r"
proof (induction "e - d" arbitrary: d inS lvl pos rule: less_induct)
  case less
  obtain c where c: "rd m d = Inr c" using less.prems rd_Inr_less [OF less.prems(1)] by (simp add: rd_def)
  show ?case
  proof (cases "c = NUL")
    case False
    with c less.prems have lt: "d < e" by (cases "d = e") auto
    then obtain x where x: "rd m (Suc d) = Inr x" using rd_Inr_less [OF less.prems(1)] by (simp add: rd_def)
    have one: "\<exists>r. findJsonEndParams m sz (Suc d) i l p = Inr r" for i l p using less.hyps [of "Suc d"] less.prems lt by simp
    have "x \<noteq> NUL \<Longrightarrow> Suc d < e" using x less.prems lt by (cases "Suc d = e") auto
    then have "x \<noteq> NUL \<Longrightarrow> \<exists>r. findJsonEndParams m sz (Suc (Suc d)) i l p = Inr r" for i l p
      using less.hyps [of "Suc (Suc d)"] less.prems by simp
    with c x one show ?thesis by (auto simp: findJsonEndParams.simps [of m sz d] Let_def)
  qed (simp add: findJsonEndParams.simps [of m sz d] c)
qed

text \<open>Without a terminator the scans read up to two bytes past the size, the second one after a backslash.\<close>

lemma findJsonBeginningParams_room:
  "pos \<le> Suc sz \<Longrightarrow> d + Suc sz < length m + pos \<Longrightarrow> \<exists>r. findJsonBeginningParams m sz d inS pos = Inr r"
proof (induction "Suc sz - pos" arbitrary: d inS pos rule: less_induct)
  case less
  then obtain c where c: "rd m d = Inr c" by (simp add: rd_def)
  show ?case
  proof (cases "pos < sz")
    case True
    with less.prems obtain x where x: "rd m (Suc d) = Inr x" by (simp add: rd_def)
    have one: "\<exists>r. findJsonBeginningParams m sz (Suc d) i (Suc pos) = Inr r" for i using less True by simp
    have "\<exists>r. findJsonBeginningParams m sz (Suc (Suc d)) i (Suc (Suc pos)) = Inr r" for i using less True by simp
    with c x one show ?thesis by (auto simp: findJsonBeginningParams.simps [of m sz d])
  qed (simp add: findJsonBeginningParams.simps [of m sz d] c)
qed

lemma findJsonEndParams_room:
  "pos \<le> Suc sz \<Longrightarrow> d + Suc sz < length m + pos \<Longrightarrow> \<exists>r. findJsonEndParams m sz d inS lvl pos = Inr r"
proof (induction "Suc sz - pos" arbitrary: d inS lvl pos rule: less_induct)
  case less
  then obtain c where c: "rd m d = Inr c" by (simp add: rd_def)
  show ?case
  proof (cases "pos < sz")
    case True
    with less.prems obtain x where x: "rd m (Suc d) = Inr x" by (simp add: rd_def)
    have one: "\<exists>r. findJsonEndParams m sz (Suc d) i l (Suc pos) = Inr r" for i l using less True by simp
    have "\<exists>r. findJsonEndParams m sz (Suc (Suc d)) i l (Suc (Suc pos)) = Inr r" for i l using less True by simp
    with c x one show ?thesis by (auto simp: findJsonEndParams.simps [of m sz d] Let_def)
  qed (simp add: findJsonEndParams.simps [of m sz d] c)
qed

text \<open>What the scans step over has no terminator in it.\<close>

definition no_nul :: "char list \<Rightarrow> nat \<Rightarrow> nat \<Rightarrow> bool" where
  "no_nul m d e \<longleftrightarrow> e \<le> length m \<and> NUL \<notin> set (take (e - d) (drop d m))"

lemma no_nul_Suc: "rd m d = Inr c \<Longrightarrow> c \<noteq> NUL \<Longrightarrow> no_nul m (Suc d) e \<Longrightarrow> d < e \<Longrightarrow> no_nul m d e"
  by (auto simp: no_nul_def rd_def Cons_nth_drop_Suc [symmetric] take_Cons' split: if_splits)

text \<open>One round of a scan that finds something: it is here, or one or two characters on.\<close>

lemma findJsonBeginningParams_step:
  assumes "findJsonBeginningParams m sz d inS pos = Inr (Some b, i, p)"
  shows "d < length m \<and> pos < sz \<and> (b = d \<and> p = pos \<or>
    (\<exists>i'. findJsonBeginningParams m sz (Suc d) i' (Suc pos) = Inr (Some b, i, p)) \<or>
    (\<exists>i'. findJsonBeginningParams m sz (Suc (Suc d)) i' (Suc (Suc pos)) = Inr (Some b, i, p)))"
proof -
  obtain c where c: "rd m d = Inr c"
    using assms by (cases "rd m d") (simp_all add: findJsonBeginningParams.simps [of m sz d])
  obtain x where "rd m (Suc d) = x" by blast
  with assms c rd_Inr_less [OF c] show ?thesis
    by (cases x) (auto simp: findJsonBeginningParams.simps [of m sz d] split: if_splits)
qed

lemma findJsonBeginningParams_span:
  "findJsonBeginningParams m sz d inS pos = Inr (Some b, i, p) \<Longrightarrow> d \<le> b \<and> b < length m \<and> p = pos + (b - d) \<and> p < sz"
proof (induction "length m - d" arbitrary: d inS pos rule: less_induct)
  case less
  have lt: "d < length m" using findJsonBeginningParams_step [OF less.prems] by simp
  then have IH: "findJsonBeginningParams m sz d' i' q = Inr (Some b, i, p) \<Longrightarrow> d < d' \<Longrightarrow>
      d' \<le> b \<and> b < length m \<and> p = q + (b - d') \<and> p < sz" for d' i' q
    by (intro less.hyps) simp_all
  from findJsonBeginningParams_step [OF less.prems] consider "b = d" "p = pos" "pos < sz"
    | i' where "findJsonBeginningParams m sz (Suc d) i' (Suc pos) = Inr (Some b, i, p)"
    | i' where "findJsonBeginningParams m sz (Suc (Suc d)) i' (Suc (Suc pos)) = Inr (Some b, i, p)" by blast
  then show ?case using lt by cases (auto dest!: IH)
qed

lemma findJsonEndParams_step:
  assumes "findJsonEndParams m sz d inS lvl pos = Inr (Some e, i, l, p)"
  shows "\<exists>c. rd m d = Inr c \<and> c \<noteq> NUL \<and> pos < sz \<and> (e = Suc d \<and> p = pos \<and> c = CHR ''}'' \<or>
    (\<exists>i' l'. findJsonEndParams m sz (Suc d) i' l' (Suc pos) = Inr (Some e, i, l, p)) \<or>
    (\<exists>x i' l'. rd m (Suc d) = Inr x \<and> x \<noteq> NUL \<and> findJsonEndParams m sz (Suc (Suc d)) i' l' (Suc (Suc pos)) = Inr (Some e, i, l, p)))"
proof -
  obtain c where c: "rd m d = Inr c"
    using assms by (cases "rd m d") (simp_all add: findJsonEndParams.simps [of m sz d])
  obtain x where x: "rd m (Suc d) = x" by blast
  have "\<not> (c = NUL \<or> \<not> pos < sz)"
    using assms c by (cases "c = NUL \<or> \<not> pos < sz") (simp_all only: findJsonEndParams.simps [of m sz d] bindE_simps, simp_all)
  with assms c x show ?thesis
    by (cases x) (auto simp: findJsonEndParams.simps [of m sz d] Let_def split: if_splits)
qed

lemma findJsonEndParams_span:
  "findJsonEndParams m sz d inS lvl pos = Inr (Some e, i, l, p) \<Longrightarrow>
   d < e \<and> no_nul m d e \<and> m ! (e - 1) = CHR ''}'' \<and> p = pos + (e - 1 - d) \<and> p < sz"
proof (induction "length m - d" arbitrary: d inS lvl pos rule: less_induct)
  case less
  from findJsonEndParams_step [OF less.prems] obtain c where c: "rd m d = Inr c" "c \<noteq> NUL" "pos < sz" by blast
  note lt = rd_Inr_less [OF c(1)]
  then have IH: "findJsonEndParams m sz d' i' l' q = Inr (Some e, i, l, p) \<Longrightarrow> d < d' \<Longrightarrow>
      d' < e \<and> no_nul m d' e \<and> m ! (e - 1) = CHR ''}'' \<and> p = q + (e - 1 - d') \<and> p < sz" for d' i' l' q
    by (intro less.hyps) simp_all
  from findJsonEndParams_step [OF less.prems] consider "e = Suc d" "p = pos" "c = CHR ''}''"
    | i' l' where "findJsonEndParams m sz (Suc d) i' l' (Suc pos) = Inr (Some e, i, l, p)"
    | x i' l' where "rd m (Suc d) = Inr x" "x \<noteq> NUL" "findJsonEndParams m sz (Suc (Suc d)) i' l' (Suc (Suc pos)) = Inr (Some e, i, l, p)"
    using c by auto
  then show ?case
  proof cases
    case 1
    with c lt show ?thesis by (auto simp: no_nul_def rd_def Cons_nth_drop_Suc [symmetric])
  next
    case 2
    from IH [OF this] no_nul_Suc [OF c(1,2), of e] show ?thesis by auto
  next
    case 3
    from IH [OF 3(3)] no_nul_Suc [OF 3(1,2), of e] no_nul_Suc [OF c(1,2), of e] show ?thesis by auto
  qed
qed

text \<open>
  \<open>getPushJson\<close> on a buffer with a terminator directly after the data: it returns, and a message that it
  reports lies within the data.
\<close>

lemma getPushJson_total:
  assumes "rd m sz = Inr NUL"
  shows "\<exists>r. getPushJson m sz = Inr r"
proof -
  obtain b i p where b: "findJsonBeginningParams m sz 0 False 0 = Inr (b, i, p)"
    using findJsonBeginningParams_total [OF assms, of 0] by (metis bot_nat_0.extremum prod_cases3)
  show ?thesis
  proof (cases b)
    case (Some q)
    with findJsonBeginningParams_span [of m sz 0 False 0 q i p] b have "p \<le> sz" by simp
    then obtain e where "findJsonEndParams m (sz - p) p False 0 0 = Inr e"
      using findJsonEndParams_total [OF assms, of p] by blast
    with b Some show ?thesis by (cases e) (simp add: getPushJson_def)
  qed (use b in \<open>simp add: getPushJson_def\<close>)
qed

lemma getPushJson_room:
  assumes "Suc sz < length m"
  shows "\<exists>r. getPushJson m sz = Inr r"
proof -
  obtain b i p where b: "findJsonBeginningParams m sz 0 False 0 = Inr (b, i, p)"
    using findJsonBeginningParams_room [of 0 sz 0 m False] assms by auto
  show ?thesis
  proof (cases b)
    case (Some q)
    with findJsonBeginningParams_span [of m sz 0 False 0 q i p] b have "p < sz" by simp
    then obtain e where "findJsonEndParams m (sz - p) p False 0 0 = Inr e"
      using findJsonEndParams_room [of 0 "sz - p" p m False 0] assms by auto
    with b Some show ?thesis by (cases e) (simp add: getPushJson_def)
  qed (use b in \<open>simp add: getPushJson_def\<close>)
qed

text \<open>The only access error of the scans is a read outside of the buffer.\<close>

lemma rd_error: "rd m d = Inl e \<Longrightarrow> e = OutOfBounds"
  by (simp add: rd_def split: if_splits)

lemma findJsonBeginningParams_error: "findJsonBeginningParams m sz d inS pos = Inl e \<Longrightarrow> e = OutOfBounds"
proof (induction "length m - d" arbitrary: d inS pos rule: less_induct)
  case less
  show ?case
  proof (cases "rd m d")
    case (Inr c)
    have IH: "findJsonBeginningParams m sz d' i' q = Inl e \<Longrightarrow> d < d' \<Longrightarrow> e = OutOfBounds" for d' i' q
      using rd_Inr_less [OF Inr] by (intro less.hyps) simp_all
    have "e = OutOfBounds \<or> (\<exists>d' i' q. d < d' \<and> findJsonBeginningParams m sz d' i' q = Inl e)"
    proof (cases "rd m (Suc d)")
      case (Inl x)
      with less.prems Inr rd_error [OF Inl] show ?thesis by (auto simp: findJsonBeginningParams.simps [of m sz d] split: if_splits)
    next
      case (Inr x)
      with less.prems \<open>rd m d = Inr c\<close> show ?thesis
        by (simp add: findJsonBeginningParams.simps [of m sz d] split: if_splits) (metis lessI less_SucI)+
    qed
    with IH show ?thesis by blast
  qed (use less.prems rd_error in \<open>simp add: findJsonBeginningParams.simps [of m sz d]\<close>)
qed

lemma findJsonEndParams_error: "findJsonEndParams m sz d inS lvl pos = Inl e \<Longrightarrow> e = OutOfBounds"
proof (induction "length m - d" arbitrary: d inS lvl pos rule: less_induct)
  case less
  show ?case
  proof (cases "rd m d")
    case (Inr c)
    have IH: "findJsonEndParams m sz d' i' l' q = Inl e \<Longrightarrow> d < d' \<Longrightarrow> e = OutOfBounds" for d' i' l' q
      using rd_Inr_less [OF Inr] by (intro less.hyps) simp_all
    have "e = OutOfBounds \<or> (\<exists>d' i' l' q. d < d' \<and> findJsonEndParams m sz d' i' l' q = Inl e)"
    proof (cases "rd m (Suc d)")
      case (Inl x)
      with less.prems Inr rd_error [OF Inl] show ?thesis
        by (simp add: findJsonEndParams.simps [of m sz d] Let_def split: if_splits) (metis lessI)+
    next
      case (Inr x)
      with less.prems \<open>rd m d = Inr c\<close> show ?thesis
        by (simp add: findJsonEndParams.simps [of m sz d] Let_def split: if_splits) (metis lessI less_SucI)+
    qed
    with IH show ?thesis by blast
  qed (use less.prems rd_error in \<open>simp add: findJsonEndParams.simps [of m sz d]\<close>)
qed

lemma getPushJson_error: "getPushJson m sz = Inl e \<Longrightarrow> e = OutOfBounds"
  by (auto simp: getPushJson_def bindE_def split: sum.splits option.splits
    dest: findJsonBeginningParams_error findJsonEndParams_error)

lemma getPushJson_len: "getPushJson m sz = Inr (message, start, len) \<Longrightarrow> len = -1 \<or> 0 < len"
  by (auto simp: getPushJson_def bindE_Inr_iff split: option.splits if_splits)

lemma getPushJson_span:
  assumes "getPushJson m sz = Inr (message, start, len)" and "len > 0"
  obtains s n where "message = Some s" "start = int s" "len = int n" "0 < n" "s + n \<le> sz"
    "no_nul m s (s + n)" "m ! (s + n - 1) = CHR ''}''"
proof -
  obtain b i p where b: "findJsonBeginningParams m sz 0 False 0 = Inr (b, i, p)"
    using assms(1) by (cases "findJsonBeginningParams m sz 0 False 0") (auto simp: getPushJson_def)
  with assms obtain q where q: "b = Some q" by (cases b) (auto simp: getPushJson_def)
  from assms b q obtain e i' l p' where e: "findJsonEndParams m (sz - p) p False 0 0 = Inr (e, i', l, p')"
    by (cases "findJsonEndParams m (sz - p) p False 0 0") (auto simp: getPushJson_def)
  with assms b q obtain f where f: "e = Some f" by (cases e) (auto simp: getPushJson_def)
  from findJsonEndParams_span [of m "sz - p" p False 0 0 f i' l p'] e f
  have *: "p < f" "no_nul m p f" "m ! (f - 1) = CHR ''}''" "p' = f - 1 - p" "p' < sz - p" by auto
  show ?thesis
    by (rule that [of p "Suc p'"]) (use assms b q e f * in \<open>auto simp: getPushJson_def\<close>)
qed

section \<open>The first loop\<close>

definition closed_text :: "string \<Rightarrow> bool" where
  "closed_text s \<longleftrightarrow> s = [] \<or> last s = CHR ''}''"

lemma closed_tl: "closed_text (c # s) \<Longrightarrow> closed_text s"
  by (auto simp: closed_text_def split: if_splits)

lemma closed_append: "closed_text (s @ t) \<Longrightarrow> closed_text t"
  by (auto simp: closed_text_def last_append split: if_splits)

text \<open>Blanks are skipped up to a character of the text, since its last character is none.\<close>

lemma split_blanks:
  assumes "closed_text s" "s \<noteq> []"
  obtains b c t where "s = b @ c # t" "blanks b" "c \<noteq> CHR '' ''" "c \<noteq> CHR 0x09"
proof -
  let ?P = "\<lambda>c. c = CHR '' '' \<or> c = CHR 0x09"
  have "last s \<in> set s" "\<not> ?P (last s)" using assms last_in_set [of s] by (auto simp: closed_text_def)
  then have ne: "dropWhile ?P s \<noteq> []" by (auto simp: dropWhile_eq_Nil_conv)
  then obtain c t where ct: "dropWhile ?P s = c # t" by (meson list.exhaust)
  then have "\<not> ?P c" using hd_dropWhile [OF ne] by simp
  moreover have "blanks (takeWhile ?P s)" by (auto simp: blanks_def list_all_iff dest: set_takeWhileD)
  moreover have "s = takeWhile ?P s @ c # t" using takeWhile_dropWhile_id [of ?P s] ct by simp
  ultimately show ?thesis using that by blast
qed

text \<open>The loop returns without an error, and what it finds is a character of the text.\<close>

definition at_char :: "char list \<Rightarrow> nat \<Rightarrow> bool" where
  "at_char m d \<longleftrightarrow> (\<exists>c t. holds m d (c # t))"

definition key_found :: "char list \<Rightarrow> mem_error + (nat \<times> bool \<times> bool) option \<Rightarrow> bool" where
  "key_found m res \<longleftrightarrow> (\<exists>r. res = Inr r \<and> (\<forall>d j e. r = Some (d, j, e) \<longrightarrow> at_char m d))"

lemma key_found_simps [simp]:
  "key_found m (Inr None)" "key_found m (Inr (Some (d, j, e))) \<longleftrightarrow> at_char m d"
  by (auto simp: key_found_def)

text \<open>The two branches of the loop, over the text that is left when the loop goes on.\<close>

definition key_total :: "char list \<Rightarrow> string \<Rightarrow> nat \<Rightarrow> bool" where
  "key_total m key n \<longleftrightarrow> (\<forall>t d i l. length t < n \<longrightarrow> holds m d t \<longrightarrow> closed_text t \<longrightarrow> key_found m (find_key m key d i l))"

lemma key_totalD:
  "key_total m key n \<Longrightarrow> length t < n \<Longrightarrow> holds m d t \<Longrightarrow> closed_text t \<Longrightarrow> key_found m (find_key m key d i l)"
  by (auto simp: key_total_def)

lemma find_key_other_total:
  assumes IH: "key_total m key (length (c # t))" and s: "holds m d (c # t)" "closed_text (c # t)"
    and key: "NUL \<notin> set key" and no: "\<not> prefix key (c # t) \<or> lvl > 1"
  shows "key_found m (find_key m key d inS lvl)"
proof -
  note c = holds_Cons [OF s(1)]
  have cl: "closed_text t" using s(2) closed_tl by blast
  have t1: "key_found m (find_key m key (Suc d) i l)" for i l using key_totalD [OF IH, of t "Suc d"] c cl by simp
  have esc: "key_found m (bindE (rd m (Suc d)) (\<lambda>e. if e \<noteq> NUL then find_key m key (Suc (Suc d)) i l
      else find_key m key (Suc d) i l))" for i l
  proof (cases t)
    case Nil
    with c t1 show ?thesis by (simp add: holds_Nil)
  next
    case (Cons e u)
    with c have "holds m (Suc d) (e # u)" by simp
    from holds_Cons [OF this] key_totalD [OF IH, of u "Suc (Suc d)" i l] closed_tl [of e u] cl Cons show ?thesis by simp
  qed
  have "strncmp_eq m d key = Inr (prefix key (c # t))" by (rule strncmp_eq_holds [OF s(1) key])
  with no c t1 esc show ?thesis by (auto simp: find_key.simps [of m key d])
qed

lemma find_key_match_total:
  assumes IH: "key_total m key (length s)" and s: "holds m d s" "closed_text s" "s \<noteq> []"
    and key: "NUL \<notin> set key" "CHR ''}'' \<notin> set key" and yes: "prefix key s" "\<not> lvl > 1"
  shows "key_found m (find_key m key d inS lvl)"
proof -
  from yes obtain u where u: "s = key @ u" by (auto simp: prefix_def)
  with s key(2) have "u \<noteq> []" by (metis closed_text_def append_Nil2 last_in_set)
  then obtain c1 v where v: "u = c1 # v" by (meson list.exhaust)
  have hu: "holds m (d + length key) (c1 # v)" using holds_append [of m d key u] s(1) u v by simp
  have cv: "closed_text (c1 # v)" using closed_append [of key] s(2) u v by simp
  have len: "length v < length s" using u v by simp
  have "strncmp_eq m d key = Inr True" using strncmp_eq_holds [OF s(1) key(1)] yes by simp
  then have start: "strncmp_eq m d key = Inr True" "\<exists>c. rd m d = Inr c \<and> c \<noteq> NUL" "\<not> lvl > 1"
    "rd m (d + length key) = Inr c1" "holds m (Suc (d + length key)) v"
    using yes(2) holds_Cons [OF hu] s(1,3) holds_Cons by (auto simp: neq_Nil_conv)
  show ?thesis
  proof (cases "c1 = CHR 0x22")
    case False
    with start key_totalD [OF IH len, of "Suc (d + length key)"] closed_tl [OF cv] show ?thesis
      by (auto simp: find_key.simps [of m key d])
  next
    case quote: True
    then have "v \<noteq> []" using cv by (auto simp: closed_text_def)
    then obtain b c2 w where w: "v = b @ c2 # w" "blanks b" "c2 \<noteq> CHR '' ''" "c2 \<noteq> CHR 0x09"
      using split_blanks [OF closed_tl [OF cv]] by blast
    have hv: "holds m (Suc (d + length key)) (b @ c2 # w)" using hu [THEN holds_Cons] w(1) by simp
    let ?d2 = "Suc (d + length key) + length b"
    have cw: "closed_text (c2 # w)" using closed_append [of "c1 # b" "c2 # w"] cv w(1) by simp
    note second = start quote skip_blanks_holds [OF hv w(2-4)] holds_append [OF hv, THEN holds_Cons]
    show ?thesis
    proof (cases "c2 = CHR '':''")
      case False
      with second key_totalD [OF IH, of w "Suc ?d2"] closed_tl [OF cw] len w(1) show ?thesis
        by (auto simp: find_key.simps [of m key d])
    next
      case colon: True
      then have "w \<noteq> []" using cw by (auto simp: closed_text_def)
      then obtain b' c3 x where x: "w = b' @ c3 # x" "blanks b'" "c3 \<noteq> CHR '' ''" "c3 \<noteq> CHR 0x09"
        using split_blanks [OF closed_tl [OF cw]] by blast
      have h3: "holds m (Suc ?d2) (b' @ c3 # x)" using holds_append [OF hv, THEN holds_Cons] x(1) by simp
      have "at_char m (Suc ?d2 + length b')" unfolding at_char_def using holds_append [OF h3] by blast
      with second colon skip_blanks_holds [OF h3 x(2-4)] holds_append [OF h3, THEN holds_Cons]
      show ?thesis by (auto simp: find_key.simps [of m key d])
    qed
  qed
qed

lemma find_key_total:
  assumes key: "NUL \<notin> set key" "CHR ''}'' \<notin> set key"
  shows "holds m d s \<Longrightarrow> closed_text s \<Longrightarrow> key_found m (find_key m key d inS lvl)"
proof (induction s arbitrary: d inS lvl rule: length_induct)
  case (1 s)
  then have IH: "key_total m key (length s)" by (auto simp: key_total_def)
  show ?case
  proof (cases s)
    case Nil
    with "1.prems" show ?thesis by (simp add: find_key.simps [of m key d] holds_Nil)
  next
    case (Cons c t)
    with IH "1.prems" key find_key_other_total [of m key c t d lvl inS] find_key_match_total [of m key s d lvl inS]
    show ?thesis by blast
  qed
qed

section \<open>The second loop\<close>

lemma return_value_total: "rd m d = Inr c \<Longrightarrow> \<exists>r. return_value m d out = Inr r"
  by (simp add: return_value_def)

lemma copy_value_total:
  "holds m d s \<Longrightarrow> \<exists>r. copy_value m json ewq sz d inS lvl bs out = Inr r"
proof (induction s arbitrary: d sz inS lvl bs out)
  case Nil
  then show ?case
    using return_value_total [OF holds_Nil [OF Nil]] by (simp add: copy_value.simps [of m json ewq sz] holds_Nil)
next
  case (Cons c s)
  note c = holds_Cons [OF Cons.prems]
  show ?case
  proof (cases "1 < sz")
    case False
    with return_value_total [of m d c] c show ?thesis by (simp add: copy_value.simps [of m json ewq sz])
  next
    case True
    obtain r where r: "copy_value m json ewq sz d inS lvl bs out = r" by blast
    from copy_step [OF True _ r] c show ?thesis
      using Cons.IH [of "Suc d"] return_value_total [of m d c] r by (auto simp: copy_next_def copy_stop_def)
  qed
qed

section \<open>Correctness\<close>

lemma processor_total:
  assumes "holds m 0 s" "closed_text s" and key: "NUL \<notin> set key" "CHR ''}'' \<notin> set key"
  shows "\<exists>b out. simpleJsonProcessor (Some m) (Some key) value sz = Inr (b, out)"
proof -
  obtain r where r: "find_key m key 0 False 0 = Inr r" and
    found: "\<And>d j e. r = Some (d, j, e) \<Longrightarrow> \<exists>c t. holds m d (c # t)"
    using find_key_total [OF key assms(1,2), where inS = False and lvl = 0] by (auto simp: key_found_def at_char_def)
  show ?thesis
  proof (cases r)
    case (Some p)
    obtain d json ewq where p: "p = (d, json, ewq)" by (cases p)
    with found Some obtain c t where h: "holds m d (c # t)" by blast
    have "\<exists>q. copy_value m json ewq sz (if ewq then Suc d else d) (\<not> json) 0 False [] = Inr q"
      using copy_value_total h holds_Cons [OF h] by auto
    with r Some p h holds_Cons [OF h] show ?thesis by (auto simp: simpleJsonProcessor_def)
  qed (use r in \<open>auto simp: simpleJsonProcessor_def\<close>)
qed



lemma processor_counts_only: "simpleJsonProcessor data key False sz = Inr (b, out) \<Longrightarrow> out = []"
  by (auto simp: simpleJsonProcessor_def bindE_Inr_iff split: option.splits if_splits)

lemma processor_error:
  assumes "simpleJsonProcessor data (Some key) value sz = Inl e" "NUL \<notin> set key" "CHR ''}'' \<notin> set key"
  shows "\<exists>m. data = Some m \<and> \<not> (\<exists>s rest. NUL \<notin> set s \<and> m = s @ CHR ''}'' # NUL # rest)"
proof (cases data)
  case (Some m)
  have "m \<noteq> s @ CHR ''}'' # NUL # rest" if "NUL \<notin> set s" for s rest
  proof
    assume m: "m = s @ CHR ''}'' # NUL # rest"
    with that have "holds m 0 (s @ ''}'')" by (auto simp: holds_def)
    from processor_total [OF this _ assms(2,3), of "value" sz] assms(1) Some show False by (auto simp: closed_text_def)
  qed
  with Some show ?thesis by blast
qed (use assms(1) in \<open>simp add: simpleJsonProcessor_def\<close>)

text \<open>
  C26. What \<open>simpleJsonProcessor\<close> writes fits, for every text, key (without a closing brace) and size. It returns, having written at most
  \<open>size\<close> bytes, or one byte, the terminator, when the size is not positive; nothing without an output buffer; a value
  that is found ends with its terminator; and a buffer that was cleared before holds a terminated string afterwards, whatever the
  result. Or it leaves the text, which then is not one that ends with a closing brace and its terminator.
\<close>

theorem simpleJsonProcessor_bounds:
  assumes "NUL \<notin> set key" "CHR ''}'' \<notin> set key"
  shows "(\<exists>b out. simpleJsonProcessor data (Some key) value sz = Inr (b, out) \<and>
      int (length out) \<le> (if 1 \<le> sz then sz else 1) \<and> (\<not> value \<longrightarrow> out = []) \<and> (b \<and> value \<longrightarrow> out \<noteq> [] \<and> last out = NUL) \<and>
      (sz < 1 \<and> out \<noteq> [] \<longrightarrow> out = [NUL]) \<and> (1 \<le> sz \<longrightarrow> NUL \<in> set (out @ replicate (nat sz - length out) NUL))) \<or>
    (\<exists>e m. simpleJsonProcessor data (Some key) value sz = Inl e \<and> data = Some m \<and>
      \<not> (\<exists>s rest. NUL \<notin> set s \<and> m = s @ CHR ''}'' # NUL # rest))"
proof (cases "simpleJsonProcessor data (Some key) value sz")
  case (Inl e)
  with processor_error [OF Inl assms] show ?thesis by blast
next
  case (Inr r)
  obtain b out where r: "simpleJsonProcessor data (Some key) value sz = Inr (b, out)" using Inr by (cases r) simp
  note f = processor_fits [OF r]
  have "int (length out) \<le> (if 1 \<le> sz then sz else 1)" using f by (auto simp: fits_def split: if_splits)
  moreover have "sz < 1 \<and> out \<noteq> [] \<longrightarrow> out = [NUL]" using f by (cases out) (auto simp: fits_def split: if_splits)
  moreover have "1 \<le> sz \<longrightarrow> NUL \<in> set (out @ replicate (nat sz - length out) NUL)"
    using f by (auto simp: fits_def split: if_splits) (metis last_in_set)+
  moreover have "\<not> value \<longrightarrow> out = []" using processor_counts_only r by (cases "value") auto
  moreover have "b \<and> value \<longrightarrow> out \<noteq> [] \<and> last out = NUL" using processor_true [of data "Some key" sz out] r by (cases "value"; cases b) auto
  ultimately show ?thesis using r by blast
qed

text \<open>A value that is longer than the buffer is cut off, and the last of the four bytes is the terminator.\<close>

theorem simpleJsonProcessor_bounds_witness:
  "\<exists>out. simpleJsonProcessor (Some (''{'' @ CHR 0x22 # ''id'' @ [CHR 0x22] @ '':'' @ CHR 0x22 # ''abcdef'' @ CHR 0x22 # ''}'' @ [NUL])) (Some ''id'') True 4 = Inr (True, out) \<and>
    out = ''abc'' @ [NUL] \<and> int (length out) \<le> 4 \<and> last out = NUL \<and> NUL \<in> set (out @ replicate (nat 4 - length out) NUL)"
proof -
  let ?m = "''{'' @ CHR 0x22 # ''id'' @ [CHR 0x22] @ '':'' @ CHR 0x22 # ''abcdef'' @ CHR 0x22 # ''}'' @ [NUL]"
  have "simpleJsonProcessor (Some ?m) (Some ''id'') True 4 = Inr (True, ''abc'' @ [NUL])"
    by (simp add: simpleJsonProcessor_def find_key.simps copy_value.simps skip_blanks.simps return_value_def rd_def)
  moreover have "NUL \<notin> set ''id''" "CHR ''}'' \<notin> set ''id''" by simp_all
  ultimately show ?thesis using simpleJsonProcessor_bounds [of "''id''" "Some ?m" True 4] by simp
qed

end
