(* ===== verification/Rtos_Push.thy ===== *)
theory Rtos_Push
  imports Json_Safe
begin

text \<open>
  \<^verbatim>\<open>rtos/push.c\<close>: the push service of the real-time platforms. The client's fields that the service
  uses, the receive buffer and the network are one state; the platform layer (\<open>socketRead\<close>,
  \<open>socketWrite\<close> and the ping clock) is a record of functions over the state of the network, so that
  the service can be read over any platform. What the service does to the outside is logged.
\<close>

section \<open>Definitions\<close>

record 'w platform =
  sock_read :: "int \<Rightarrow> nat \<Rightarrow> nat \<Rightarrow> 'w \<Rightarrow> mem_error + ((int \<times> char list) \<times> 'w)"
  sock_write :: "int \<Rightarrow> string \<Rightarrow> 'w \<Rightarrow> int \<times> 'w"
  ping_due :: "'w \<Rightarrow> bool"
  ping_sent :: "'w \<Rightarrow> 'w"

datatype push_effect = Callback int "string option" | Closed int | Saved

record 'w service =
  socketHandle :: int
  nFailedPing :: int
  callback :: bool
  lastPushTime :: "char list"
  pushDataBuffer :: "char list"
  pushDataBufferUsed :: int
  world :: 'w
  effects :: "push_effect list"

definition RECEIVE_BUFFER_SIZE :: nat where
  "RECEIVE_BUFFER_SIZE = 1024"

definition PUSH_TIME_MAX_LEN :: nat where
  "PUSH_TIME_MAX_LEN = 40"

definition emit :: "push_effect \<Rightarrow> 'w service \<Rightarrow> 'w service" where
  "emit e st = st\<lparr>effects := effects st @ [e]\<rparr>"

definition parseSetPushCallback :: "bool \<Rightarrow> 'w service \<Rightarrow> 'w service" where
  "parseSetPushCallback cb st = st\<lparr>callback := cb\<rparr>"

definition parseStopPushService :: "'w service \<Rightarrow> 'w service" where
  "parseStopPushService st =
     (emit (Closed (socketHandle st)) st)\<lparr>socketHandle := -1, nFailedPing := 0, callback := False\<rparr>"

definition parseGetPushSocket :: "'w service \<Rightarrow> int" where
  "parseGetPushSocket st = socketHandle st"

definition sendPing :: "'w platform \<Rightarrow> 'w service \<Rightarrow> 'w service" where
  "sendPing P st =
     (if ping_due P (world st) then
        (case sock_write P (socketHandle st) (''{}'' @ [CHR 0x0D, CHR 0x0A]) (world st) of (status, w) \<Rightarrow>
           let st = st\<lparr>world := w\<rparr> in
           if status < 0 then
             if nFailedPing st > 20 then
               let st = (if callback st then emit (Callback (-1) None) st else st) in
               (emit (Closed (socketHandle st)) st)\<lparr>socketHandle := -1\<rparr>
             else st\<lparr>nFailedPing := nFailedPing st + 1\<rparr>
           else st\<lparr>nFailedPing := 0, world := ping_sent P w\<rparr>)
      else st)"

text \<open>
  The reading loop. Its first condition compares an \<open>int\<close> with a \<open>size_t\<close>, for which a negative number
  counts as a large one. The result is the last message pointer and length of \<open>getPushJson\<close>; after a
  read that brings nothing the length is still -1, and the pointer is not used then.
\<close>

function push_read :: "'w platform \<Rightarrow> 'w service \<Rightarrow> mem_error + (nat option \<times> int \<times> 'w service)" where
  "push_read P st =
     (if 0 \<le> pushDataBufferUsed st \<and> pushDataBufferUsed st < int RECEIVE_BUFFER_SIZE then
        bindE (sock_read P (socketHandle st) (nat (int RECEIVE_BUFFER_SIZE - pushDataBufferUsed st)) 3000 (world st)) (\<lambda>((len, written), w).
        bindE (poke (pushDataBuffer st) (nat (pushDataBufferUsed st)) written) (\<lambda>buf.
          if len > 0 then
            bindE (getPushJson buf (nat (pushDataBufferUsed st + len))) (\<lambda>(message, start, length).
              if length = -1 then
                push_read P (st\<lparr>world := w, pushDataBuffer := buf, pushDataBufferUsed := pushDataBufferUsed st + len\<rparr>)
              else Inr (message, length,
                st\<lparr>world := w, pushDataBuffer := buf, pushDataBufferUsed := pushDataBufferUsed st + len\<rparr>))
          else Inr (None, -1, st\<lparr>world := w, pushDataBuffer := buf\<rparr>)))
      else Inr (None, -1, st))"
  by pat_completeness auto
termination
  by (relation "measure (\<lambda>(P, st). nat (int RECEIVE_BUFFER_SIZE - pushDataBufferUsed st))") auto

declare push_read.simps [simp del]

text \<open>A complete message at \<open>message\<close> of length \<open>len\<close>.\<close>

definition push_message :: "nat \<Rightarrow> nat \<Rightarrow> 'w service \<Rightarrow> mem_error + (int \<times> 'w service)" where
  "push_message message len st =
     bindE (poke (pushDataBuffer st) (message + len) [NUL]) (\<lambda>buf.
     bindE (simpleJsonProcessor (Some (drop message buf)) (Some ''time'') True (int PUSH_TIME_MAX_LEN)) (\<lambda>(found, val).
     bindE (poke (lastPushTime st) 0 val) (\<lambda>time.
     bindE (strncmp_eq buf message ''{}'') (\<lambda>heartbeat.
       let st = st\<lparr>pushDataBuffer := buf, lastPushTime := time\<rparr>;
           st = (if found then emit Saved st else st);
           st = (if heartbeat \<or> \<not> callback st then st
                 else emit (Callback 0 (Some (takeWhile (\<lambda>c. c \<noteq> NUL) (drop message buf)))) st);
           used = pushDataBufferUsed st - (int len + 1) in
       if used > 0 then
         bindE (peek buf (len + 1) (nat used)) (\<lambda>rest.
         bindE (poke buf 0 rest) (\<lambda>buf'.
           Inr (1, st\<lparr>pushDataBuffer := buf', pushDataBufferUsed := used\<rparr>)))
       else Inr (0, st\<lparr>pushDataBufferUsed := used\<rparr>)))))"

definition parseProcessNextPushNotification :: "'w platform \<Rightarrow> 'w service \<Rightarrow> mem_error + (int \<times> 'w service)" where
  "parseProcessNextPushNotification P st =
     (if socketHandle st > 0 then
        bindE (push_read P st) (\<lambda>(message, length, st1).
          if length = -1 \<and> pushDataBufferUsed st1 = int RECEIVE_BUFFER_SIZE then
            Inr (0, st1\<lparr>pushDataBufferUsed := 0\<rparr>)
          else if length > 0 \<and> message \<noteq> None then push_message (the message) (nat length) st1
          else Inr (0, sendPing P st1))
      else Inr (0, st))"

text \<open>The first calls of \<open>parseRunPushLoop\<close>, which ends when the socket is closed.\<close>

fun parseRunPushLoop :: "nat \<Rightarrow> 'w platform \<Rightarrow> 'w service \<Rightarrow> mem_error + 'w service" where
  "parseRunPushLoop 0 P st = Inr st"
| "parseRunPushLoop (Suc n) P st =
     (if socketHandle st \<noteq> -1 then
        bindE (parseProcessNextPushNotification P st) (\<lambda>(_, st'). parseRunPushLoop n P st')
      else Inr st)"

section \<open>A message\<close>

text \<open>What a call does to the log for the message \<open>msg\<close>.\<close>

definition delivered :: "bool \<Rightarrow> string \<Rightarrow> push_effect list" where
  "delivered cb msg = (if prefix ''{}'' msg \<or> \<not> cb then [] else [Callback 0 (Some msg)])"

lemma push_message_ok:
  assumes buf: "length (pushDataBuffer st) = RECEIVE_BUFFER_SIZE" "length (lastPushTime st) = Suc PUSH_TIME_MAX_LEN"
    and msg: "msg = take n (drop s (pushDataBuffer st))" "NUL \<notin> set msg" "last msg = CHR ''}''" "0 < n"
    and used: "s + n < RECEIVE_BUFFER_SIZE" "int (s + n) \<le> pushDataBufferUsed st" "pushDataBufferUsed st \<le> int RECEIVE_BUFFER_SIZE"
    and u: "u = pushDataBufferUsed st - (int n + 1)"
  shows "\<exists>saved buf' time. set saved \<subseteq> {Saved} \<and> length buf' = RECEIVE_BUFFER_SIZE \<and> length time = Suc PUSH_TIME_MAX_LEN \<and>
    push_message s n st = Inr (if u > 0 then 1 else 0,
      st\<lparr>pushDataBuffer := buf', lastPushTime := time, pushDataBufferUsed := u,
         effects := effects st @ saved @ delivered (callback st) msg\<rparr>) \<and>
    (0 < u \<longrightarrow> take (nat u) buf' = take (nat u) (drop (Suc n) ((pushDataBuffer st)[s + n := NUL])))"
proof -
  obtain buf1 where b1: "poke (pushDataBuffer st) (s + n) [NUL] = Inr buf1" using used(1) buf(1) by (simp add: poke_def)
  then have b1': "buf1 = (pushDataBuffer st)[s + n := NUL]" "length buf1 = RECEIVE_BUFFER_SIZE"
    using buf(1) by (auto simp: poke_def upd_conv_take_nth_drop split: if_splits)
  have d: "drop s buf1 = msg @ NUL # drop (Suc (s + n)) (pushDataBuffer st)"
    unfolding msg(1) by (rule poke_nul_drop [OF b1])
  then have h: "holds (drop s buf1) 0 msg" using msg(2) by (auto simp: holds_def)
  have "holds buf1 s msg" unfolding holds_def
    using d msg(2) b1'(2) used(1) by (metis append_take_drop_id length_take min.absorb2 add_leD1 less_imp_le)
  then have hb: "strncmp_eq buf1 s ''{}'' = Inr (prefix ''{}'' msg)" by (rule strncmp_eq_holds) simp
  have "closed_text msg" using msg(3) by (simp add: closed_text_def)
  then obtain found val where p: "simpleJsonProcessor (Some (drop s buf1)) (Some ''time'') True (int PUSH_TIME_MAX_LEN) = Inr (found, val)"
    using processor_total [OF h, of "''time''"] by fastforce
  then have "length val \<le> PUSH_TIME_MAX_LEN"
    using processor_fits [OF p] by (auto simp: fits_def PUSH_TIME_MAX_LEN_def)
  then obtain time where t: "poke (lastPushTime st) 0 val = Inr time" "length time = Suc PUSH_TIME_MAX_LEN"
    using buf(2) poke_total [of 0 val "lastPushTime st"] poke_length by fastforce
  have tw: "takeWhile (\<lambda>c. c \<noteq> NUL) (drop s buf1) = msg"
    using msg(2) by (auto simp: d takeWhile_tail takeWhile_eq_all_conv)
  define saved where "saved = (if found then [Saved] else [])"
  have step: "push_message s n st =
     (if u > 0 then bindE (peek buf1 (n + 1) (nat u)) (\<lambda>rest. bindE (poke buf1 0 rest) (\<lambda>buf'.
        Inr (1, st\<lparr>pushDataBuffer := buf', lastPushTime := time, pushDataBufferUsed := u,
          effects := effects st @ saved @ delivered (callback st) msg\<rparr>)))
      else Inr (0, st\<lparr>pushDataBuffer := buf1, lastPushTime := time, pushDataBufferUsed := u,
          effects := effects st @ saved @ delivered (callback st) msg\<rparr>))"
    using b1 p t(1) hb tw u unfolding push_message_def delivered_def saved_def
    by (cases st) (simp add: Let_def emit_def del: strncmp_eq.simps)
  have sv: "set saved \<subseteq> {Saved}" by (auto simp: saved_def)
  show ?thesis
  proof (cases "u > 0")
    case True
    have "n + 1 + nat u \<le> length buf1" using u used(3) b1'(2) True by simp
    then have pk: "peek buf1 (n + 1) (nat u) = Inr (take (nat u) (drop (n + 1) buf1))"
      "length (take (nat u) (drop (n + 1) buf1)) = nat u" by (simp_all add: peek_def)
    obtain buf' where b2: "poke buf1 0 (take (nat u) (drop (n + 1) buf1)) = Inr buf'"
      using pk(2) b1'(2) \<open>n + 1 + nat u \<le> length buf1\<close> by (simp add: poke_def)
    then have "take (nat u) buf' = take (nat u) (drop (n + 1) buf1)" "length buf' = RECEIVE_BUFFER_SIZE"
      using pk(2) b1'(2) poke_length [OF b2] by (auto simp: poke_def split: if_splits)
    with sv t(2) step pk b2 True b1'(1) show ?thesis
      by (intro exI [of _ saved] exI [of _ buf'] exI [of _ time]) simp
  next
    case False
    with sv t(2) step b1' show ?thesis
      by (intro exI [of _ saved] exI [of _ buf1] exI [of _ time]) simp
  qed
qed

section \<open>Platforms whose reads are terminated\<close>

text \<open>
  The interface to the platform that the safety of the service rests on: a read of at most \<open>n\<close> bytes
  writes what it received and a terminator, and reports an error or the number of bytes received. The
  platforms are a family over a parameter, and the law is asked of the good ones.
\<close>

locale terminated_reads =
  fixes plat :: "'p \<Rightarrow> 'w platform" and good :: "'p \<Rightarrow> bool"
  assumes read_law: "good p \<Longrightarrow> 0 < h \<Longrightarrow> 0 < n \<Longrightarrow>
    sock_read (plat p) h n t w = Inl NoReturn \<or>
    (\<exists>len received w'. sock_read (plat p) h n t w = Inr ((len, received @ [NUL]), w') \<and>
       length received < n \<and> (len < 0 \<or> len = int (length received)))"

text \<open>The buffers have their sizes, and less than the whole receive buffer is in use.\<close>

definition service_inv :: "'w service \<Rightarrow> bool" where
  "service_inv st \<longleftrightarrow> length (pushDataBuffer st) = RECEIVE_BUFFER_SIZE \<and>
     length (lastPushTime st) = Suc PUSH_TIME_MAX_LEN \<and>
     -1 \<le> pushDataBufferUsed st \<and> pushDataBufferUsed st < int RECEIVE_BUFFER_SIZE"

text \<open>The outcomes of the reading loop: no message yet, or one that lies within the data.\<close>

definition read_outcome :: "'w service \<Rightarrow> nat option \<times> int \<times> 'w service \<Rightarrow> bool" where
  "read_outcome st r \<longleftrightarrow> (case r of (message, len, st') \<Rightarrow>
     service_inv st' \<and> effects st' = effects st \<and> callback st' = callback st \<and> socketHandle st' = socketHandle st \<and>
     (len = -1 \<or> (\<exists>s n. message = Some s \<and> len = int n \<and> 0 < n \<and> int (s + n) \<le> pushDataBufferUsed st' \<and>
        no_nul (pushDataBuffer st') s (s + n) \<and> pushDataBuffer st' ! (s + n - 1) = CHR ''}'')))"

lemma no_nul_message:
  assumes "no_nul m s (s + n)" "0 < n" "m ! (s + n - 1) = CHR ''}''"
  shows "NUL \<notin> set (take n (drop s m))" "last (take n (drop s m)) = CHR ''}''"
proof -
  from assms(1) show "NUL \<notin> set (take n (drop s m))" by (simp add: no_nul_def)
  from assms(1) have "length (take n (drop s m)) = n" by (auto simp: no_nul_def)
  with assms(2,3) show "last (take n (drop s m)) = CHR ''}''"
    by (subst last_conv_nth) (auto simp: no_nul_def)
qed

lemma sendPing_keeps:
  "pushDataBuffer (sendPing P st) = pushDataBuffer st" "pushDataBufferUsed (sendPing P st) = pushDataBufferUsed st"
  "lastPushTime (sendPing P st) = lastPushTime st"
  by (simp_all add: sendPing_def emit_def Let_def split: prod.split)

context terminated_reads
begin

lemma read_once:
  assumes "good p" "service_inv st" "0 < socketHandle st" "0 \<le> pushDataBufferUsed st"
  obtains "sock_read (plat p) (socketHandle st) (nat (int RECEIVE_BUFFER_SIZE - pushDataBufferUsed st)) 3000 (world st) = Inl NoReturn"
  | len received w buf where
      "sock_read (plat p) (socketHandle st) (nat (int RECEIVE_BUFFER_SIZE - pushDataBufferUsed st)) 3000 (world st) = Inr ((len, received @ [NUL]), w)"
      "poke (pushDataBuffer st) (nat (pushDataBufferUsed st)) (received @ [NUL]) = Inr buf" "length buf = RECEIVE_BUFFER_SIZE"
      "pushDataBufferUsed st + len < int RECEIVE_BUFFER_SIZE"
      "len > 0 \<Longrightarrow> rd buf (nat (pushDataBufferUsed st + len)) = Inr NUL"
proof -
  let ?u = "nat (pushDataBufferUsed st)" and ?n = "nat (int RECEIVE_BUFFER_SIZE - pushDataBufferUsed st)"
  have n: "0 < ?n" "?u + ?n = RECEIVE_BUFFER_SIZE" using assms(2,4) by (auto simp: service_inv_def)
  from read_law [OF assms(1,3) n(1), of 3000 "world st"]
  consider "sock_read (plat p) (socketHandle st) ?n 3000 (world st) = Inl NoReturn"
    | len received w' where "sock_read (plat p) (socketHandle st) ?n 3000 (world st) = Inr ((len, received @ [NUL]), w')"
      "length received < ?n" "len < 0 \<or> len = int (length received)" by blast
  then show thesis
  proof cases
    case (2 len received w')
    note r = 2(1) and l = 2(2) and len = 2(3)
    have fit: "?u + length (received @ [NUL]) \<le> length (pushDataBuffer st)" using l n assms(2) by (simp add: service_inv_def)
    then obtain buf where buf: "poke (pushDataBuffer st) ?u (received @ [NUL]) = Inr buf" using poke_total by blast
    then have lb: "length buf = RECEIVE_BUFFER_SIZE" using poke_length [OF buf] assms(2) by (simp add: service_inv_def)
    have ul: "pushDataBufferUsed st + len < int RECEIVE_BUFFER_SIZE" using len l n assms(4) by linarith
    have "rd buf (nat (pushDataBufferUsed st + len)) = Inr NUL" if "len > 0"
    proof -
      have eq: "nat (pushDataBufferUsed st + len) = ?u + length received" using that len assms(4) by auto
      then have "buf ! (?u + length received) = NUL" using poke_nth [OF buf, of "length received"] by simp
      with eq fit poke_length [OF buf] show ?thesis by (simp add: rd_def)
    qed
    with r buf lb ul show thesis using that(2) by blast
  qed (use that(1) in blast)
qed

lemma push_read_safe:
  "good p \<Longrightarrow> service_inv st \<Longrightarrow> 0 < socketHandle st \<Longrightarrow>
   push_read (plat p) st = Inl NoReturn \<or> (\<exists>r. push_read (plat p) st = Inr r \<and> read_outcome st r)"
proof (induction "nat (int RECEIVE_BUFFER_SIZE - pushDataBufferUsed st)" arbitrary: st rule: less_induct)
  case less
  show ?case
  proof (cases "0 \<le> pushDataBufferUsed st")
    case False
    with less.prems show ?thesis by (simp add: push_read.simps read_outcome_def)
  next
    case True
    have guard: "pushDataBufferUsed st < int RECEIVE_BUFFER_SIZE" using less.prems(2) by (simp add: service_inv_def)
    from less.prems True show ?thesis
    proof (cases rule: read_once)
      case 1
      with True guard show ?thesis by (simp add: push_read.simps)
    next
      case (2 len received w buf)
      let ?st = "st\<lparr>world := w, pushDataBuffer := buf, pushDataBufferUsed := pushDataBufferUsed st + len\<rparr>"
      show ?thesis
      proof (cases "len > 0")
        case False
        with 2 True guard less.prems show ?thesis by (auto simp: push_read.simps [of "plat p" st] read_outcome_def service_inv_def)
      next
        case pos: True
        from getPushJson_total [OF 2(5) [OF pos]] obtain message start l
          where g: "getPushJson buf (nat (pushDataBufferUsed st + len)) = Inr (message, start, l)" by (metis prod_cases3)
        have inv: "service_inv ?st" using less.prems(2) 2 True pos by (auto simp: service_inv_def)
        show ?thesis
        proof (cases "l = -1")
          case True
          with less.hyps [of ?st] inv less.prems 2 g pos guard \<open>0 \<le> pushDataBufferUsed st\<close>
          show ?thesis by (auto simp: push_read.simps [of "plat p" st] read_outcome_def)
        next
          case False
          with getPushJson_len [OF g] have "l > 0" by simp
          then obtain s n where "message = Some s" "l = int n" "0 < n" "s + n \<le> nat (pushDataBufferUsed st + len)"
            "no_nul buf s (s + n)" "buf ! (s + n - 1) = CHR ''}''"
            using getPushJson_span [OF g] by metis
          with inv 2 g pos guard True False show ?thesis
            by (auto simp: push_read.simps [of "plat p" st] read_outcome_def)
        qed
      qed
    qed
  qed
qed

end

text \<open>The messages that reached the application.\<close>

definition message_of :: "push_effect \<Rightarrow> string option" where
  "message_of e = (case e of Callback err m \<Rightarrow> if err = 0 then m else None | _ \<Rightarrow> None)"

definition messages :: "push_effect list \<Rightarrow> string list" where
  "messages es = List.map_filter message_of es"

lemma messages_append [simp]: "messages (es @ fs) = messages es @ messages fs"
  by (simp add: messages_def List.map_filter_def)

lemma messages_saved: "set es \<subseteq> {Saved} \<Longrightarrow> messages es = []"
  by (induction es) (auto simp: messages_def List.map_filter_def message_of_def)

lemma messages_delivered: "messages (delivered cb msg) = (if prefix ''{}'' msg \<or> \<not> cb then [] else [msg])"
  by (simp add: delivered_def messages_def List.map_filter_def message_of_def)

lemma sendPing_messages: "messages (effects (sendPing P st)) = messages (effects st)"
  by (simp add: sendPing_def emit_def Let_def messages_def List.map_filter_def message_of_def split: prod.split)

text \<open>
  States in which the service does not hear any more: the number of bytes in use is -1, so that nothing
  is read; or there is room for a terminator only; or a terminator at the start of the buffer hides
  what follows.
\<close>

definition deaf :: "'w service \<Rightarrow> bool" where
  "deaf st \<longleftrightarrow> pushDataBufferUsed st = -1 \<or> pushDataBufferUsed st = int RECEIVE_BUFFER_SIZE - 1 \<or>
     1 \<le> pushDataBufferUsed st \<and> pushDataBuffer st ! 0 = NUL"

lemma getPushJson_NUL: "rd m 0 = Inr NUL \<Longrightarrow> getPushJson m sz = Inr (None, -1, -1)"
  by (simp add: getPushJson_def findJsonBeginningParams.simps [of m sz 0])

lemma poke_first: "poke m d xs = Inr m' \<Longrightarrow> 0 < d \<Longrightarrow> m' ! 0 = m ! 0"
  by (auto simp: poke_def nth_append split: if_splits)

context terminated_reads
begin

lemma process_safe:
  assumes "good p" "service_inv st"
  shows "parseProcessNextPushNotification (plat p) st = Inl NoReturn \<or>
    (\<exists>r st'. parseProcessNextPushNotification (plat p) st = Inr (r, st') \<and> service_inv st')"
proof (cases "0 < socketHandle st")
  case False
  with assms(2) show ?thesis by (simp add: parseProcessNextPushNotification_def)
next
  case True
  from push_read_safe [OF assms True] show ?thesis
  proof (elim disjE exE conjE)
    assume "push_read (plat p) st = Inl NoReturn"
    with True show ?thesis by (simp add: parseProcessNextPushNotification_def)
  next
    fix r assume r: "push_read (plat p) st = Inr r" and out: "read_outcome st r"
    obtain message len st1 where [simp]: "r = (message, len, st1)" by (cases r)
    from out have inv: "service_inv st1" by (simp add: read_outcome_def)
    show ?thesis
    proof (cases "len = -1")
      case True
      then show ?thesis using r inv \<open>0 < socketHandle st\<close>
        by (auto simp: parseProcessNextPushNotification_def service_inv_def sendPing_keeps)
    next
      case False
      with out obtain s n where m: "message = Some s" "len = int n" "0 < n" "int (s + n) \<le> pushDataBufferUsed st1"
        "no_nul (pushDataBuffer st1) s (s + n)" "pushDataBuffer st1 ! (s + n - 1) = CHR ''}''"
        by (auto simp: read_outcome_def)
      have "s + n < RECEIVE_BUFFER_SIZE" using m(4) inv unfolding service_inv_def by linarith
      with push_message_ok [OF _ _ refl no_nul_message [OF m(5,3,6)] m(3) _ m(4) _ refl] inv obtain saved buf' time
        where pm: "push_message s n st1 = Inr (if pushDataBufferUsed st1 - (int n + 1) > 0 then 1 else 0,
            st1\<lparr>pushDataBuffer := buf', lastPushTime := time, pushDataBufferUsed := pushDataBufferUsed st1 - (int n + 1),
              effects := effects st1 @ saved @ delivered (callback st1) (take n (drop s (pushDataBuffer st1)))\<rparr>)"
          "length buf' = RECEIVE_BUFFER_SIZE" "length time = Suc PUSH_TIME_MAX_LEN"
        unfolding service_inv_def by (metis less_imp_le)
      with m(1-4) r True inv show ?thesis
        by (auto simp: parseProcessNextPushNotification_def service_inv_def)
    qed
  qed
qed

lemma deaf_read:
  "good p \<Longrightarrow> service_inv st \<Longrightarrow> 0 < socketHandle st \<Longrightarrow> deaf st \<Longrightarrow>
   push_read (plat p) st = Inl NoReturn \<or>
   (\<exists>m st'. push_read (plat p) st = Inr (m, -1, st') \<and> service_inv st' \<and> deaf st' \<and> effects st' = effects st)"
proof (induction "nat (int RECEIVE_BUFFER_SIZE - pushDataBufferUsed st)" arbitrary: st rule: less_induct)
  case less
  show ?case
  proof (cases "0 \<le> pushDataBufferUsed st")
    case False
    with less.prems show ?thesis by (simp add: push_read.simps)
  next
    case True
    have guard: "pushDataBufferUsed st < int RECEIVE_BUFFER_SIZE" using less.prems(2) by (simp add: service_inv_def)
    from less.prems(1-3) True show ?thesis
    proof (cases rule: read_once)
      case 1
      with True guard show ?thesis by (simp add: push_read.simps)
    next
      case (2 len received w buf)
      let ?st = "st\<lparr>world := w, pushDataBuffer := buf, pushDataBufferUsed := pushDataBufferUsed st + len\<rparr>"
      have first: "1 \<le> pushDataBufferUsed st \<Longrightarrow> buf ! 0 = pushDataBuffer st ! 0" using poke_first [OF 2(2)] by simp
      show ?thesis
      proof (cases "len > 0")
        case False
        with 2 True guard first less.prems show ?thesis
          by (auto simp: push_read.simps [of "plat p" st] service_inv_def deaf_def)
      next
        case pos: True
        with 2(4) less.prems(4) True have d: "1 \<le> pushDataBufferUsed st" "pushDataBuffer st ! 0 = NUL" by (auto simp: deaf_def)
        with first 2(3) have "rd buf 0 = Inr NUL" by (simp add: rd_def RECEIVE_BUFFER_SIZE_def)
        then have g: "getPushJson buf k = Inr (None, -1, -1)" for k by (rule getPushJson_NUL)
        have "service_inv ?st" "deaf ?st" using less.prems(2) 2 True pos d first by (auto simp: service_inv_def deaf_def)
        with less.hyps [of ?st] less.prems(1,3) 2 pos guard True g show ?thesis
          by (auto simp: push_read.simps [of "plat p" st])
      qed
    qed
  qed
qed

lemma deaf_process:
  assumes "good p" "service_inv st" "deaf st"
  shows "parseProcessNextPushNotification (plat p) st = Inl NoReturn \<or>
    (\<exists>st'. parseProcessNextPushNotification (plat p) st = Inr (0, st') \<and> service_inv st' \<and> deaf st' \<and>
       messages (effects st') = messages (effects st))"
proof (cases "0 < socketHandle st")
  case False
  with assms show ?thesis by (simp add: parseProcessNextPushNotification_def)
next
  case True
  from deaf_read [OF assms(1,2) True assms(3)] show ?thesis
  proof (elim disjE exE conjE)
    fix m st' assume r: "push_read (plat p) st = Inr (m, -1, st')" and inv: "service_inv st'" "deaf st'" "effects st' = effects st"
    then have "pushDataBufferUsed st' \<noteq> int RECEIVE_BUFFER_SIZE" by (simp add: service_inv_def)
    with r True have "parseProcessNextPushNotification (plat p) st = Inr (0, sendPing (plat p) st')"
      by (simp add: parseProcessNextPushNotification_def)
    with inv show ?thesis by (simp add: sendPing_messages service_inv_def deaf_def sendPing_keeps)
  qed (use True in \<open>simp add: parseProcessNextPushNotification_def\<close>)
qed

lemma loop_safe:
  "good p \<Longrightarrow> service_inv st \<Longrightarrow>
   parseRunPushLoop n (plat p) st = Inl NoReturn \<or> (\<exists>st'. parseRunPushLoop n (plat p) st = Inr st' \<and> service_inv st')"
proof (induction n arbitrary: st)
  case (Suc n)
  then show ?case using process_safe [OF Suc.prems] by fastforce
qed simp

lemma deaf_loop:
  "good p \<Longrightarrow> service_inv st \<Longrightarrow> deaf st \<Longrightarrow>
   parseRunPushLoop n (plat p) st = Inl NoReturn \<or>
   (\<exists>st'. parseRunPushLoop n (plat p) st = Inr st' \<and> messages (effects st') = messages (effects st))"
proof (induction n arbitrary: st)
  case (Suc n)
  then show ?case using deaf_process [OF Suc.prems] by fastforce
qed simp

end

section \<open>Delivery\<close>

text \<open>
  A call whose first read completes a message: the data in the buffer is then the object \<open>ps\<close>, after
  text \<open>js\<close> without one, followed by \<open>rest\<close>.
\<close>

definition read_completes :: "'w platform \<Rightarrow> 'w service \<Rightarrow> piece list \<Rightarrow> piece list \<Rightarrow> string \<Rightarrow> char list \<Rightarrow> 'w \<Rightarrow> bool" where
  "read_completes P st js ps rest buf w \<longleftrightarrow>
     0 < socketHandle st \<and> length (pushDataBuffer st) = RECEIVE_BUFFER_SIZE \<and> length (lastPushTime st) = Suc PUSH_TIME_MAX_LEN \<and>
     0 \<le> pushDataBufferUsed st \<and> is_junk js \<and> is_object ps \<and>
     length (text_of js) + length (text_of ps) < RECEIVE_BUFFER_SIZE \<and>
     (\<exists>len written. 0 < len \<and> pushDataBufferUsed st + len \<le> int RECEIVE_BUFFER_SIZE \<and>
        sock_read P (socketHandle st) (nat (int RECEIVE_BUFFER_SIZE - pushDataBufferUsed st)) 3000 (world st) = Inr ((len, written), w) \<and>
        poke (pushDataBuffer st) (nat (pushDataBufferUsed st)) written = Inr buf \<and>
        take (nat (pushDataBufferUsed st + len)) buf = text_of js @ text_of ps @ rest)"

lemma process_completes:
  assumes "read_completes P st js ps rest buf w" and u: "u = int (length (text_of js)) + int (length rest) - 1"
  shows "\<exists>saved buf' time. set saved \<subseteq> {Saved} \<and> length buf' = RECEIVE_BUFFER_SIZE \<and> length time = Suc PUSH_TIME_MAX_LEN \<and>
    parseProcessNextPushNotification P st = Inr (if u > 0 then 1 else 0,
      st\<lparr>world := w, pushDataBuffer := buf', lastPushTime := time, pushDataBufferUsed := u,
         effects := effects st @ saved @ delivered (callback st) (text_of ps)\<rparr>) \<and>
    (0 < u \<longrightarrow> take (nat u) buf' =
       take (nat u) (drop (Suc (length (text_of ps))) (buf[length (text_of js) + length (text_of ps) := NUL])))"
proof -
  let ?s = "length (text_of js)" and ?n = "length (text_of ps)"
  from assms(1) obtain len written where st: "0 < socketHandle st" "length (pushDataBuffer st) = RECEIVE_BUFFER_SIZE"
    "length (lastPushTime st) = Suc PUSH_TIME_MAX_LEN" "0 \<le> pushDataBufferUsed st" "is_junk js" "is_object ps"
    "?s + ?n < RECEIVE_BUFFER_SIZE" "0 < len" "pushDataBufferUsed st + len \<le> int RECEIVE_BUFFER_SIZE"
    and r: "sock_read P (socketHandle st) (nat (int RECEIVE_BUFFER_SIZE - pushDataBufferUsed st)) 3000 (world st) = Inr ((len, written), w)"
    "poke (pushDataBuffer st) (nat (pushDataBufferUsed st)) written = Inr buf"
    and data: "take (nat (pushDataBufferUsed st + len)) buf = text_of js @ text_of ps @ rest"
    unfolding read_completes_def by blast
  have lb: "length buf = RECEIVE_BUFFER_SIZE" using poke_length [OF r(2)] st(2) by simp
  have used: "pushDataBufferUsed st + len = int (?s + ?n + length rest)"
    using arg_cong [OF data, of length] lb st(4,8,9) by auto
  have "buf = (text_of js @ text_of ps) @ rest @ drop (nat (pushDataBufferUsed st + len)) buf"
    using append_take_drop_id [of "nat (pushDataBufferUsed st + len)" buf] unfolding data by simp
  then have seg: "seg buf 0 (text_of js @ text_of ps)" unfolding seg_def by (metis append_Nil list.size(3))
  have g: "getPushJson buf (nat (pushDataBufferUsed st + len)) = Inr (Some ?s, int ?s, int ?n)"
    using getPushJson_object [OF st(5,6) seg] used by simp
  have "0 < ?n" using is_object_text [OF st(6)] by (metis length_greater_0_conv list.discI)
  with getPushJson_span [OF g] have span: "no_nul buf ?s (?s + ?n)" "buf ! (?s + ?n - 1) = CHR ''}''" by auto
  let ?st1 = "st\<lparr>world := w, pushDataBuffer := buf, pushDataBufferUsed := pushDataBufferUsed st + len\<rparr>"
  have "parseProcessNextPushNotification P st = push_message ?s ?n ?st1"
    using st r g \<open>0 < ?n\<close> by (simp add: parseProcessNextPushNotification_def push_read.simps [of P st])
  moreover have msg: "text_of ps = take ?n (drop ?s (pushDataBuffer ?st1))"
    using seg by (auto simp: seg_def)
  moreover have "u = pushDataBufferUsed ?st1 - (int ?n + 1)" using u used by simp
  ultimately show ?thesis
    using push_message_ok [of ?st1 "text_of ps" ?n ?s u] no_nul_message [OF span(1) \<open>0 < ?n\<close> span(2)] st used lb \<open>0 < ?n\<close>
    by simp
qed

text \<open>
  C4. A message is delivered: when a read completes an object at the start of the buffer, followed by
  the newline that separates messages and by any further data, the call passes exactly the object to
  the callback (nothing for the heartbeat, which starts with two braces, and nothing without a
  callback), keeps the further data at the start of the buffer for the next call, and returns 1
  exactly when there is any.
\<close>

theorem push_delivers:
  assumes "read_completes P st [] ps (CHR 0x0A # rest) buf w"
  shows "\<exists>st'. parseProcessNextPushNotification P st = Inr (if rest = [] then 0 else 1, st') \<and>
    messages (effects st') = messages (effects st) @ (if prefix ''{}'' (text_of ps) \<or> \<not> callback st then [] else [text_of ps]) \<and>
    pushDataBufferUsed st' = int (length rest) \<and> take (length rest) (pushDataBuffer st') = rest"
proof -
  let ?n = "length (text_of ps)"
  have u: "int (length rest) = int (length (text_of [])) + int (length (CHR 0x0A # rest)) - 1" by simp
  from process_completes [OF assms u] obtain saved buf' time where p: "set saved \<subseteq> {Saved}"
    "parseProcessNextPushNotification P st = Inr (if int (length rest) > 0 then 1 else 0,
      st\<lparr>world := w, pushDataBuffer := buf', lastPushTime := time, pushDataBufferUsed := int (length rest),
         effects := effects st @ saved @ delivered (callback st) (text_of ps)\<rparr>)"
    "0 < int (length rest) \<longrightarrow> take (nat (int (length rest))) buf' =
      take (nat (int (length rest))) (drop (Suc ?n) (buf[length (text_of []) + ?n := NUL]))"
    by blast
  have "take (length rest) buf' = rest"
  proof (cases "rest = []")
    case False
    from assms obtain k where "take k buf = text_of ps @ CHR 0x0A # rest" unfolding read_completes_def by auto
    then have "buf = (text_of ps @ [CHR 0x0A]) @ rest @ drop k buf" by (metis append_assoc append_Cons append_Nil append_take_drop_id)
    then have "drop (Suc ?n) (buf[?n := NUL]) = rest @ drop k buf"
      by (metis drop_update_cancel append_eq_conv_conj length_append_singleton lessI)
    with p(3) False show ?thesis by simp
  qed simp
  with p(1,2) show ?thesis by (auto simp: messages_saved messages_delivered)
qed

text \<open>A platform for examples, whose reads deliver one chunk each, and a client that has just started.\<close>

definition demo_platform :: "string list platform" where
  "demo_platform =
     \<lparr>sock_read = (\<lambda>h n t w. case w of [] \<Rightarrow> Inr ((0, [NUL]), []) | c # w' \<Rightarrow> Inr ((int (length c), c @ [NUL]), w')),
      sock_write = (\<lambda>h s w. (0, w)), ping_due = (\<lambda>w. False), ping_sent = id\<rparr>"

definition demo_service :: "'w \<Rightarrow> 'w service" where
  "demo_service w =
     \<lparr>socketHandle = 3, nFailedPing = 0, callback = True, lastPushTime = replicate 41 NUL,
      pushDataBuffer = replicate 1024 NUL, pushDataBufferUsed = 0, world = w, effects = []\<rparr>"

lemma demo_completes:
  assumes "is_junk js" "is_object ps" and len: "length (text_of js) + length (text_of ps) + length rest < 1023"
    and read: "sock_read P 3 1024 3000 w =
      Inr ((int (length (text_of js @ text_of ps @ rest)), (text_of js @ text_of ps @ rest) @ [NUL]), w')"
  shows "read_completes P (demo_service w) js ps rest
    ((text_of js @ text_of ps @ rest) @ NUL # replicate (1023 - (length (text_of js) + length (text_of ps) + length rest)) NUL) w'"
proof -
  have ne: "0 < length (text_of ps)" using is_object_text [OF assms(2)] by (metis length_greater_0_conv list.discI)
  have "poke (replicate 1024 NUL) 0 ((text_of js @ text_of ps @ rest) @ [NUL]) =
      Inr ((text_of js @ text_of ps @ rest) @ NUL # replicate (1023 - (length (text_of js) + length (text_of ps) + length rest)) NUL)"
    using len by (simp add: poke_def)
  with assms ne show ?thesis
    unfolding read_completes_def
    by (auto simp: demo_service_def RECEIVE_BUFFER_SIZE_def PUSH_TIME_MAX_LEN_def simp del: length_append) simp_all
qed

theorem push_delivers_witness:
  "\<exists>st'. parseProcessNextPushNotification demo_platform (demo_service [text_of demo_object @ CHR 0x0A # ''x'']) = Inr (1, st') \<and>
    messages (effects st') = [text_of demo_object] \<and> pushDataBufferUsed st' = 1"
proof -
  have "length (text_of []) + length (text_of demo_object) + length (CHR 0x0A # ''x'') < 1023" by (simp add: demo_object_def)
  then have "read_completes demo_platform (demo_service [text_of demo_object @ CHR 0x0A # ''x'']) [] demo_object (CHR 0x0A # ''x'')
    ((text_of [] @ text_of demo_object @ CHR 0x0A # ''x'') @ NUL #
      replicate (1023 - (length (text_of []) + length (text_of demo_object) + length (CHR 0x0A # ''x''))) NUL) []"
    by (intro demo_completes) (simp_all add: demo_object_ok is_junk_def demo_platform_def)
  from push_delivers [OF this] show ?thesis
    by (auto simp: demo_service_def messages_def List.map_filter_def) (simp add: demo_object_def)
qed

end
