(* ===== verification/Rtos_Request.thy ===== *)
theory Rtos_Request
  imports Json_Safe
begin

text \<open>
  \<^verbatim>\<open>rtos/http.c\<close> and \<^verbatim>\<open>rtos/request.c\<close>: requests of the real-time platforms. A request is built line by
  line in a fixed buffer, written, and the answer is read into the same buffer and taken apart. The
  network is a record of functions over its state; sockets that are opened and closed and the calls
  of the application's callback are logged.
\<close>

section \<open>Definitions\<close>

text \<open>
  \<open>snprintf\<close> of a text to offset \<open>d\<close>: the size is a \<open>size_t\<close>, so a negative one counts modulo \<open>2\<^sup>3\<^sup>2\<close>.
  The result is the length of the whole text and the buffer.
\<close>

definition snprintf :: "char list \<Rightarrow> nat \<Rightarrow> int \<Rightarrow> string \<Rightarrow> mem_error + (int \<times> char list)" where
  "snprintf m d sz s =
     (let n = nat (sz mod 4294967296) in
      if n = 0 then Inr (int (length s), m)
      else bindE (poke m d (take (n - 1) s @ [NUL])) (\<lambda>m'. Inr (int (length s), m')))"

definition addHttpRequestLine :: "char list \<Rightarrow> nat \<Rightarrow> int \<Rightarrow> string \<Rightarrow> mem_error + (int \<times> char list)" where
  "addHttpRequestLine m d sz s =
     bindE (snprintf m d sz s) (\<lambda>(status, m').
       Inr (if status \<ge> sz mod 4294967296 then -1 else status, m'))"

abbreviation CRLF :: string where "CRLF \<equiv> [CHR 0x0D, CHR 0x0A]"

definition request_line :: "string \<Rightarrow> string \<Rightarrow> string" where
  "request_line host httpVerb = httpVerb @ '' '' @ host @ '' HTTP/1.1'' @ CRLF"

definition get_line :: "string \<Rightarrow> string \<Rightarrow> string option \<Rightarrow> string" where
  "get_line host httpVerb httpQuery =
     (case httpQuery of
        None \<Rightarrow> request_line host httpVerb
      | Some q \<Rightarrow>
          if q \<noteq> [] then httpVerb @ '' '' @ host @ ''?'' @ q @ '' HTTP/1.1'' @ CRLF
          else request_line host httpVerb)"

text \<open>The parts of a request: lines and headers that are checked to fit, and text that is not.\<close>

datatype part = Line string | Header string string | Raw string

fun add_part :: "part \<Rightarrow> char list \<Rightarrow> nat \<Rightarrow> int \<Rightarrow> mem_error + (int \<times> char list)" where
  "add_part (Line s) m d sz = addHttpRequestLine m d sz s"
| "add_part (Header n v) m d sz =
     (if v = [] then Inr (0, m) else addHttpRequestLine m d sz (n @ '': '' @ v @ CRLF))"
| "add_part (Raw s) m d sz = snprintf m d sz s"

record request_client =
  deviceClientVersion :: string
  osVersion :: string
  applicationId :: string
  clientKey :: string
  installationId :: string
  sessionToken :: string

definition is_get :: "string \<Rightarrow> bool" where
  "is_get httpVerb \<longleftrightarrow> strncasecmp_eq httpVerb ''GET'' 3"

definition has_body :: "string \<Rightarrow> string option \<Rightarrow> bool" where
  "has_body httpVerb body \<longleftrightarrow> \<not> is_get httpVerb \<and> body \<noteq> None \<and> body \<noteq> Some []"

definition request_parts :: "request_client \<Rightarrow> string \<Rightarrow> string \<Rightarrow> string option \<Rightarrow> bool \<Rightarrow> part list" where
  "request_parts c host httpVerb body addInstallationHeader =
     [if is_get httpVerb then Line (get_line host httpVerb body) else Line (request_line host httpVerb),
      Header ''Host'' ''api.parse.com'',
      Header ''User-Agent'' (deviceClientVersion c),
      Header ''X-Parse-OS-Version'' (osVersion c),
      Header ''X-Parse-Client-Version'' (deviceClientVersion c),
      Header ''X-Parse-Application-Id'' (applicationId c),
      Header ''X-Parse-Client-Key'' (clientKey c)] @
     (if addInstallationHeader then
        [Header ''X-Parse-Installation-Id'' (installationId c), Header ''X-Parse-Session-Token'' (sessionToken c)]
      else []) @
     (if has_body httpVerb body then
        [Header ''Content-Type'' ''application/json; charset=utf-8'',
         Line (''Content-Length: '' @ decimal (length (the body)) @ CRLF),
         Raw CRLF, Raw (the body)]
      else [Raw CRLF])"

text \<open>One step of the build: unless an earlier one failed, the position moves on and the part is added.\<close>

type_synonym build = "int \<times> int \<times> int \<times> char list"

definition build_step :: "part \<Rightarrow> build \<Rightarrow> mem_error + build" where
  "build_step p b = (case b of (status, currentPosition, currentSize, m) \<Rightarrow>
     if status \<ge> 0 then
       bindE (add_part p m (nat (currentPosition + status)) (currentSize - status)) (\<lambda>(status', m').
         Inr (status', currentPosition + status, currentSize - status, m'))
     else Inr b)"

fun build_parts :: "part list \<Rightarrow> build \<Rightarrow> mem_error + build" where
  "build_parts [] b = Inr b"
| "build_parts (p # ps) b = bindE (build_step p b) (build_parts ps)"

definition buildRequestHeaders ::
  "request_client \<Rightarrow> string \<Rightarrow> string \<Rightarrow> string option \<Rightarrow> bool \<Rightarrow> mem_error + (int \<times> char list)" where
  "buildRequestHeaders c host httpVerb body addInstallationHeader =
     bindE (build_parts (request_parts c host httpVerb body addInstallationHeader) (0, 0, 1024 - 0 - 1, replicate 1024 NUL))
       (\<lambda>(status, currentPosition, currentSize, m).
         if status \<ge> 0 then
           bindE (poke m (nat (currentPosition + status)) [NUL]) (\<lambda>m'. Inr (currentPosition + status, m'))
         else Inr (status, m))"

section \<open>Building a request\<close>

fun part_text :: "part \<Rightarrow> string" where
  "part_text (Line s) = s"
| "part_text (Header n v) = (if v = [] then [] else n @ '': '' @ v @ CRLF)"
| "part_text (Raw s) = s"

definition parts_text :: "part list \<Rightarrow> string" where
  "parts_text ps = concat (map part_text ps)"

lemma parts_text_simps [simp]:
  "parts_text [] = []" "parts_text (p # ps) = part_text p @ parts_text ps" "parts_text (ps @ qs) = parts_text ps @ parts_text qs"
  by (simp_all add: parts_text_def)

text \<open>The build so far: the buffer holds the text \<open>t\<close>, and everything after it is clear.\<close>

definition built :: "string \<Rightarrow> build \<Rightarrow> bool" where
  "built t b \<longleftrightarrow> (case b of (status, currentPosition, currentSize, m) \<Rightarrow>
     0 \<le> status \<and> currentPosition + status = int (length t) \<and> currentSize - status = 1023 - int (length t) \<and>
     length t \<le> 1022 \<and> m = t @ replicate (1024 - length t) NUL)"

lemma snprintf_fits:
  assumes "length t + length s \<le> 1022" "sz = 1023 - int (length t)"
  shows "snprintf (t @ replicate (1024 - length t) NUL) (length t) sz s =
    Inr (int (length s), (t @ s) @ replicate (1024 - length (t @ s)) NUL)"
proof -
  have "nat (sz mod 4294967296) = 1023 - length t" using assms by (simp add: nat_diff_distrib)
  moreover have "take (1022 - length t) s = s" using assms(1) by simp
  moreover have "replicate (1024 - (length t + length s)) NUL = NUL # replicate (1023 - (length t + length s)) NUL"
    using assms(1) by (simp add: replicate_Suc [symmetric] Suc_diff_le del: replicate_Suc)
  ultimately show ?thesis using assms(1) by (simp add: snprintf_def poke_def)
qed

lemma built_step:
  assumes "built t b" "length t + length (part_text p) \<le> 1022"
  shows "\<exists>b'. build_step p b = Inr b' \<and> built (t @ part_text p) b'"
proof -
  obtain status pos sz m where b: "b = (status, pos, sz, m)" by (metis prod_cases4)
  let ?sz = "sz - status"
  from assms b have *: "0 \<le> status" "nat (pos + status) = length t" "?sz = 1023 - int (length t)" "length t \<le> 1022"
    "m = t @ replicate (1024 - length t) NUL" "pos + status = int (length t)" by (auto simp: built_def)
  have sp: "snprintf m (length t) ?sz s = Inr (int (length s), (t @ s) @ replicate (1024 - length (t @ s)) NUL)"
    if "length t + length s \<le> 1022" for s unfolding *(5) by (rule snprintf_fits [OF that *(3)])
  have ln: "addHttpRequestLine m (length t) ?sz s = Inr (int (length s), (t @ s) @ replicate (1024 - length (t @ s)) NUL)"
    if "length t + length s \<le> 1022" for s using sp [OF that] that *(3) by (simp add: addHttpRequestLine_def)
  have "add_part p m (length t) ?sz = Inr (int (length (part_text p)), (t @ part_text p) @ replicate (1024 - length (t @ part_text p)) NUL)"
    using assms(2) sp ln *(5) by (cases p) (auto split: if_splits)
  with b * assms(2) show ?thesis by (simp add: build_step_def built_def)
qed

lemma built_parts:
  "built t b \<Longrightarrow> length t + length (parts_text ps) \<le> 1022 \<Longrightarrow> \<exists>b'. build_parts ps b = Inr b' \<and> built (t @ parts_text ps) b'"
proof (induction ps arbitrary: t b)
  case (Cons p ps)
  then obtain b1 where "build_step p b = Inr b1" "built (t @ part_text p) b1" using built_step [of t b p] by auto
  with Cons.IH [of "t @ part_text p" b1] Cons.prems(2) show ?case by auto
qed simp

lemma build_parts_append: "build_parts (ps @ qs) b = bindE (build_parts ps b) (build_parts qs)"
  by (induction ps arbitrary: b) (auto simp: bindE_def split: sum.split)

lemma build_failed: "status < 0 \<Longrightarrow> build_parts ps (status, pos, sz, m) = Inr (status, pos, sz, m)"
  by (induction ps) (simp_all add: build_step_def)

lemma build_start: "built [] (0, 0, 1024 - 0 - 1, replicate 1024 NUL)"
  by (simp add: built_def)

definition request_text :: "request_client \<Rightarrow> string \<Rightarrow> string \<Rightarrow> string option \<Rightarrow> bool \<Rightarrow> string" where
  "request_text c host httpVerb body add = parts_text (request_parts c host httpVerb body add)"

lemma build_fits:
  assumes "length (request_text c host httpVerb body add) \<le> 1022"
  shows "buildRequestHeaders c host httpVerb body add =
    Inr (int (length (request_text c host httpVerb body add)),
         request_text c host httpVerb body add @ replicate (1024 - length (request_text c host httpVerb body add)) NUL)"
proof -
  let ?t = "request_text c host httpVerb body add"
  from built_parts [OF build_start, of "request_parts c host httpVerb body add"] assms obtain status pos sz m
    where b: "build_parts (request_parts c host httpVerb body add) (0, 0, 1024 - 0 - 1, replicate 1024 NUL) = Inr (status, pos, sz, m)"
      "built ?t (status, pos, sz, m)" by (auto simp: request_text_def)
  then have *: "0 \<le> status" "pos + status = int (length ?t)" "m = ?t @ replicate (1024 - length ?t) NUL" by (auto simp: built_def)
  have "replicate (1024 - length ?t) NUL = NUL # replicate (1023 - length ?t) NUL"
    using assms by (simp add: replicate_Suc [symmetric] Suc_diff_le del: replicate_Suc)
  then have "poke m (length ?t) [NUL] = Inr m" using assms by (simp add: poke_def *(3))
  with b(1) * show ?thesis by (simp add: buildRequestHeaders_def)
qed

text \<open>
  A request that fits is built exactly: when the request line, the headers with a value, the empty
  line and the body together have at most 1022 bytes, the buffer holds them in this order, the rest of
  the buffer is clear, and the number of bytes is returned.
\<close>

theorem request_built:
  assumes "length (request_text c host httpVerb body add) \<le> 1022"
  shows "buildRequestHeaders c host httpVerb body add =
    Inr (int (length (request_text c host httpVerb body add)),
         request_text c host httpVerb body add @ replicate (1024 - length (request_text c host httpVerb body add)) NUL)"
  using assms by (rule build_fits)

definition demo_client :: request_client where
  "demo_client = \<lparr>deviceClientVersion = [], osVersion = [], applicationId = ''app'', clientKey = [], installationId = [], sessionToken = []\<rparr>"

lemma demo_request_text:
  "request_text demo_client ''/1/x'' ''GET'' None False =
     ''GET /1/x HTTP/1.1'' @ CRLF @ ''Host: api.parse.com'' @ CRLF @ ''X-Parse-Application-Id: app'' @ CRLF @ CRLF"
  by (simp add: request_text_def request_parts_def is_get_def strncasecmp_eq_def get_line_def request_line_def
      has_body_def demo_client_def)

theorem request_built_witness:
  "\<exists>m. buildRequestHeaders demo_client ''/1/x'' ''GET'' None False = Inr (71, m)"
  using request_built [of demo_client "''/1/x''" "''GET''" None False] by (simp add: demo_request_text)

lemma cut_fits:
  assumes "length m = 1024" "length t \<le> 1022"
  shows "\<exists>m'. poke m (length t) (take (1023 - length t - 1) s @ [NUL]) = Inr m' \<and> length m' = 1024"
proof -
  have "length t + length (take (1023 - length t - 1) s @ [NUL]) \<le> length m" using assms by (auto simp: min_def)
  from poke_total [OF this] assms(1) show ?thesis using poke_length by fastforce
qed

text \<open>A line that does not fit is reported, and nothing after it is written.\<close>

lemma request_rejected:
  assumes parts: "request_parts c host httpVerb body add = qs @ p # rs" and p: "\<And>s. p \<noteq> Raw s" "part_text p \<noteq> []"
    and fit: "length (parts_text qs) \<le> 1022" and long: "1023 \<le> length (parts_text qs) + length (part_text p)"
  shows "\<exists>m. buildRequestHeaders c host httpVerb body add = Inr (-1, m)"
proof -
  let ?t = "parts_text qs"
  from built_parts [OF build_start, of qs] fit obtain b where b: "build_parts qs (0, 0, 1024 - 0 - 1, replicate 1024 NUL) = Inr b" "built ?t b"
    by auto
  obtain status pos sz m where bb: "b = (status, pos, sz, m)" by (metis prod_cases4)
  from b(2) bb have *: "0 \<le> status" "nat (pos + status) = length ?t" "sz - status = 1023 - int (length ?t)" "length m = 1024"
    by (auto simp: built_def)
  have n: "nat ((sz - status) mod 4294967296) = 1023 - length ?t" "(sz - status) mod 4294967296 = 1023 - int (length ?t)"
    using fit unfolding *(3) by (simp_all add: nat_diff_distrib)
  obtain m' where "poke m (length ?t) (take (1023 - length ?t - 1) (part_text p) @ [NUL]) = Inr m'"
    using cut_fits [OF *(4) fit] by blast
  then have "snprintf m (length ?t) (sz - status) (part_text p) = Inr (int (length (part_text p)), m')"
    using fit by (simp add: snprintf_def n(1) Let_def)
  then have "addHttpRequestLine m (length ?t) (sz - status) (part_text p) = Inr (-1, m')"
    using long fit by (simp add: addHttpRequestLine_def n(2))
  then have "add_part p m (length ?t) (sz - status) = Inr (-1, m')" using p by (cases p) auto
  then have "build_step p b = Inr (-1, pos + status, sz - status, m')" using * bb by (simp add: build_step_def)
  with b(1) show ?thesis by (simp add: buildRequestHeaders_def parts build_parts_append build_failed)
qed

text \<open>
  A body that does not fit overruns the buffer: the length that \<open>snprintf\<close> would have written is
  added to the position without a check, and the terminator is written there. Every request whose
  headers fit and whose headers and body together have 1024 bytes or more does this.
\<close>

theorem request_overflow:
  assumes body: "has_body httpVerb (Some b)"
    and fit: "length (request_text c host httpVerb (Some b) add) - length b \<le> 1022"
    and long: "1024 \<le> length (request_text c host httpVerb (Some b) add)"
  shows "buildRequestHeaders c host httpVerb (Some b) add = Inl OutOfBounds"
proof -
  obtain qs where parts: "request_parts c host httpVerb (Some b) add = qs @ [Raw b]"
    using body by (simp add: request_parts_def)
  then have tx: "request_text c host httpVerb (Some b) add = parts_text qs @ b" by (simp add: request_text_def)
  let ?t = "parts_text qs"
  have fit': "length ?t \<le> 1022" using fit tx by simp
  from built_parts [OF build_start, of qs] fit' obtain s where b: "build_parts qs (0, 0, 1024 - 0 - 1, replicate 1024 NUL) = Inr s" "built ?t s"
    by auto
  obtain status pos sz m where ss: "s = (status, pos, sz, m)" by (metis prod_cases4)
  from b(2) ss have *: "0 \<le> status" "pos + status = int (length ?t)" "sz - status = 1023 - int (length ?t)" "length m = 1024"
    by (auto simp: built_def)
  have n: "nat ((sz - status) mod 4294967296) = 1023 - length ?t"
    using fit' unfolding *(3) by (simp_all add: nat_diff_distrib)
  obtain m' where m': "poke m (length ?t) (take (1023 - length ?t - 1) b @ [NUL]) = Inr m'" "length m' = 1024"
    using cut_fits [OF *(4) fit'] by blast
  then have "build_step (Raw b) s = Inr (int (length b), pos + status, sz - status, m')"
    using * ss n fit' by (simp add: build_step_def snprintf_def Let_def)
  moreover have "poke m' (nat (int (length ?t) + int (length b))) [NUL] = Inl OutOfBounds"
    using long tx m'(2) by (simp add: poke_def nat_int_add)
  ultimately show ?thesis using b(1) *(2) by (simp add: buildRequestHeaders_def parts build_parts_append)
qed

theorem request_overflow_witness:
  "buildRequestHeaders demo_client ''/1/x'' ''POST'' (Some (replicate 900 (CHR ''x''))) False = Inl OutOfBounds"
proof -
  have d: "length (decimal 900) = 3" by (simp add: decimal.simps)
  have "length (request_text demo_client ''/1/x'' ''POST'' (Some (replicate 900 (CHR ''x''))) False) = 1040"
    by (simp add: request_text_def request_parts_def is_get_def strncasecmp_eq_def request_line_def
        has_body_def demo_client_def d tolower_def isupper_def)
  moreover have "has_body ''POST'' (Some (replicate 900 (CHR ''x'')))"
    by (simp add: has_body_def is_get_def strncasecmp_eq_def tolower_def isupper_def)
  ultimately show ?thesis by (intro request_overflow) simp_all
qed

section \<open>Sending a request\<close>

record 'w request_net =
  ssl_connect :: "string \<Rightarrow> nat \<Rightarrow> 'w \<Rightarrow> int \<times> 'w"
  net_write :: "int \<Rightarrow> string \<Rightarrow> 'w \<Rightarrow> int \<times> 'w"
  net_read :: "int \<Rightarrow> nat \<Rightarrow> nat \<Rightarrow> 'w \<Rightarrow> mem_error + ((int \<times> char list) \<times> 'w)"

datatype request_effect = OpenedSocket int | ClosedSocket int | Answered int int "string option"

record 'w request_state =
  dataBuffer :: "char list"
  network :: 'w
  events :: "request_effect list"

definition log_event :: "request_effect \<Rightarrow> ('w, 's) request_state_scheme \<Rightarrow> ('w, 's) request_state_scheme" where
  "log_event e st = st\<lparr>events := events st @ [e]\<rparr>"

text \<open>The second half of \<open>sendRequest\<close>: the request of \<open>n\<close> bytes is written and the answer is read.\<close>

definition exchange ::
  "('w, 'n) request_net_scheme \<Rightarrow> int \<Rightarrow> int \<Rightarrow> ('w, 's) request_state_scheme \<Rightarrow> mem_error + (int \<times> ('w, 's) request_state_scheme)" where
  "exchange N socketHandle n st =
     bindE (peek (dataBuffer st) 0 (nat n)) (\<lambda>bytes.
       case net_write N socketHandle bytes (network st) of (status, w) \<Rightarrow>
         if status \<ge> 0 then
           bindE (net_read N socketHandle 1024 5000 w) (\<lambda>((status, written), w).
           bindE (poke (replicate 1024 NUL) 0 written) (\<lambda>m.
             Inr (status, log_event (ClosedSocket socketHandle) (st\<lparr>dataBuffer := m, network := w\<rparr>))))
         else Inr (status, st\<lparr>network := w\<rparr>))"

definition sendRequest ::
  "('w, 'n) request_net_scheme \<Rightarrow> request_client \<Rightarrow> string \<Rightarrow> string \<Rightarrow> string option \<Rightarrow> bool \<Rightarrow>
     ('w, 's) request_state_scheme \<Rightarrow> mem_error + (int \<times> ('w, 's) request_state_scheme)" where
  "sendRequest N c host httpVerb body add st =
     (case ssl_connect N ''api.parse.com'' 443 (network st) of (status, w) \<Rightarrow>
        if status \<ge> 0 then
          bindE (buildRequestHeaders c host httpVerb body add) (\<lambda>(n, m).
            let st = log_event (OpenedSocket status) (st\<lparr>dataBuffer := m, network := w\<rparr>) in
            if n \<ge> 0 then exchange N status n st else Inr (n, st))
        else Inr (status, st\<lparr>network := w\<rparr>))"

text \<open>The status stands in the three characters after \<^verbatim>\<open>HTTP/1.1\<close>.\<close>

definition getHttpResponseStatus :: "char list \<Rightarrow> mem_error + int" where
  "getHttpResponseStatus m = bindE (peek m 9 3) (\<lambda>s. Inr (atoi (takeWhile (\<lambda>c. c \<noteq> NUL) s)))"

text \<open>\<open>strstr\<close> returns the rest of the text from the first occurrence on.\<close>

fun strstr :: "string \<Rightarrow> string \<Rightarrow> string option" where
  "strstr [] p = (if p = [] then Some [] else None)"
| "strstr (c # s) p = (if prefix p (c # s) then Some (c # s) else strstr s p)"

text \<open>The body is a pointer into the buffer, so its result is an offset.\<close>

definition getHttpResponseBody :: "char list \<Rightarrow> mem_error + nat option" where
  "getHttpResponseBody m =
     bindE (strlen_from m 0) (\<lambda>n.
       Inr (case strstr (take n m) (CRLF @ CRLF) of
              None \<Rightarrow> None
            | Some s \<Rightarrow> Some (if length s \<ge> 4 then n - length s + 4 else n - length s)))"

text \<open>
  A callback gets the error, the status and the pointer to the body, and runs on the state. The one of
  an application is only logged, with the text that it gets.
\<close>

type_synonym 's request_callback = "int \<Rightarrow> int \<Rightarrow> nat option \<Rightarrow> 's \<Rightarrow> mem_error + 's"

definition application_callback :: "('w, 's) request_state_scheme request_callback" where
  "application_callback error httpStatus httpResponseBody st =
     Inr (log_event (Answered error httpStatus
       (map_option (\<lambda>d. takeWhile (\<lambda>c. c \<noteq> NUL) (drop d (dataBuffer st))) httpResponseBody)) st)"

definition parseSendRequestInternal ::
  "('w, 'n) request_net_scheme \<Rightarrow> request_client \<Rightarrow> string \<Rightarrow> string \<Rightarrow> string option \<Rightarrow>
     ('w, 's) request_state_scheme request_callback option \<Rightarrow> bool \<Rightarrow>
     ('w, 's) request_state_scheme \<Rightarrow> mem_error + ('w, 's) request_state_scheme" where
  "parseSendRequestInternal N c httpVerb httpPath body callback add st =
     bindE (sendRequest N c httpPath httpVerb body add st) (\<lambda>(status, st).
       case callback of
         None \<Rightarrow> Inr st
       | Some f \<Rightarrow>
           if status \<ge> 0 then
             bindE (getHttpResponseStatus (dataBuffer st)) (\<lambda>httpStatus.
             bindE (getHttpResponseBody (dataBuffer st)) (\<lambda>httpBody. f 0 httpStatus httpBody st))
           else f status (-1) None st)"

definition parseGetErrorCode :: "char list option \<Rightarrow> mem_error + int" where
  "parseGetErrorCode httpResponseBody =
     bindE (simpleJsonProcessor httpResponseBody (Some ''code'') True 10) (\<lambda>(found, code).
       Inr (if found then atoi (takeWhile (\<lambda>c. c \<noteq> NUL) code) else 2))"

section \<open>Answers\<close>

lemma strstr_first:
  "(\<And>k. k < length h \<Longrightarrow> \<not> prefix p (drop k (h @ p @ b))) \<Longrightarrow> p \<noteq> [] \<Longrightarrow> strstr (h @ p @ b) p = Some (p @ b)"
proof (induction h)
  case Nil
  then show ?case by (cases p) simp_all
next
  case (Cons c h)
  have "\<not> prefix p (c # h @ p @ b)" using Cons.prems(1) [of 0] by simp
  moreover have "strstr (h @ p @ b) p = Some (p @ b)"
    using Cons.prems(1) [of "Suc _"] Cons.prems(2) by (intro Cons.IH) auto
  ultimately show ?case by simp
qed

definition status_digits :: "char \<Rightarrow> char \<Rightarrow> char \<Rightarrow> int" where
  "status_digits a b c = 100 * (of_char a - 48) + 10 * (of_char b - 48) + (of_char c - 48)"

lemma digit_plain: "isdigit c \<Longrightarrow> c \<notin> {NUL, CHR '' '', CHR ''-'', CHR ''+'', CHR 0x09, CHR 0x0A, CHR 0x0B, CHR 0x0C, CHR 0x0D}"
  by (auto simp: isdigit_def)

lemma atoi_digits: "isdigit a \<Longrightarrow> isdigit b \<Longrightarrow> isdigit c \<Longrightarrow> atoi [a, b, c] = status_digits a b c"
  using digit_plain [of a] by (simp add: atoi_def digits_value_def status_digits_def Let_def)

text \<open>The answers that the code expects.\<close>

definition http_response :: "char \<Rightarrow> char \<Rightarrow> char \<Rightarrow> string \<Rightarrow> string \<Rightarrow> string" where
  "http_response a b c headers body = ''HTTP/1.1 '' @ [a, b, c] @ headers @ CRLF @ CRLF @ body"

lemma response_status:
  assumes "isdigit a" "isdigit b" "isdigit c"
  shows "getHttpResponseStatus (http_response a b c headers body @ rest) = Inr (status_digits a b c)"
proof -
  have "peek (http_response a b c headers body @ rest) 9 3 = Inr [a, b, c]" by (simp add: peek_def http_response_def)
  with assms show ?thesis using digit_plain [of a] digit_plain [of b] digit_plain [of c]
    by (simp add: getHttpResponseStatus_def atoi_digits)
qed

lemma response_body:
  assumes "NUL \<notin> set (http_response a b c headers body)"
    and first: "\<And>k. k < 12 + length headers \<Longrightarrow> \<not> prefix (CRLF @ CRLF) (drop k (http_response a b c headers body))"
  shows "getHttpResponseBody (http_response a b c headers body @ NUL # rest) = Inr (Some (16 + length headers))"
proof -
  let ?h = "''HTTP/1.1 '' @ [a, b, c] @ headers"
  have r: "http_response a b c headers body = ?h @ (CRLF @ CRLF) @ body" by (simp add: http_response_def)
  have "strstr (?h @ (CRLF @ CRLF) @ body) (CRLF @ CRLF) = Some ((CRLF @ CRLF) @ body)"
    using first unfolding r by (intro strstr_first) simp_all
  moreover have "strlen_from (http_response a b c headers body @ NUL # rest) 0 = Inr (length (http_response a b c headers body))"
    using assms(1) strlen_holds [of "http_response a b c headers body @ NUL # rest" 0 "http_response a b c headers body"] by (auto simp: holds_def)
  ultimately show ?thesis by (simp add: getHttpResponseBody_def r [symmetric] del: append_assoc) (simp add: r)
qed

lemma response_body_text: "drop (16 + length headers) (http_response a b c headers body @ rest) = body @ rest"
proof -
  have r: "http_response a b c headers body @ rest = (''HTTP/1.1 '' @ [a, b, c] @ headers @ CRLF @ CRLF) @ body @ rest"
    and len: "16 + length headers = length (''HTTP/1.1 '' @ [a, b, c] @ headers @ CRLF @ CRLF)"
    by (simp_all add: http_response_def)
  show ?thesis unfolding r len append_eq_conv_conj [symmetric] by simp
qed

section \<open>Correctness\<close>

lemma sendRequest_answered:
  assumes "ssl_connect N ''api.parse.com'' 443 (network st) = (h, w1)" "0 \<le> h"
    and "length (request_text c path verb body add) \<le> 1022"
    and "net_write N h (request_text c path verb body add) w1 = (k, w2)" "0 \<le> k"
    and "net_read N h 1024 5000 w2 = Inr ((len, r @ [NUL]), w3)" "length r \<le> 1023"
  shows "sendRequest N c path verb body add st = Inr (len,
    st\<lparr>dataBuffer := r @ NUL # replicate (1023 - length r) NUL, network := w3,
       events := events st @ [OpenedSocket h, ClosedSocket h]\<rparr>)"
proof -
  let ?t = "request_text c path verb body add"
  have "peek (?t @ replicate (1024 - length ?t) NUL) 0 (length ?t) = Inr ?t" using assms(3) by (simp add: peek_def)
  moreover have "poke (replicate 1024 NUL) 0 (r @ [NUL]) = Inr (r @ NUL # replicate (1023 - length r) NUL)"
    using assms(7) by (simp add: poke_def)
  ultimately show ?thesis
    using assms(1,2,4-6) build_fits [OF assms(3)] by (simp add: sendRequest_def exchange_def log_event_def Let_def)
qed

text \<open>
  C34. A request is sent and answered: on a network that connects, takes the request and answers with
  status line, headers, empty line and body, the request that was built is written to the socket, the
  socket is closed, and the application's callback gets no error, the three digits of the status as a
  number and exactly the body.
\<close>

theorem request_answered:
  assumes "ssl_connect N ''api.parse.com'' 443 (network st) = (h, w1)" "0 \<le> h"
    and "length (request_text c path verb body add) \<le> 1022"
    and "net_write N h (request_text c path verb body add) w1 = (k, w2)" "0 \<le> k"
    and "net_read N h 1024 5000 w2 = Inr ((len, http_response d1 d2 d3 headers answer @ [NUL]), w3)" "0 \<le> len"
    and "length (http_response d1 d2 d3 headers answer) \<le> 1023" "isdigit d1" "isdigit d2" "isdigit d3"
    and "NUL \<notin> set (http_response d1 d2 d3 headers answer)"
    and "\<And>k. k < 12 + length headers \<Longrightarrow> \<not> prefix (CRLF @ CRLF) (drop k (http_response d1 d2 d3 headers answer))"
  shows "\<exists>st'. parseSendRequestInternal N c verb path body (Some application_callback) add st = Inr st' \<and>
    events st' = events st @ [OpenedSocket h, ClosedSocket h, Answered 0 (status_digits d1 d2 d3) (Some answer)]"
proof -
  let ?r = "http_response d1 d2 d3 headers answer"
  let ?m = "?r @ NUL # replicate (1023 - length ?r) NUL"
  have "takeWhile (\<lambda>c. c \<noteq> NUL) (drop (16 + length headers) ?m) = answer"
    using assms(12) response_body_text [of headers d1 d2 d3 answer "NUL # replicate (1023 - length ?r) NUL"]
    by (auto simp: takeWhile_tail http_response_def)
  then show ?thesis
    using sendRequest_answered [OF assms(1-6,8)] assms(7)
      response_status [OF assms(9-11), of headers answer "NUL # replicate (1023 - length ?r) NUL"]
      response_body [OF assms(12,13), of "replicate (1023 - length ?r) NUL"]
    by (simp add: parseSendRequestInternal_def application_callback_def log_event_def)
qed

text \<open>A network for examples, which answers every request with the same response.\<close>

definition answering_net :: "string \<Rightarrow> unit request_net" where
  "answering_net r = \<lparr>ssl_connect = (\<lambda>s p w. (3, w)), net_write = (\<lambda>h s w. (int (length s), w)),
     net_read = (\<lambda>h n t w. Inr ((int (length r), r @ [NUL]), w))\<rparr>"

definition demo_state :: "unit request_state" where
  "demo_state = \<lparr>dataBuffer = replicate 1024 NUL, network = (), events = []\<rparr>"

theorem request_answered_witness:
  "\<exists>st'. parseSendRequestInternal (answering_net (http_response (CHR ''2'') (CHR ''0'') (CHR ''1'') '' OK'' ''{}'')) demo_client ''GET'' ''/1/x'' None (Some application_callback) False demo_state = Inr st' \<and>
    events st' = [OpenedSocket 3, ClosedSocket 3, Answered 0 201 (Some ''{}'')]"
proof -
  let ?r = "http_response (CHR ''2'') (CHR ''0'') (CHR ''1'') '' OK'' ''{}''"
  have drops: "\<not> prefix (CRLF @ CRLF) (drop k ?r)" if "k < 15" for k
  proof -
    from that have "k = 0 \<or> k = 1 \<or> k = 2 \<or> k = 3 \<or> k = 4 \<or> k = 5 \<or> k = 6 \<or> k = 7 \<or> k = 8 \<or> k = 9 \<or>
      k = 10 \<or> k = 11 \<or> k = 12 \<or> k = 13 \<or> k = 14" by arith
    then show ?thesis unfolding http_response_def by auto
  qed
  have "\<exists>st'. parseSendRequestInternal (answering_net ?r) demo_client ''GET'' ''/1/x'' None (Some application_callback) False demo_state = Inr st' \<and>
    events st' = events demo_state @ [OpenedSocket 3, ClosedSocket 3, Answered 0 (status_digits (CHR ''2'') (CHR ''0'') (CHR ''1'')) (Some ''{}'')]"
    by (rule request_answered [where ?w1.0 = "()" and ?w2.0 = "()" and ?w3.0 = "()" and k = 71 and len = "int (length ?r)" and headers = "'' OK''"])
      (use drops in \<open>simp_all add: answering_net_def demo_request_text isdigit_def\<close>, simp_all add: http_response_def)
  then show ?thesis by (simp add: demo_state_def status_digits_def)
qed






end
