(* ===== verification/Json_Padded.thy ===== *)
theory Json_Padded
  imports Json_Safe
begin

text \<open>
  \<open>simpleJsonProcessor\<close> on a buffer that ends with two null characters, as a buffer that was cleared before
  a shorter answer was received: every key can be looked up safely, whatever the bytes before are. A step over
  the first terminator, which the function may take, ends at the second one.
\<close>

definition padded :: "char list \<Rightarrow> bool" where
  "padded m \<longleftrightarrow> (\<exists>m0. m = m0 @ [NUL, NUL])"

lemma padded_nth:
  assumes "padded m"
  shows "2 \<le> length m" "m ! (length m - 2) = NUL" "m ! (length m - 1) = NUL"
  using assms by (auto simp: padded_def nth_append)

lemma padded_drop:
  assumes "padded m" "Suc d < length m"
  shows "padded (drop d m)"
proof -
  from assms(1) obtain m0 where m: "m = m0 @ [NUL, NUL]" by (auto simp: padded_def)
  with assms(2) have "drop d m = drop d m0 @ [NUL, NUL]" by simp
  then show ?thesis by (auto simp: padded_def)
qed

lemma padded_rd: "d < length m \<Longrightarrow> rd m d = Inr (m ! d)"
  by (simp add: rd_def)

lemma padded_less: "padded m \<Longrightarrow> Suc d < length m \<Longrightarrow> m ! d \<noteq> NUL \<Longrightarrow> Suc (Suc d) < length m"
  using padded_nth(2) [of m] by (cases "length m - 2 = d") auto

lemma strncmp_eq_padded:
  "padded m \<Longrightarrow> Suc d < length m \<Longrightarrow> NUL \<notin> set key \<Longrightarrow>
    \<exists>b. strncmp_eq m d key = Inr b \<and> (b \<longrightarrow> Suc (d + length key) < length m)"
proof (induction key arbitrary: d)
  case Nil
  then show ?case by (intro exI [of _ True]) simp
next
  case (Cons k ks)
  show ?case
  proof (cases "m ! d = k")
    case True
    with Cons.prems padded_less [of m d] have "Suc (Suc d) < length m" by auto
    with Cons.IH [of "Suc d"] Cons.prems True show ?thesis by (auto simp: padded_rd)
  qed (use Cons.prems in \<open>auto simp: padded_rd\<close>)
qed

lemma skip_blanks_padded:
  "padded m \<Longrightarrow> Suc d < length m \<Longrightarrow> \<exists>e. skip_blanks m d = Inr e \<and> Suc e < length m \<and> d \<le> e"
proof (induction "length m - d" arbitrary: d rule: less_induct)
  case less
  show ?case
  proof (cases "m ! d = CHR '' '' \<or> m ! d = CHR 0x09")
    case True
    with less.prems padded_less [of m d] have s: "Suc (Suc d) < length m" by auto
    have "length m - Suc d < length m - d" using s by linarith
    from less.hyps [OF this less.prems(1) s] obtain e where "skip_blanks m (Suc d) = Inr e" "Suc e < length m" "Suc d \<le> e" by blast
    with True less.prems show ?thesis by (auto simp: skip_blanks.simps [of m d] padded_rd)
  qed (use less.prems in \<open>auto simp: skip_blanks.simps [of m d] padded_rd\<close>)
qed

definition found_in :: "char list \<Rightarrow> mem_error + (nat \<times> bool \<times> bool) option \<Rightarrow> bool" where
  "found_in m res \<longleftrightarrow> (\<exists>r. res = Inr r \<and> (\<forall>d j e. r = Some (d, j, e) \<longrightarrow> Suc d < length m))"

lemma found_in_simps [simp]:
  "found_in m (Inr None)" "found_in m (Inr (Some (d, j, e))) \<longleftrightarrow> Suc d < length m"
  by (auto simp: found_in_def)

definition scans :: "char list \<Rightarrow> string \<Rightarrow> nat \<Rightarrow> bool" where
  "scans m key d \<longleftrightarrow> (\<forall>d' i l. d < d' \<longrightarrow> d' < length m \<longrightarrow> found_in m (find_key m key d' i l))"

lemma scansD: "scans m key d \<Longrightarrow> d < d' \<Longrightarrow> d' < length m \<Longrightarrow> found_in m (find_key m key d' i l)"
  by (simp add: scans_def)

lemma find_key_match_padded:
  assumes m: "padded m" and IH: "scans m key d" and d: "Suc (d + length key) < length m" "m ! d \<noteq> NUL"
    and eq: "strncmp_eq m d key = Inr True" and lvl: "\<not> lvl > 1"
  shows "found_in m (find_key m key d inS lvl)"
proof -
  let ?e = "d + length key"
  have c: "rd m d = Inr (m ! d)" "rd m ?e = Inr (m ! ?e)" using d(1) by (simp_all add: padded_rd)
  show ?thesis
  proof (cases "m ! ?e = CHR 0x22")
    case False
    then show ?thesis using c d eq lvl scansD [OF IH, of "Suc ?e"] by (simp add: find_key.simps [of m key d])
  next
    case quote: True
    with m d(1) have "Suc (Suc ?e) < length m" by (intro padded_less) auto
    then obtain d2 where d2: "skip_blanks m (Suc ?e) = Inr d2" "Suc d2 < length m" "Suc ?e \<le> d2"
      using skip_blanks_padded [OF m] by blast
    show ?thesis
    proof (cases "m ! d2 = CHR '':''")
      case False
      then show ?thesis using c d eq lvl quote d2 scansD [OF IH, of "Suc d2"]
        by (simp add: find_key.simps [of m key d] padded_rd)
    next
      case True
      with m d2(2) have "Suc (Suc d2) < length m" by (intro padded_less) auto
      then obtain d3 where "skip_blanks m (Suc d2) = Inr d3" "Suc d3 < length m"
        using skip_blanks_padded [OF m] by blast
      then show ?thesis using c d eq lvl quote d2 True
        by (simp add: find_key.simps [of m key d] padded_rd)
    qed
  qed
qed

lemma find_key_padded:
  assumes m: "padded m" and key: "NUL \<notin> set key"
  shows "d < length m \<Longrightarrow> found_in m (find_key m key d inS lvl)"
proof (induction "length m - d" arbitrary: d inS lvl rule: less_induct)
  case less
  then have IH: "scans m key d" by (auto simp: scans_def)
  show ?case
  proof (cases "m ! d = NUL")
    case True
    with less.prems show ?thesis by (simp add: find_key.simps [of m key d] padded_rd)
  next
    case False
    with padded_nth [OF m] less.prems have d: "Suc d < length m" by (cases "d = length m - 1") auto
    from padded_less [OF m d False] have s: "Suc (Suc d) < length m" .
    obtain b where b: "strncmp_eq m d key = Inr b" "b \<longrightarrow> Suc (d + length key) < length m"
      using strncmp_eq_padded [OF m d key] by blast
    show ?thesis
    proof (cases "b \<and> \<not> lvl > 1")
      case True
      with b d find_key_match_padded [OF m IH _ False] show ?thesis by simp
    next
      case other: False
      have 1: "found_in m (find_key m key (Suc d) i l)" "found_in m (find_key m key (Suc (Suc d)) i l)" for i l
        using scansD [OF IH] s by simp_all
      have "found_in m (bindE (rd m (Suc d)) (\<lambda>e. if e \<noteq> NUL then find_key m key (Suc (Suc d)) i l
          else find_key m key (Suc d) i l))" for i l using 1 s by (simp add: padded_rd)
      with 1 other False less.prems b(1) show ?thesis by (auto simp: find_key.simps [of m key d] padded_rd)
    qed
  qed
qed

lemma copy_value_padded:
  "m ! k = NUL \<Longrightarrow> k < length m \<Longrightarrow> d \<le> k \<Longrightarrow> \<exists>r. copy_value m json ewq sz d inS lvl bs out = Inr r"
proof (induction "k - d" arbitrary: d sz inS lvl bs out rule: less_induct)
  case less
  then have c: "rd m d = Inr (m ! d)" by (simp add: padded_rd)
  show ?case
  proof (cases "1 < sz \<and> m ! d \<noteq> NUL")
    case False
    with return_value_total [OF c] c show ?thesis by (auto simp: copy_value.simps [of m json ewq sz])
  next
    case True
    with less.prems have "d < k" by (cases "d = k") auto
    obtain r where r: "copy_value m json ewq sz d inS lvl bs out = r" by blast
    from copy_step [OF _ c r] True show ?thesis
      using less.hyps [of "Suc d"] \<open>d < k\<close> less.prems return_value_total [OF c] r by (auto simp: copy_next_def copy_stop_def)
  qed
qed

lemma processor_padded:
  assumes m: "padded m" and key: "NUL \<notin> set key"
  shows "\<exists>b out. simpleJsonProcessor (Some m) (Some key) value sz = Inr (b, out)"
proof -
  obtain r where r: "find_key m key 0 False 0 = Inr r" and
    found: "\<And>d j e. r = Some (d, j, e) \<Longrightarrow> Suc d < length m"
    using find_key_padded [OF assms, of 0 False 0] padded_nth(1) [OF m] by (fastforce simp: found_in_def)
  show ?thesis
  proof (cases r)
    case (Some p)
    obtain d json ewq where p: "p = (d, json, ewq)" by (cases p)
    with found Some have d: "Suc d < length m" by simp
    have "\<exists>q. copy_value m json ewq sz (if ewq then Suc d else d) (\<not> json) 0 False [] = Inr q"
      using copy_value_padded [OF padded_nth(3) [OF m]] d by auto
    with r Some p d show ?thesis by (auto simp: simpleJsonProcessor_def padded_rd)
  qed (use r in \<open>auto simp: simpleJsonProcessor_def\<close>)
qed

lemma processor_empty: "NUL \<notin> set key \<Longrightarrow> simpleJsonProcessor (Some (NUL # m)) (Some key) value sz = Inr (False, [])"
  by (simp add: simpleJsonProcessor_def find_key.simps [of _ key 0] rd_def)

end
