(* ===== verification/Rtos_Client.thy ===== *)
theory Rtos_Client
  imports Rtos_Push Rtos_Request Json_Padded
begin

text \<open>
  The client of the real-time platforms: \<open>ParseClientInternal\<close> of \<^verbatim>\<open>rtos/parse_impl.h\<close> with its arrays at
  their sizes, the operations of the C library on them, and what a device consists of: the client, the
  shared request buffer and the network. The invariant \<open>client_ok\<close> is the type of the client: every
  array has its size and holds a string.
\<close>

section \<open>Definitions\<close>

definition APPLICATION_ID_MAX_LEN :: nat where "APPLICATION_ID_MAX_LEN = 40"
definition CLIENT_KEY_MAX_LEN :: nat where "CLIENT_KEY_MAX_LEN = 40"
definition OBJECT_ID_MAX_LEN :: nat where "OBJECT_ID_MAX_LEN = 16"
definition INSTALLATION_ID_MAX_LEN :: nat where "INSTALLATION_ID_MAX_LEN = 36"
definition SESSION_TOKEN_MAX_LEN :: nat where "SESSION_TOKEN_MAX_LEN = 40"
definition OS_VERSION_MAX_LEN :: nat where "OS_VERSION_MAX_LEN = 19"
definition CLIENT_VERSION_MAX_LEN :: nat where "CLIENT_VERSION_MAX_LEN = 26"
definition CLIENT_VERSION :: string where "CLIENT_VERSION = ''c-ti-cc3200-rtos-1.0.0''"

lemmas max_lens = APPLICATION_ID_MAX_LEN_def CLIENT_KEY_MAX_LEN_def OBJECT_ID_MAX_LEN_def INSTALLATION_ID_MAX_LEN_def
  SESSION_TOKEN_MAX_LEN_def OS_VERSION_MAX_LEN_def CLIENT_VERSION_MAX_LEN_def PUSH_TIME_MAX_LEN_def

record parse_client =
  applicationId :: "char list"
  clientKey :: "char list"
  installationObjectId :: "char list"
  installationId :: "char list"
  sessionToken :: "char list"
  callback :: bool
  socketHandle :: int
  nFailedPing :: int
  lastPushTime :: "char list"
  osVersion :: "char list"
  deviceClientVersion :: "char list"

text \<open>An array of zeros, and \<open>strncpy\<close>, which fills up with zeros.\<close>

definition zeros :: "nat \<Rightarrow> char list" where
  "zeros n = replicate n NUL"

definition strncpy :: "char list \<Rightarrow> string \<Rightarrow> nat \<Rightarrow> mem_error + char list" where
  "strncpy m s n = poke m 0 (take n s @ replicate (n - length s) NUL)"

text \<open>The value of a key is read into an array of the client; \<open>sz\<close> is \<open>sizeof\<close> the array.\<close>

definition json_field :: "char list option \<Rightarrow> string \<Rightarrow> char list \<Rightarrow> nat \<Rightarrow> mem_error + (bool \<times> char list)" where
  "json_field json key m sz =
     bindE (simpleJsonProcessor json (Some key) True (int sz)) (\<lambda>(status, val).
     bindE (poke m 0 val) (\<lambda>m'. Inr (status, m')))"

text \<open>The strings that a request is built from.\<close>

definition request_fields :: "parse_client \<Rightarrow> request_client" where
  "request_fields c = request_client.make (c_string (deviceClientVersion c)) (c_string (osVersion c))
     (c_string (applicationId c)) (c_string (clientKey c)) (c_string (installationId c)) (c_string (sessionToken c))"

text \<open>
  The platform of the client: the network, the file system and the random numbers act on one world.
  \<open>saveClientState\<close> and \<open>loadClientState\<close> return a status that their callers ignore.
\<close>

record 'w client_platform = "'w request_net" +
  saveClientState :: "parse_client \<Rightarrow> 'w \<Rightarrow> 'w"
  loadClientState :: "parse_client \<Rightarrow> 'w \<Rightarrow> mem_error + (parse_client \<times> 'w)"
  fetchDeviceOSVersion :: "char list \<Rightarrow> nat \<Rightarrow> 'w \<Rightarrow> (mem_error + char list) \<times> 'w"
  createNewInstallationId :: "char list \<Rightarrow> 'w \<Rightarrow> (mem_error + char list) \<times> 'w"

text \<open>A device, with the requests that were sent as verb, path, query or body, and installation header.\<close>

record 'w device = "'w request_state" +
  client :: parse_client
  requests :: "(string \<times> string \<times> string option \<times> bool) list"

definition send ::
  "'w client_platform \<Rightarrow> string \<Rightarrow> string \<Rightarrow> string option \<Rightarrow> 'w device request_callback option \<Rightarrow> bool \<Rightarrow> 'w device \<Rightarrow> mem_error + 'w device" where
  "send P httpVerb httpPath body cb add st =
     parseSendRequestInternal P (request_fields (client st)) httpVerb httpPath body cb add
       (st\<lparr>requests := requests st @ [(httpVerb, httpPath, body, add)]\<rparr>)"

definition save :: "'w client_platform \<Rightarrow> 'w device \<Rightarrow> 'w device" where
  "save P st = st\<lparr>network := saveClientState P (client st) (network st)\<rparr>"

text \<open>\<open>parseInitialize\<close>: \<open>memory\<close> says whether \<open>malloc\<close> finds the space, \<open>None\<close> is a null pointer.\<close>

definition blank_client :: parse_client where
  "blank_client =
     \<lparr>applicationId = zeros (APPLICATION_ID_MAX_LEN + 1), clientKey = zeros (CLIENT_KEY_MAX_LEN + 1),
      installationObjectId = zeros (OBJECT_ID_MAX_LEN + 1), installationId = zeros (INSTALLATION_ID_MAX_LEN + 1),
      sessionToken = zeros (SESSION_TOKEN_MAX_LEN + 1), callback = False, socketHandle = -1, nFailedPing = 0,
      lastPushTime = zeros (PUSH_TIME_MAX_LEN + 1), osVersion = zeros (OS_VERSION_MAX_LEN + 1),
      deviceClientVersion = zeros (CLIENT_VERSION_MAX_LEN + 1)\<rparr>"

definition parseInitialize ::
  "'w client_platform \<Rightarrow> bool \<Rightarrow> string option \<Rightarrow> string option \<Rightarrow> 'w \<Rightarrow> mem_error + (parse_client option \<times> 'w)" where
  "parseInitialize P memory appId key w =
     (if \<not> memory then Inr (None, w)
      else case (appId, key) of
        (Some appId, Some key) \<Rightarrow>
          bindE (strncpy (applicationId blank_client) appId APPLICATION_ID_MAX_LEN) (\<lambda>a.
          bindE (strncpy (clientKey blank_client) key CLIENT_KEY_MAX_LEN) (\<lambda>k.
            case fetchDeviceOSVersion P (osVersion blank_client) OS_VERSION_MAX_LEN w of (os, w) \<Rightarrow>
              bindE os (\<lambda>os.
              bindE (strncpy (deviceClientVersion blank_client) CLIENT_VERSION CLIENT_VERSION_MAX_LEN) (\<lambda>v.
                bindE (loadClientState P (blank_client\<lparr>applicationId := a, clientKey := k, osVersion := os, deviceClientVersion := v\<rparr>) w)
                  (\<lambda>(c, w). Inr (Some c, w))))))
      | _ \<Rightarrow> Inl NullPointer)"

section \<open>Arrays that hold strings\<close>

text \<open>An array of \<open>n + 1\<close> bytes whose last one is a terminator.\<close>

definition str_field :: "nat \<Rightarrow> char list \<Rightarrow> bool" where
  "str_field n m \<longleftrightarrow> length m = n + 1 \<and> m ! n = NUL"

lemma zeros_field [simp]: "str_field n (zeros (Suc n))"
  by (simp add: str_field_def zeros_def del: replicate_Suc)

lemma str_field_length: "str_field n m \<Longrightarrow> length (c_string m) \<le> n"
proof -
  assume "str_field n m"
  then have "NUL \<in> set m" by (metis str_field_def less_add_one nth_mem)
  then have "length (takeWhile (\<lambda>c. c \<noteq> NUL) m) < length m" by (induction m) auto
  with \<open>str_field n m\<close> show ?thesis by (simp add: str_field_def c_string_def)
qed

lemma c_string_zeros [simp]: "c_string (zeros n) = []"
  by (cases n) (simp_all add: c_string_def zeros_def)

text \<open>Writing fewer bytes than the array has keeps its terminator; so does writing a terminator last.\<close>

lemma poke_field:
  assumes "str_field n m" "poke m 0 xs = Inr m'" "length xs \<le> n \<or> last xs = NUL"
  shows "str_field n m'"
proof -
  from assms(1,2) have m': "m' = xs @ drop (length xs) m" "length xs \<le> n + 1" "length m' = n + 1"
    by (auto simp: poke_def str_field_def split: if_splits)
  have "m' ! n = NUL"
  proof (cases "length xs \<le> n")
    case True
    with m' assms(1) show ?thesis by (simp add: nth_append str_field_def)
  next
    case False
    with m'(2) have l: "length xs = Suc n" by simp
    with False assms(3) show ?thesis unfolding m'(1) by (cases xs rule: rev_cases) (simp_all add: nth_append)
  qed
  with m'(3) show ?thesis by (simp add: str_field_def)
qed

lemma poke_field_total: "str_field n m \<Longrightarrow> length xs \<le> n + 1 \<Longrightarrow> \<exists>m'. poke m 0 xs = Inr m'"
  by (auto simp: str_field_def intro: poke_total)

lemma strncpy_field:
  assumes "str_field n m"
  obtains m' where "strncpy m s n = Inr m'" "str_field n m'" "NUL \<notin> set s \<Longrightarrow> c_string m' = take n s"
proof -
  let ?xs = "take n s @ replicate (n - length s) NUL"
  have len: "length ?xs = n" by simp
  from poke_field_total [OF assms, of ?xs] obtain m' where m': "poke m 0 ?xs = Inr m'" unfolding len by auto
  have "drop n m = [NUL]" using assms by (simp add: str_field_def Cons_nth_drop_Suc [symmetric])
  with m' have e: "m' = take n s @ replicate (n - length s) NUL @ [NUL]"
    unfolding poke_def len by (simp split: if_splits)
  have "c_string m' = take n s" if "NUL \<notin> set s"
  proof -
    have "\<And>c. c \<in> set (take n s) \<Longrightarrow> c \<noteq> NUL" using that in_set_takeD by metis
    then show ?thesis unfolding c_string_def e
      by (cases "n - length s") (simp_all add: takeWhile_append2)
  qed
  moreover have "str_field n m'" using poke_field [OF assms m'] unfolding len by simp
  ultimately show ?thesis using that [of m'] m' by (simp add: strncpy_def)
qed

text \<open>A value that is read into an array leaves a string there, whatever the JSON text.\<close>

lemma json_field_kept:
  assumes "str_field n m" "json_field json key m (n + 1) = Inr (b, m')"
  shows "str_field n m'"
proof -
  from assms(2) obtain val where val: "simpleJsonProcessor json (Some key) True (int (n + 1)) = Inr (b, val)" "poke m 0 val = Inr m'"
    by (auto simp: json_field_def bindE_Inr_iff)
  from processor_fits [OF val(1)] have "length val \<le> n \<or> last val = NUL" by (auto simp: fits_def split: if_splits)
  with assms(1) val(2) show ?thesis by (rule poke_field)
qed

lemma json_field_total:
  assumes "str_field n m" "simpleJsonProcessor json (Some key) True (int (n + 1)) = Inr (b, val)"
  shows "\<exists>m'. json_field json key m (n + 1) = Inr (b, m')"
proof -
  from processor_fits [OF assms(2)] have "length val \<le> n + 1" by (auto simp: fits_def split: if_splits)
  from poke_field_total [OF assms(1) this] assms(2) show ?thesis by (auto simp: json_field_def)
qed

section \<open>The type of the client\<close>

definition client_ok :: "parse_client \<Rightarrow> bool" where
  "client_ok c \<longleftrightarrow> str_field APPLICATION_ID_MAX_LEN (applicationId c) \<and> str_field CLIENT_KEY_MAX_LEN (clientKey c) \<and>
     str_field OBJECT_ID_MAX_LEN (installationObjectId c) \<and> str_field INSTALLATION_ID_MAX_LEN (installationId c) \<and>
     str_field SESSION_TOKEN_MAX_LEN (sessionToken c) \<and> str_field PUSH_TIME_MAX_LEN (lastPushTime c) \<and>
     str_field OS_VERSION_MAX_LEN (osVersion c) \<and> str_field CLIENT_VERSION_MAX_LEN (deviceClientVersion c)"

definition device_ok :: "'w device \<Rightarrow> bool" where
  "device_ok st \<longleftrightarrow> length (dataBuffer st) = 1024 \<and> client_ok (client st)"

lemma blank_client_ok: "client_ok blank_client"
  by (simp add: client_ok_def blank_client_def zeros_field)

lemma client_ok_lengths:
  assumes "client_ok c"
  shows "length (c_string (applicationId c)) \<le> 40" "length (c_string (clientKey c)) \<le> 40"
    "length (c_string (installationObjectId c)) \<le> 16" "length (c_string (installationId c)) \<le> 36"
    "length (c_string (sessionToken c)) \<le> 40" "length (c_string (osVersion c)) \<le> 19"
    "length (c_string (deviceClientVersion c)) \<le> 26" "length (c_string (lastPushTime c)) \<le> 40"
  using assms str_field_length unfolding client_ok_def max_lens by blast+

lemma decimal_length: "n < 1000 \<Longrightarrow> length (decimal n) \<le> 3"
  by (simp add: decimal.simps [of n] decimal.simps [of "n div 10"] decimal.simps [of "n div 10 div 10"])

lemma header_length: "length v \<le> k \<Longrightarrow> length (part_text (Header n v)) \<le> length n + k + 4"
  by simp

definition text_len :: "string option \<Rightarrow> nat" where
  "text_len body = (case body of None \<Rightarrow> 0 | Some b \<Rightarrow> length b)"

lemma request_client_fields [simp]:
  "request_client.deviceClientVersion (request_fields c) = c_string (deviceClientVersion c)"
  "request_client.osVersion (request_fields c) = c_string (osVersion c)"
  "request_client.applicationId (request_fields c) = c_string (applicationId c)"
  "request_client.clientKey (request_fields c) = c_string (clientKey c)"
  "request_client.installationId (request_fields c) = c_string (installationId c)"
  "request_client.sessionToken (request_fields c) = c_string (sessionToken c)"
  by (simp_all add: request_fields_def request_client.make_def)

text \<open>
  A request for a typed client fits into the buffer when its verb, path and body are not too long: the
  headers alone have at most 510 bytes.
\<close>

lemma request_fits:
  assumes "client_ok c" "length httpVerb + length httpPath + text_len body \<le> 500"
  shows "length (request_text (request_fields c) httpPath httpVerb body add) \<le> 1022"
proof -
  note lens = client_ok_lengths [OF assms(1)]
  have line: "length (get_line httpPath httpVerb body) \<le> length httpVerb + length httpPath + text_len body + 13"
    by (simp add: get_line_def request_line_def text_len_def split: option.split)
  have line': "length (request_line httpPath httpVerb) = length httpVerb + length httpPath + 12"
    by (simp add: request_line_def)
  have digits: "length (decimal (length (the body))) \<le> 3" if "has_body httpVerb body"
    using that assms(2) by (intro decimal_length) (auto simp: has_body_def text_len_def)
  have b: "length (the body) \<le> text_len body" if "has_body httpVerb body"
    using that by (auto simp: has_body_def text_len_def)
  let ?T = "\<lambda>n v. length (part_text (Header n v))" and ?c = "request_fields c"
  have h: "?T ''Host'' ''api.parse.com'' \<le> 21" "?T ''User-Agent'' (c_string (deviceClientVersion c)) \<le> 40"
    "?T ''X-Parse-OS-Version'' (c_string (osVersion c)) \<le> 41"
    "?T ''X-Parse-Client-Version'' (c_string (deviceClientVersion c)) \<le> 52"
    "?T ''X-Parse-Application-Id'' (c_string (applicationId c)) \<le> 66"
    "?T ''X-Parse-Client-Key'' (c_string (clientKey c)) \<le> 62"
    "?T ''X-Parse-Installation-Id'' (c_string (installationId c)) \<le> 63"
    "?T ''X-Parse-Session-Token'' (c_string (sessionToken c)) \<le> 65"
    "?T ''Content-Type'' ''application/json; charset=utf-8'' \<le> 47"
    using lens by simp_all
  show ?thesis
  proof (cases "has_body httpVerb body")
    case True
    then have "\<not> is_get httpVerb" by (simp add: has_body_def)
    with True h line' digits [OF True] b [OF True] assms(2) show ?thesis
      by (cases add) (simp_all add: request_text_def request_parts_def del: part_text.simps(2))
  next
    case False
    with h line line' assms(2) show ?thesis
      by (cases "is_get httpVerb"; cases add) (simp_all add: request_text_def request_parts_def del: part_text.simps(2))
  qed
qed

section \<open>Requests keep the type\<close>

lemma snprintf_length: "snprintf m d sz s = Inr (k, m') \<Longrightarrow> length m' = length m"
  by (auto simp: snprintf_def Let_def bindE_Inr_iff poke_length split: if_splits)

lemma add_part_length: "add_part p m d sz = Inr (k, m') \<Longrightarrow> length m' = length m"
  by (cases p) (auto simp: addHttpRequestLine_def bindE_Inr_iff snprintf_length split: if_splits)

lemma build_parts_length:
  "build_parts ps (status, pos, sz, m) = Inr (status', pos', sz', m') \<Longrightarrow> length m' = length m"
proof (induction ps arbitrary: status pos sz m)
  case (Cons p ps)
  then obtain status1 pos1 sz1 m1 where 1: "build_step p (status, pos, sz, m) = Inr (status1, pos1, sz1, m1)"
    and 2: "build_parts ps (status1, pos1, sz1, m1) = Inr (status', pos', sz', m')"
    by (auto simp: bindE_Inr_iff)
  have "length m1 = length m" using 1
    by (auto simp: build_step_def bindE_Inr_iff split: if_splits dest: add_part_length)
  with Cons.IH [OF 2] show ?case by simp
qed simp

lemma buildRequestHeaders_length:
  assumes "buildRequestHeaders c host httpVerb body add = Inr (n, m)"
  shows "length m = 1024"
proof -
  from assms obtain status pos sz m1 where
    1: "build_parts (request_parts c host httpVerb body add) (0, 0, 1024 - 0 - 1, replicate 1024 NUL) = Inr (status, pos, sz, m1)"
    and 2: "m = m1 \<or> poke m1 (nat (pos + status)) [NUL] = Inr m"
    by (auto simp: buildRequestHeaders_def bindE_Inr_iff split: if_splits)
  from build_parts_length [OF 1] have "length m1 = 1024" by simp
  with 2 poke_length show ?thesis by fastforce
qed

definition same_device :: "('w, 's) request_state_scheme \<Rightarrow> ('w, 's) request_state_scheme \<Rightarrow> bool" where
  "same_device st st' \<longleftrightarrow> length (dataBuffer st') = 1024 \<and> request_state.more st' = request_state.more st"

lemma exchange_kept:
  assumes "exchange N h k st = Inr (n, st')" "length (dataBuffer st) = 1024"
  shows "same_device st st'"
proof -
  from assms(1) obtain bytes where bytes: "peek (dataBuffer st) 0 (nat k) = Inr bytes"
    by (cases "peek (dataBuffer st) 0 (nat k)") (simp_all add: exchange_def)
  obtain status w where "net_write N h bytes (network st) = (status, w)" by fastforce
  with assms bytes poke_length [of "replicate 1024 NUL"] show ?thesis
    by (cases "0 \<le> status") (fastforce simp: exchange_def bindE_Inr_iff log_event_def same_device_def)+
qed

lemma sendRequest_kept:
  assumes "sendRequest N c host httpVerb body add st = Inr (n, st')" "length (dataBuffer st) = 1024"
  shows "same_device st st'"
proof -
  obtain h w where con: "ssl_connect N ''api.parse.com'' 443 (network st) = (h, w)" by fastforce
  show ?thesis
  proof (cases "0 \<le> h")
    case False
    with assms con show ?thesis by (auto simp: sendRequest_def same_device_def)
  next
    case True
    with assms con obtain k m where b: "buildRequestHeaders c host httpVerb body add = Inr (k, m)"
      by (cases "buildRequestHeaders c host httpVerb body add") (auto simp: sendRequest_def)
    let ?st = "log_event (OpenedSocket h) (st\<lparr>dataBuffer := m, network := w\<rparr>)"
    have ok: "length (dataBuffer ?st) = 1024" "request_state.more ?st = request_state.more st"
      using buildRequestHeaders_length [OF b] by (simp_all add: log_event_def)
    from assms(1) con True b have "(if 0 \<le> k then exchange N h k ?st else Inr (k, ?st)) = Inr (n, st')"
      by (simp add: sendRequest_def Let_def)
    with exchange_kept [OF _ ok(1), of N h k n st'] ok show ?thesis
      by (auto simp: same_device_def split: if_splits)
  qed
qed

text \<open>A result is typed when it is no state, or a typed one.\<close>

definition typed :: "mem_error + 'w device \<Rightarrow> bool" where
  "typed r \<longleftrightarrow> (case r of Inl e \<Rightarrow> True | Inr st \<Rightarrow> device_ok st)"

lemma typed_simps [simp]: "typed (Inl e)" "typed (Inr st) \<longleftrightarrow> device_ok st"
  by (simp_all add: typed_def)

lemma typed_bind [intro]: "(\<And>x. r = Inr x \<Longrightarrow> typed (f x)) \<Longrightarrow> typed (bindE r f)"
  by (cases r) simp_all

lemma typed_seq: "typed r \<Longrightarrow> (\<And>st. device_ok st \<Longrightarrow> typed (f st)) \<Longrightarrow> typed (bindE r f)"
  by (cases r) simp_all

definition callback_typed :: "'w device request_callback option \<Rightarrow> bool" where
  "callback_typed cb \<longleftrightarrow> (\<forall>f error httpStatus body st. cb = Some f \<longrightarrow> device_ok st \<longrightarrow> typed (f error httpStatus body st))"

lemma sendRequest_device:
  assumes "sendRequest N c host httpVerb body add (st :: 'w device) = Inr (n, st')" "device_ok st"
  shows "device_ok st' \<and> client st' = client st \<and> requests st' = requests st"
  using sendRequest_kept [OF assms(1)] assms(2) by (cases st; cases st') (auto simp: device_ok_def same_device_def)

lemma send_typed:
  assumes "device_ok st" "callback_typed cb"
  shows "typed (send P httpVerb httpPath body cb add st)"
proof -
  let ?st = "st\<lparr>requests := requests st @ [(httpVerb, httpPath, body, add)]\<rparr>"
  have ok: "device_ok ?st" using assms(1) by (simp add: device_ok_def)
  show ?thesis
    unfolding send_def parseSendRequestInternal_def
  proof (rule typed_bind, clarify)
    fix n st' assume "sendRequest P (request_fields (client st)) httpPath httpVerb body add ?st = Inr (n, st')"
    from sendRequest_device [OF this ok] have "device_ok st'" by simp
    with assms(2) show "typed (case cb of None \<Rightarrow> Inr st'
        | Some f \<Rightarrow> if 0 \<le> n then bindE (getHttpResponseStatus (dataBuffer st')) (\<lambda>httpStatus.
            bindE (getHttpResponseBody (dataBuffer st')) (\<lambda>httpBody. f 0 httpStatus httpBody st')) else f n (- 1) None st')"
      by (cases cb) (auto simp: callback_typed_def intro!: typed_bind)
  qed
qed

section \<open>Requests that succeed and requests that fail\<close>

text \<open>The server takes the request \<open>t\<close> on a new connection and answers with \<open>r\<close>.\<close>

definition server_answers :: "('w, 'n) request_net_scheme \<Rightarrow> string \<Rightarrow> 'w \<Rightarrow> string \<Rightarrow> 'w \<Rightarrow> bool" where
  "server_answers P t w r w' \<longleftrightarrow> length r \<le> 1023 \<and> (\<exists>h w1 k w2 len.
     ssl_connect P ''api.parse.com'' 443 w = (h, w1) \<and> 0 \<le> h \<and> net_write P h t w1 = (k, w2) \<and> 0 \<le> k \<and>
     net_read P h 1024 5000 w2 = Inr ((len, r @ [NUL]), w') \<and> 0 \<le> len)"

text \<open>An answer with a status of three digits, in which the first empty line ends the headers.\<close>

definition is_answer :: "char \<Rightarrow> char \<Rightarrow> char \<Rightarrow> string \<Rightarrow> string \<Rightarrow> bool" where
  "is_answer d1 d2 d3 headers body \<longleftrightarrow> isdigit d1 \<and> isdigit d2 \<and> isdigit d3 \<and> NUL \<notin> set (http_response d1 d2 d3 headers body) \<and>
     (\<forall>k < 12 + length headers. \<not> prefix (CRLF @ CRLF) (drop k (http_response d1 d2 d3 headers body)))"

text \<open>The state in which the callback runs.\<close>

lemma send_answered:
  assumes ok: "client_ok (client st)" and short: "length httpVerb + length httpPath + text_len body \<le> 500"
    and net: "server_answers P (request_text (request_fields (client st)) httpPath httpVerb body add) (network st)
      (http_response d1 d2 d3 headers answer) w'"
    and ans: "is_answer d1 d2 d3 headers answer"
  shows "\<exists>st' pad. send P httpVerb httpPath body (Some f) add st = f 0 (status_digits d1 d2 d3) (Some (16 + length headers)) st' \<and>
    client st' = client st \<and> requests st' = requests st @ [(httpVerb, httpPath, body, add)] \<and> network st' = w' \<and>
    length (dataBuffer st') = 1024 \<and> drop (16 + length headers) (dataBuffer st') = answer @ NUL # pad"
proof -
  let ?st = "st\<lparr>requests := requests st @ [(httpVerb, httpPath, body, add)]\<rparr>" and ?r = "http_response d1 d2 d3 headers answer"
  let ?pad = "replicate (1023 - length ?r) NUL"
  from net obtain h w1 k w2 len where n: "ssl_connect P ''api.parse.com'' 443 (network ?st) = (h, w1)" "0 \<le> h"
    "net_write P h (request_text (request_fields (client st)) httpPath httpVerb body add) w1 = (k, w2)" "0 \<le> k"
    "net_read P h 1024 5000 w2 = Inr ((len, ?r @ [NUL]), w')" "0 \<le> len" "length ?r \<le> 1023"
    by (auto simp: server_answers_def)
  let ?st' = "?st\<lparr>dataBuffer := ?r @ NUL # ?pad, network := w', events := events ?st @ [OpenedSocket h, ClosedSocket h]\<rparr>"
  have s: "sendRequest P (request_fields (client st)) httpPath httpVerb body add ?st = Inr (len, ?st')"
    by (rule sendRequest_answered [OF n(1,2) request_fits [OF ok short] n(3,4,5,7)])
  have st: "getHttpResponseStatus (?r @ NUL # ?pad) = Inr (status_digits d1 d2 d3)"
    using ans response_status by (simp add: is_answer_def)
  have bd: "getHttpResponseBody (?r @ NUL # ?pad) = Inr (Some (16 + length headers))"
    using ans by (intro response_body) (auto simp: is_answer_def)
  have "send P httpVerb httpPath body (Some f) add st = f 0 (status_digits d1 d2 d3) (Some (16 + length headers)) ?st'"
    unfolding send_def parseSendRequestInternal_def s using n(6) st bd by simp
  moreover have "drop (16 + length headers) (dataBuffer ?st') = answer @ NUL # ?pad"
    using response_body_text [of headers d1 d2 d3 answer "NUL # ?pad"] by simp
  moreover have "length (dataBuffer ?st') = 1024" using n(7) by simp
  ultimately show ?thesis by (intro exI [of _ ?st'] exI [of _ ?pad]) (simp del: response_body_text)
qed

lemma send_offline:
  assumes "ssl_connect P ''api.parse.com'' 443 (network st) = (e, w)" "e < 0"
  shows "send P httpVerb httpPath body (Some f) add st =
    f e (-1) None (st\<lparr>requests := requests st @ [(httpVerb, httpPath, body, add)], network := w\<rparr>)"
  using assms by (simp add: send_def parseSendRequestInternal_def sendRequest_def)

text \<open>
  A request for a typed client never fails by itself: it waits for an answer for ever, or its callback runs
  on a typed device. The body that the callback gets lies in the request buffer, which ends with two
  terminators unless the answer fills it.
\<close>

definition short_answers :: "('w, 'n) request_net_scheme \<Rightarrow> bool" where
  "short_answers P \<longleftrightarrow> (\<forall>h w r written w'. net_read P h 1024 5000 w = Inr ((r, written), w') \<longrightarrow> length written \<le> 1023)"

definition body_ok :: "nat option \<Rightarrow> 'w device \<Rightarrow> bool" where
  "body_ok body st \<longleftrightarrow> (case body of None \<Rightarrow> True | Some d \<Rightarrow> padded (drop d (dataBuffer st)))"

definition returns :: "mem_error + 'w device \<Rightarrow> bool" where
  "returns r \<longleftrightarrow> r = Inl NoReturn \<or> (\<exists>st. r = Inr st \<and> device_ok st)"

lemma returns_Inr [simp]: "returns (Inr st) \<longleftrightarrow> device_ok st" "returns (Inl NoReturn)"
  by (simp_all add: returns_def)

lemma returns_seq: "returns r \<Longrightarrow> (\<And>st. device_ok st \<Longrightarrow> returns (f st)) \<Longrightarrow> returns (bindE r f)"
  unfolding returns_def by (elim disjE exE conjE) simp_all

lemma strstr_length: "strstr s p = Some t \<Longrightarrow> length p \<le> length t \<and> length t \<le> length s"
  by (induction s) (auto split: if_splits dest: prefix_length_le)

lemma body_padded:
  assumes "padded m"
  shows "\<exists>b. getHttpResponseBody m = Inr b \<and> (\<forall>d. b = Some d \<longrightarrow> padded (drop d m))"
proof -
  obtain m0 where m0: "m = m0 @ [NUL, NUL]" using assms by (auto simp: padded_def)
  then obtain s rest where rest: "m = s @ NUL # rest" "NUL \<notin> set s" using split_list_first [of NUL m] by auto
  have n: "length s \<le> length m0"
  proof (rule ccontr)
    assume "\<not> length s \<le> length m0"
    then have "length m0 < length s" by simp
    then have "s ! length m0 = m ! length m0" unfolding rest(1) by (simp add: nth_append)
    also have "\<dots> = NUL" unfolding m0 by simp
    finally show False using rest(2) \<open>length m0 < length s\<close> by (metis nth_mem)
  qed
  have "holds m 0 s" unfolding holds_def using rest by auto
  then have len: "strlen_from m 0 = Inr (length s)" using strlen_holds [of m 0 s] by simp
  have d: "padded (drop d m)" if "d \<le> length s" for d using that n m0 by (intro padded_drop [OF assms]) auto
  show ?thesis
  proof (cases "strstr (take (length s) m) (CRLF @ CRLF)")
    case None
    with len show ?thesis by (simp add: getHttpResponseBody_def)
  next
    case (Some u)
    with strstr_length [OF Some] have "4 \<le> length u" "length u \<le> length s" by auto
    with Some len d [of "length s - length u + 4"] show ?thesis by (simp add: getHttpResponseBody_def)
  qed
qed

text \<open>
  What the operations rely on: reading an answer writes what was received and a terminator, and
  \<open>createNewInstallationId\<close> leaves a string in its array.
\<close>

locale client_platform_laws =
  fixes plat :: "'p \<Rightarrow> 'w client_platform" and good :: "'p \<Rightarrow> bool"
  assumes answer_law: "good p \<Longrightarrow> 0 \<le> h \<Longrightarrow>
      net_read (plat p) h 1024 5000 w = Inl NoReturn \<or>
      (\<exists>len received w'. net_read (plat p) h 1024 5000 w = Inr ((len, received @ [NUL]), w') \<and> length received < 1024)"
    and new_id_law: "good p \<Longrightarrow> str_field INSTALLATION_ID_MAX_LEN m \<Longrightarrow>
      \<exists>m' w'. createNewInstallationId (plat p) m w = (Inr m', w') \<and> str_field INSTALLATION_ID_MAX_LEN m'"

context client_platform_laws
begin

lemma answer_returns:
  assumes "good p" "short_answers (plat p)" "length (request_text c host httpVerb body add) \<le> 1022"
  obtains "sendRequest (plat p) c host httpVerb body add st = Inl NoReturn"
  | k st' where "sendRequest (plat p) c host httpVerb body add st = Inr (k, st')" "k < 0"
  | k st' where "sendRequest (plat p) c host httpVerb body add st = Inr (k, st')" "padded (dataBuffer st')"
proof -
  let ?t = "request_text c host httpVerb body add"
  obtain h w1 where con: "ssl_connect (plat p) ''api.parse.com'' 443 (network st) = (h, w1)" by fastforce
  obtain k w2 where wr: "net_write (plat p) h ?t w1 = (k, w2)" by fastforce
  have pk: "peek (?t @ replicate (1024 - length ?t) NUL) 0 (length ?t) = Inr ?t" using assms(3) by (simp add: peek_def)
  note defs = sendRequest_def exchange_def log_event_def Let_def
  show thesis
  proof (cases "0 \<le> h \<and> 0 \<le> k")
    case False
    with con wr pk build_fits [OF assms(3)] that(2) show ?thesis by (cases "0 \<le> h") (auto simp: defs)
  next
    case True
    from answer_law [OF assms(1), of h w2] True consider "net_read (plat p) h 1024 5000 w2 = Inl NoReturn"
      | len received w3 where "net_read (plat p) h 1024 5000 w2 = Inr ((len, received @ [NUL]), w3)" by blast
    then show ?thesis
    proof cases
      case 1
      with True con wr pk build_fits [OF assms(3)] that(1) show ?thesis by (simp add: defs)
    next
      case 2
      then have "length (received @ [NUL]) \<le> 1023" using assms(2) unfolding short_answers_def by blast
      then have r: "length received \<le> 1022" by simp
      from sendRequest_answered [OF con _ assms(3) wr _ 2] True r have
        "sendRequest (plat p) c host httpVerb body add st = Inr (len, st\<lparr>dataBuffer := received @ NUL # replicate (1023 - length received) NUL,
          network := w3, events := events st @ [OpenedSocket h, ClosedSocket h]\<rparr>)" by simp
      moreover have "padded (received @ NUL # replicate (1023 - length received) NUL)"
        using r by (cases "1023 - length received" rule: nat.exhaust)
          (auto simp: padded_def replicate_append_same [symmetric] intro!: exI [of _ "received @ replicate _ NUL"])
      ultimately show ?thesis using that(3) by simp
    qed
  qed
qed

lemma send_returns:
  assumes p: "good p" "short_answers (plat p)" and ok: "device_ok st"
    and short: "length httpVerb + length httpPath + text_len body \<le> 500"
    and cb: "\<And>error httpStatus b st'. device_ok st' \<Longrightarrow> body_ok b st' \<Longrightarrow> returns (f error httpStatus b st')"
  shows "returns (send (plat p) httpVerb httpPath body (Some f) add st)"
proof -
  let ?st = "st\<lparr>requests := requests st @ [(httpVerb, httpPath, body, add)]\<rparr>" and ?c = "request_fields (client st)"
  have ok': "device_ok ?st" using ok by (simp add: device_ok_def)
  have fits: "length (request_text ?c httpPath httpVerb body add) \<le> 1022"
    using ok short by (intro request_fits) (simp_all add: device_ok_def)
  show ?thesis
  proof (rule answer_returns [OF p fits, of ?st])
    assume "sendRequest (plat p) ?c httpPath httpVerb body add ?st = Inl NoReturn"
    then show ?thesis by (simp add: send_def parseSendRequestInternal_def)
  next
    fix k st' assume s: "sendRequest (plat p) ?c httpPath httpVerb body add ?st = Inr (k, st')" "k < 0"
    with sendRequest_device [OF s(1) ok'] cb [of st' None] show ?thesis
      by (simp add: send_def parseSendRequestInternal_def body_ok_def)
  next
    fix k st' assume s: "sendRequest (plat p) ?c httpPath httpVerb body add ?st = Inr (k, st')" "padded (dataBuffer st')"
    from sendRequest_device [OF s(1) ok'] have d: "device_ok st'" by simp
    then have "\<exists>n. getHttpResponseStatus (dataBuffer st') = Inr n" by (simp add: device_ok_def getHttpResponseStatus_def peek_def)
    then obtain n b where nb: "getHttpResponseStatus (dataBuffer st') = Inr n" "getHttpResponseBody (dataBuffer st') = Inr b"
      "body_ok b st'" using body_padded [OF s(2)] by (fastforce simp: body_ok_def split: option.split)
    with s(1) cb [OF d nb(3)] cb [OF d, of None] show ?thesis
      by (cases "0 \<le> k") (simp_all add: send_def parseSendRequestInternal_def body_ok_def)
  qed
qed

end

end
