(* ===== verification/Cc3200_Files.thy ===== *)
theory Cc3200_Files
  imports Rtos_Client
begin

text \<open>
  \<^verbatim>\<open>cc3200/src/client_state.c\<close>: the file that keeps the installation id, the session token and the time of the
  last push of a client over a restart. The file system of the device is a record of functions over its state;
  what the code relies on when the file system works is the predicate \<open>working_fs\<close>.
\<close>

section \<open>Definitions\<close>

datatype fs_mode = OpenRead | OpenCreate | OpenWrite

text \<open>
  \<open>sl_FsOpen\<close> writes the variable of the handle, whose old value is an argument; \<open>unset\<close> is the value of a
  variable that was never set. \<open>sl_FsRead\<close> returns a status and the bytes it writes.
\<close>

record 'w fs_api =
  fs_open :: "string \<Rightarrow> fs_mode \<Rightarrow> int \<Rightarrow> 'w \<Rightarrow> int \<times> int \<times> 'w"
  fs_read :: "int \<Rightarrow> int \<Rightarrow> nat \<Rightarrow> 'w \<Rightarrow> (int \<times> char list) \<times> 'w"
  fs_write :: "int \<Rightarrow> int \<Rightarrow> char list \<Rightarrow> 'w \<Rightarrow> int \<times> 'w"
  fs_close :: "int \<Rightarrow> 'w \<Rightarrow> 'w"
  fs_del :: "string \<Rightarrow> 'w \<Rightarrow> 'w"
  unset :: int

definition CLIENT_STATE_FILENAME_LEN :: nat where
  "CLIENT_STATE_FILENAME_LEN = APPLICATION_ID_MAX_LEN + 10"

definition clientStateFileName :: "parse_client \<Rightarrow> string" where
  "clientStateFileName c = take (CLIENT_STATE_FILENAME_LEN - 1) (''/parse/'' @ c_string (applicationId c))"

definition read_field :: "'w fs_api \<Rightarrow> int \<Rightarrow> int \<Rightarrow> char list \<Rightarrow> nat \<Rightarrow> 'w \<Rightarrow> mem_error + (int \<times> char list \<times> 'w)" where
  "read_field F file offset m sz w =
     (case fs_read F file offset sz w of ((status, bytes), w) \<Rightarrow> bindE (poke m 0 bytes) (\<lambda>m. Inr (status, m, w)))"

definition load_state :: "'w fs_api \<Rightarrow> parse_client \<Rightarrow> 'w \<Rightarrow> mem_error + (int \<times> parse_client \<times> 'w)" where
  "load_state F c w =
     (case fs_open F (clientStateFileName c) OpenRead (unset F) w of (status, file, w) \<Rightarrow>
        if status < 0 then Inr (status, c, fs_close F file w)
        else
          bindE (read_field F file 0 (installationId c) (INSTALLATION_ID_MAX_LEN + 1) w) (\<lambda>(status, m, w).
            let c = c\<lparr>installationId := m\<rparr>; readOffset = 0 + status in
            if status < 0 then Inr (status, c, fs_close F file w)
            else
              bindE (read_field F file readOffset (sessionToken c) (SESSION_TOKEN_MAX_LEN + 1) w) (\<lambda>(status, m, w).
                let c = c\<lparr>sessionToken := m\<rparr>; readOffset = readOffset + status in
                if status < 0 then Inr (status, c, fs_close F file w)
                else
                  bindE (read_field F file readOffset (lastPushTime c) (PUSH_TIME_MAX_LEN + 1) w) (\<lambda>(status, m, w).
                    Inr (status, c\<lparr>lastPushTime := m\<rparr>, fs_close F file w)))))"

text \<open>The arrays are written one after the other, until one cannot be written; every exit closes the file.\<close>

fun write_fields :: "'w fs_api \<Rightarrow> int \<Rightarrow> int \<Rightarrow> int \<Rightarrow> char list list \<Rightarrow> 'w \<Rightarrow> int \<times> 'w" where
  "write_fields F file status writeOffset [] w = (status, fs_close F file w)"
| "write_fields F file status writeOffset (m # ms) w =
     (case fs_write F file writeOffset m w of (status, w) \<Rightarrow>
        if status < 0 then (status, fs_close F file w)
        else write_fields F file status (writeOffset + status) ms w)"

definition save_state :: "'w fs_api \<Rightarrow> parse_client \<Rightarrow> 'w \<Rightarrow> int \<times> 'w" where
  "save_state F c w =
     (case fs_open F (clientStateFileName c) OpenCreate (-1) (fs_del F (clientStateFileName c) w) of (status, file, w) \<Rightarrow>
        if status < 0 then (status, w)
        else
          (case fs_open F (clientStateFileName c) OpenWrite (-1) (fs_close F file w) of (status, file, w) \<Rightarrow>
             if status < 0 then (status, fs_close F file w)
             else write_fields F file status 0 [installationId c, sessionToken c, lastPushTime c] w))"

section \<open>A file system that works\<close>

text \<open>
  The contents of the files by name, and the files that handles are open on: a file that was deleted can be
  created empty and opened, writing at the end appends, reading returns what is there from the offset on.
\<close>

record 'w fs_view =
  contents :: "'w \<Rightarrow> string \<Rightarrow> char list option"
  opened :: "'w \<Rightarrow> int \<Rightarrow> string option"

definition working_fs :: "'w fs_api \<Rightarrow> 'w fs_view \<Rightarrow> bool" where
  "working_fs F V \<longleftrightarrow>
     (\<forall>n w. contents V (fs_del F n w) n = None) \<and>
     (\<forall>h n w. contents V (fs_close F h w) n = contents V w n) \<and>
     (\<forall>n h w. contents V w n = None \<longrightarrow> (case fs_open F n OpenCreate h w of (s, h', w') \<Rightarrow> 0 \<le> s \<and> contents V w' n = Some [])) \<and>
     (\<forall>n h w. contents V w n = Some [] \<longrightarrow> (case fs_open F n OpenWrite h w of (s, h', w') \<Rightarrow>
        0 \<le> s \<and> contents V w' n = Some [] \<and> opened V w' h' = Some n)) \<and>
     (\<forall>n h w d. contents V w n = Some d \<longrightarrow> (case fs_open F n OpenRead h w of (s, h', w') \<Rightarrow>
        0 \<le> s \<and> contents V w' n = Some d \<and> opened V w' h' = Some n)) \<and>
     (\<forall>n h w d xs. opened V w h = Some n \<longrightarrow> contents V w n = Some d \<longrightarrow> (case fs_write F h (int (length d)) xs w of (s, w') \<Rightarrow>
        s = int (length xs) \<and> contents V w' n = Some (d @ xs) \<and> opened V w' h = Some n)) \<and>
     (\<forall>n h w d k sz. opened V w h = Some n \<longrightarrow> contents V w n = Some d \<longrightarrow> (case fs_read F h (int k) sz w of ((s, xs), w') \<Rightarrow>
        s = int (length xs) \<and> xs = take sz (drop k d) \<and> contents V w' n = Some d \<and> opened V w' h = Some n))"

text \<open>Opening a file that is not there fails.\<close>

definition missing_fails :: "'w fs_api \<Rightarrow> 'w fs_view \<Rightarrow> bool" where
  "missing_fails F V \<longleftrightarrow>
     (\<forall>n h w. contents V w n = None \<longrightarrow> (case fs_open F n OpenRead h w of (s, h', w') \<Rightarrow> s < 0 \<and> contents V w' n = None))"

lemma fs_missing_law:
  assumes "missing_fails F V" "contents V w n = None"
  shows "\<exists>s h' w'. fs_open F n OpenRead h w = (s, h', w') \<and> s < 0 \<and> contents V w' n = None"
  using assms(1) [unfolded missing_fails_def, rule_format, OF assms(2), of h] by (cases "fs_open F n OpenRead h w") auto

lemma working_fsD:
  assumes "working_fs F V"
  shows fs_del_law: "contents V (fs_del F n w) n = None"
    and fs_close_law: "contents V (fs_close F h w) n = contents V w n"
    and fs_create_law: "contents V w n = None \<Longrightarrow> \<exists>s h' w'. fs_open F n OpenCreate h w = (s, h', w') \<and> 0 \<le> s \<and> contents V w' n = Some []"
    and fs_open_write_law: "contents V w n = Some [] \<Longrightarrow> \<exists>s h' w'. fs_open F n OpenWrite h w = (s, h', w') \<and> 0 \<le> s \<and>
      contents V w' n = Some [] \<and> opened V w' h' = Some n"
    and fs_open_read_law: "contents V w n = Some d \<Longrightarrow> \<exists>s h' w'. fs_open F n OpenRead h w = (s, h', w') \<and> 0 \<le> s \<and>
      contents V w' n = Some d \<and> opened V w' h' = Some n"
    and fs_write_law: "opened V w h = Some n \<Longrightarrow> contents V w n = Some d \<Longrightarrow> \<exists>w'. fs_write F h (int (length d)) xs w = (int (length xs), w') \<and>
      contents V w' n = Some (d @ xs) \<and> opened V w' h = Some n"
    and fs_read_law: "opened V w h = Some n \<Longrightarrow> contents V w n = Some d \<Longrightarrow>
      \<exists>w'. fs_read F h (int k) sz w = ((int (length (take sz (drop k d))), take sz (drop k d)), w') \<and>
        contents V w' n = Some d \<and> opened V w' h = Some n"
proof -
  note w = assms [unfolded working_fs_def]
  note w1 = w [THEN conjunct1]
  note w2 = w [THEN conjunct2, THEN conjunct1]
  note w3 = w [THEN conjunct2, THEN conjunct2, THEN conjunct1]
  note w4 = w [THEN conjunct2, THEN conjunct2, THEN conjunct2, THEN conjunct1]
  note w5 = w [THEN conjunct2, THEN conjunct2, THEN conjunct2, THEN conjunct2, THEN conjunct1]
  note w6 = w [THEN conjunct2, THEN conjunct2, THEN conjunct2, THEN conjunct2, THEN conjunct2, THEN conjunct1]
  note w7 = w [THEN conjunct2, THEN conjunct2, THEN conjunct2, THEN conjunct2, THEN conjunct2, THEN conjunct2]
  show "contents V (fs_del F n w) n = None" using w1 by blast
  show "contents V (fs_close F h w) n = contents V w n" using w2 by blast
  show "\<exists>s h' w'. fs_open F n OpenCreate h w = (s, h', w') \<and> 0 \<le> s \<and> contents V w' n = Some []" if "contents V w n = None"
    using w3 [rule_format, OF that, of h] by (cases "fs_open F n OpenCreate h w") auto
  show "\<exists>s h' w'. fs_open F n OpenWrite h w = (s, h', w') \<and> 0 \<le> s \<and> contents V w' n = Some [] \<and> opened V w' h' = Some n"
    if "contents V w n = Some []" using w4 [rule_format, OF that, of h] by (cases "fs_open F n OpenWrite h w") auto
  show "\<exists>s h' w'. fs_open F n OpenRead h w = (s, h', w') \<and> 0 \<le> s \<and> contents V w' n = Some d \<and> opened V w' h' = Some n"
    if "contents V w n = Some d" using w5 [rule_format, OF that, of h] by (cases "fs_open F n OpenRead h w") auto
  show "\<exists>w'. fs_write F h (int (length d)) xs w = (int (length xs), w') \<and> contents V w' n = Some (d @ xs) \<and> opened V w' h = Some n"
    if "opened V w h = Some n" "contents V w n = Some d"
    using w6 [rule_format, OF that, of xs] by (cases "fs_write F h (int (length d)) xs w") auto
  show "\<exists>w'. fs_read F h (int k) sz w = ((int (length (take sz (drop k d))), take sz (drop k d)), w') \<and>
        contents V w' n = Some d \<and> opened V w' h = Some n"
    if "opened V w h = Some n" "contents V w n = Some d"
    using w7 [rule_format, OF that, of sz k] by (cases "fs_read F h (int k) sz w") auto
qed

section \<open>Saving and loading\<close>

lemma saved_contents:
  assumes fs: "working_fs F V"
  shows "\<exists>s w'. save_state F c w = (s, w') \<and> 0 \<le> s \<and>
    contents V w' (clientStateFileName c) = Some (installationId c @ sessionToken c @ lastPushTime c)"
proof -
  let ?n = "clientStateFileName c"
  obtain s1 h1 w1 where 1: "fs_open F ?n OpenCreate (-1) (fs_del F ?n w) = (s1, h1, w1)" "0 \<le> s1" "contents V w1 ?n = Some []"
    using fs_create_law [OF fs fs_del_law [OF fs]] by blast
  then have "contents V (fs_close F h1 w1) ?n = Some []" by (simp add: fs_close_law [OF fs])
  then obtain s2 h w2 where 2: "fs_open F ?n OpenWrite (-1) (fs_close F h1 w1) = (s2, h, w2)" "0 \<le> s2"
    "contents V w2 ?n = Some []" "opened V w2 h = Some ?n"
    using fs_open_write_law [OF fs] by blast
  obtain w3 where 3: "fs_write F h 0 (installationId c) w2 = (int (length (installationId c)), w3)"
    "contents V w3 ?n = Some (installationId c)" "opened V w3 h = Some ?n"
    using fs_write_law [OF fs 2(4,3), of "installationId c"] by auto
  obtain w4 where 4: "fs_write F h (int (length (installationId c))) (sessionToken c) w3 = (int (length (sessionToken c)), w4)"
    "contents V w4 ?n = Some (installationId c @ sessionToken c)" "opened V w4 h = Some ?n"
    using fs_write_law [OF fs 3(3,2), of "sessionToken c"] by auto
  obtain w5 where 5: "fs_write F h (int (length (installationId c @ sessionToken c))) (lastPushTime c) w4 = (int (length (lastPushTime c)), w5)"
    "contents V w5 ?n = Some ((installationId c @ sessionToken c) @ lastPushTime c)" "opened V w5 h = Some ?n"
    using fs_write_law [OF fs 4(3,2), of "lastPushTime c"] by blast
  have "save_state F c w = (int (length (lastPushTime c)), fs_close F h w5)"
    using 1 2 3 4 5 by (simp add: save_state_def)
  with 5 show ?thesis by (simp add: fs_close_law [OF fs])
qed

lemma read_field_all:
  assumes fs: "working_fs F V" and w: "opened V w h = Some n" "contents V w n = Some (pre @ x @ post)"
    and len: "length x = sz" "length m = sz"
  shows "\<exists>w'. read_field F h (int (length pre)) m sz w = Inr (int sz, x, w') \<and> contents V w' n = Some (pre @ x @ post) \<and> opened V w' h = Some n"
  using fs_read_law [OF fs w, of "length pre" sz] len by (auto simp: read_field_def poke_def)

lemma loaded_bytes:
  assumes fs: "working_fs F V" and c0: "client_ok c0"
    and lens: "length i = INSTALLATION_ID_MAX_LEN + 1" "length t = SESSION_TOKEN_MAX_LEN + 1" "length p = PUSH_TIME_MAX_LEN + 1"
    and w: "contents V w (clientStateFileName c0) = Some (i @ t @ p)"
  shows "\<exists>s w'. load_state F c0 w = Inr (s, c0\<lparr>installationId := i, sessionToken := t, lastPushTime := p\<rparr>, w') \<and> 0 \<le> s"
proof -
  let ?n = "clientStateFileName c0"
  have len: "length i = INSTALLATION_ID_MAX_LEN + 1" "length t = SESSION_TOKEN_MAX_LEN + 1" "length p = PUSH_TIME_MAX_LEN + 1"
    "length (installationId c0) = INSTALLATION_ID_MAX_LEN + 1" "length (sessionToken c0) = SESSION_TOKEN_MAX_LEN + 1"
    "length (lastPushTime c0) = PUSH_TIME_MAX_LEN + 1"
    using c0 lens by (simp_all add: client_ok_def str_field_def)
  obtain s h w1 where 1: "fs_open F ?n OpenRead (unset F) w = (s, h, w1)" "0 \<le> s"
    "contents V w1 ?n = Some ([] @ i @ t @ p)" "opened V w1 h = Some ?n"
    using fs_open_read_law [OF fs w, of "unset F"] by auto
  obtain w2 where 2: "read_field F h 0 (installationId c0) (INSTALLATION_ID_MAX_LEN + 1) w1 = Inr (int (INSTALLATION_ID_MAX_LEN + 1), i, w2)"
    "contents V w2 ?n = Some (i @ t @ p)" "opened V w2 h = Some ?n"
    using read_field_all [OF fs 1(4,3) len(1,4)] by auto
  obtain w3 where 3: "read_field F h (int (INSTALLATION_ID_MAX_LEN + 1)) (sessionToken c0) (SESSION_TOKEN_MAX_LEN + 1) w2 =
      Inr (int (SESSION_TOKEN_MAX_LEN + 1), t, w3)" "contents V w3 ?n = Some ((i @ t) @ p @ [])" "opened V w3 h = Some ?n"
    using read_field_all [OF fs 2(3,2) len(2,5)] len by auto
  obtain w4 where 4: "read_field F h (int (INSTALLATION_ID_MAX_LEN + 1) + int (SESSION_TOKEN_MAX_LEN + 1)) (lastPushTime c0) (PUSH_TIME_MAX_LEN + 1) w3 =
      Inr (int (PUSH_TIME_MAX_LEN + 1), p, w4)"
    using read_field_all [OF fs 3(3,2) len(3,6)] len by auto
  show ?thesis using 1 2(1) 3(1) 4 by (simp add: load_state_def Let_def)
qed

lemma loaded_state:
  assumes fs: "working_fs F V" and c: "client_ok c" and c0: "client_ok c0"
    and w: "contents V w (clientStateFileName c0) = Some (installationId c @ sessionToken c @ lastPushTime c)"
  shows "\<exists>s w'. load_state F c0 w =
    Inr (s, c0\<lparr>installationId := installationId c, sessionToken := sessionToken c, lastPushTime := lastPushTime c\<rparr>, w') \<and> 0 \<le> s"
  by (rule loaded_bytes [OF fs c0 _ _ _ w]) (use c in \<open>simp_all add: client_ok_def str_field_def\<close>)

text \<open>
  A file that was not written by \<open>saveClientState\<close> is trusted: an installation id without a terminator in its 37
  bytes leaves the client without its type.
\<close>

lemma load_untyped:
  assumes fs: "working_fs F V" and c0: "client_ok c0"
    and lens: "length i = INSTALLATION_ID_MAX_LEN + 1" "length t = SESSION_TOKEN_MAX_LEN + 1" "length p = PUSH_TIME_MAX_LEN + 1"
    and w: "contents V w (clientStateFileName c0) = Some (i @ t @ p)" and "NUL \<notin> set i"
  shows "\<exists>s c w'. load_state F c0 w = Inr (s, c, w') \<and> \<not> client_ok c"
proof -
  have "i ! INSTALLATION_ID_MAX_LEN \<noteq> NUL" using assms(7) lens(1) by (metis less_add_one nth_mem)
  then have "\<not> client_ok (c0\<lparr>installationId := i, sessionToken := t, lastPushTime := p\<rparr>)" by (simp add: client_ok_def str_field_def)
  with loaded_bytes [OF fs c0 lens w] show ?thesis by blast
qed

text \<open>
  When the file cannot be opened, \<open>loadClientState\<close> closes a handle that was never set.
\<close>

lemma load_closes_unset:
  assumes "fs_open F (clientStateFileName c) OpenRead (unset F) w = (s, unset F, w')" "s < 0"
  shows "load_state F c w = Inr (s, c, fs_close F (unset F) w')"
  using assms by (simp add: load_state_def)

text \<open>
  \<open>saveClientState\<close> deletes the file before it creates the new one: when that fails, the old state is gone.
\<close>

lemma save_loses_state:
  assumes "contents V (fs_del F (clientStateFileName c) w) (clientStateFileName c) = None"
    and "fs_open F (clientStateFileName c) OpenCreate (-1) (fs_del F (clientStateFileName c) w) = (s, h, fs_del F (clientStateFileName c) w)" "s < 0"
  shows "\<exists>w'. save_state F c w = (s, w') \<and> contents V w' (clientStateFileName c) = None"
  using assms by (simp add: save_state_def)

end
