(* ===== verification/Cc3200_Certificate.thy ===== *)
theory Cc3200_Certificate
  imports Cc3200_Files
begin

text \<open>
  The root certificate of the CC3200: the bytes of \<^verbatim>\<open>rtos/certificate.c\<close>, and \<open>ensureCertificateFile\<close> of
  \<^verbatim>\<open>cc3200/src/certificate_file.c\<close>, which puts them into a file before a connection is opened.
\<close>

section \<open>Definitions\<close>

definition SSL_CA_CERT_FILE_NAME :: string where
  "SSL_CA_CERT_FILE_NAME = ''/parse/DigiCertHighAssuranceEVRootCA.der''"

definition DigiCertHighAssuranceEVRootCA_der :: "char list" where
  "DigiCertHighAssuranceEVRootCA_der = map (\<lambda>n. char_of (n :: nat))
     [48, 130, 3, 197, 48, 130, 2, 173, 160, 3, 2, 1, 2, 2, 16, 2, 172, 92, 38, 106, 11, 64, 155, 143,
      11, 121, 242, 174, 70, 37, 119, 48, 13, 6, 9, 42, 134, 72, 134, 247, 13, 1, 1, 5, 5, 0, 48, 108,
      49, 11, 48, 9, 6, 3, 85, 4, 6, 19, 2, 85, 83, 49, 21, 48, 19, 6, 3, 85, 4, 10, 19, 12,
      68, 105, 103, 105, 67, 101, 114, 116, 32, 73, 110, 99, 49, 25, 48, 23, 6, 3, 85, 4, 11, 19, 16, 119,
      119, 119, 46, 100, 105, 103, 105, 99, 101, 114, 116, 46, 99, 111, 109, 49, 43, 48, 41, 6, 3, 85, 4, 3,
      19, 34, 68, 105, 103, 105, 67, 101, 114, 116, 32, 72, 105, 103, 104, 32, 65, 115, 115, 117, 114, 97, 110, 99,
      101, 32, 69, 86, 32, 82, 111, 111, 116, 32, 67, 65, 48, 30, 23, 13, 48, 54, 49, 49, 49, 48, 48, 48,
      48, 48, 48, 48, 90, 23, 13, 51, 49, 49, 49, 49, 48, 48, 48, 48, 48, 48, 48, 90, 48, 108, 49, 11,
      48, 9, 6, 3, 85, 4, 6, 19, 2, 85, 83, 49, 21, 48, 19, 6, 3, 85, 4, 10, 19, 12, 68, 105,
      103, 105, 67, 101, 114, 116, 32, 73, 110, 99, 49, 25, 48, 23, 6, 3, 85, 4, 11, 19, 16, 119, 119, 119,
      46, 100, 105, 103, 105, 99, 101, 114, 116, 46, 99, 111, 109, 49, 43, 48, 41, 6, 3, 85, 4, 3, 19, 34,
      68, 105, 103, 105, 67, 101, 114, 116, 32, 72, 105, 103, 104, 32, 65, 115, 115, 117, 114, 97, 110, 99, 101, 32,
      69, 86, 32, 82, 111, 111, 116, 32, 67, 65, 48, 130, 1, 34, 48, 13, 6, 9, 42, 134, 72, 134, 247, 13,
      1, 1, 1, 5, 0, 3, 130, 1, 15, 0, 48, 130, 1, 10, 2, 130, 1, 1, 0, 198, 204, 229, 115, 230,
      251, 212, 187, 229, 45, 45, 50, 166, 223, 229, 129, 63, 201, 205, 37, 73, 182, 113, 42, 195, 213, 148, 52, 103,
      162, 10, 28, 176, 95, 105, 166, 64, 177, 196, 183, 178, 143, 208, 152, 164, 169, 65, 89, 58, 211, 220, 148, 214,
      60, 219, 116, 56, 164, 74, 204, 77, 37, 130, 247, 74, 165, 83, 18, 56, 238, 243, 73, 109, 113, 145, 126, 99,
      182, 171, 166, 95, 195, 164, 132, 248, 79, 98, 81, 190, 248, 197, 236, 219, 56, 146, 227, 6, 229, 8, 145, 12,
      196, 40, 65, 85, 251, 203, 90, 137, 21, 126, 113, 232, 53, 191, 77, 114, 9, 61, 190, 58, 56, 80, 91, 119,
      49, 27, 141, 179, 199, 36, 69, 154, 167, 172, 109, 0, 20, 90, 4, 183, 186, 19, 235, 81, 10, 152, 65, 65,
      34, 78, 101, 97, 135, 129, 65, 80, 166, 121, 92, 137, 222, 25, 74, 87, 213, 46, 230, 93, 28, 83, 44, 126,
      152, 205, 26, 6, 22, 164, 104, 115, 208, 52, 4, 19, 92, 161, 113, 211, 90, 124, 85, 219, 94, 100, 225, 55,
      135, 48, 86, 4, 229, 17, 180, 41, 128, 18, 241, 121, 57, 136, 162, 2, 17, 124, 39, 102, 183, 136, 183, 120,
      242, 202, 10, 168, 56, 171, 10, 100, 194, 191, 102, 93, 149, 132, 193, 161, 37, 30, 135, 93, 26, 80, 11, 32,
      18, 204, 65, 187, 110, 11, 81, 56, 184, 75, 203, 2, 3, 1, 0, 1, 163, 99, 48, 97, 48, 14, 6, 3,
      85, 29, 15, 1, 1, 255, 4, 4, 3, 2, 1, 134, 48, 15, 6, 3, 85, 29, 19, 1, 1, 255, 4, 5,
      48, 3, 1, 1, 255, 48, 29, 6, 3, 85, 29, 14, 4, 22, 4, 20, 177, 62, 195, 105, 3, 248, 191, 71,
      1, 212, 152, 38, 26, 8, 2, 239, 99, 100, 43, 195, 48, 31, 6, 3, 85, 29, 35, 4, 24, 48, 22, 128,
      20, 177, 62, 195, 105, 3, 248, 191, 71, 1, 212, 152, 38, 26, 8, 2, 239, 99, 100, 43, 195, 48, 13, 6,
      9, 42, 134, 72, 134, 247, 13, 1, 1, 5, 5, 0, 3, 130, 1, 1, 0, 28, 26, 6, 151, 220, 215, 156,
      159, 60, 136, 102, 6, 8, 87, 33, 219, 33, 71, 248, 42, 103, 170, 191, 24, 50, 118, 64, 16, 87, 193, 138,
      243, 122, 217, 17, 101, 142, 53, 250, 158, 252, 69, 181, 158, 217, 76, 49, 75, 184, 145, 232, 67, 44, 142, 179,
      120, 206, 219, 227, 83, 121, 113, 214, 229, 33, 148, 1, 218, 85, 135, 154, 36, 100, 246, 138, 102, 204, 222, 156,
      55, 205, 168, 52, 177, 105, 155, 35, 200, 158, 120, 34, 43, 112, 67, 227, 85, 71, 49, 97, 25, 239, 88, 197,
      133, 47, 78, 48, 246, 160, 49, 22, 35, 200, 231, 226, 101, 22, 51, 203, 191, 26, 27, 160, 61, 248, 202, 94,
      139, 49, 139, 96, 8, 137, 45, 12, 6, 92, 82, 183, 196, 249, 10, 152, 209, 21, 95, 159, 18, 190, 124, 54,
      99, 56, 189, 68, 164, 127, 228, 38, 43, 10, 196, 151, 105, 13, 233, 140, 226, 192, 16, 87, 184, 200, 118, 18,
      145, 85, 242, 72, 105, 216, 188, 42, 2, 91, 15, 68, 212, 32, 49, 219, 244, 186, 112, 38, 93, 144, 96, 158,
      188, 75, 23, 9, 47, 180, 203, 30, 67, 104, 201, 7, 39, 193, 210, 92, 247, 234, 33, 185, 104, 18, 156, 60,
      156, 191, 158, 252, 128, 92, 155, 99, 205, 236, 71, 170, 37, 39, 103, 160, 55, 243, 0, 130, 125, 84, 215, 169,
      248, 233, 46, 19, 163, 119, 232, 31, 74]"

definition ensureCertificateFile :: "'w fs_api \<Rightarrow> char list \<Rightarrow> 'w \<Rightarrow> 'w" where
  "ensureCertificateFile F certificate w =
     (case fs_open F SSL_CA_CERT_FILE_NAME OpenRead (-1) w of (status, certificateFile, w) \<Rightarrow>
        if status < 0 then
          (case fs_open F SSL_CA_CERT_FILE_NAME OpenCreate (-1) (fs_close F certificateFile w) of (status, certificateFile, w) \<Rightarrow>
             if status < 0 then w
             else
               (case fs_open F SSL_CA_CERT_FILE_NAME OpenWrite (-1) (fs_close F certificateFile w) of (status, certificateFile, w) \<Rightarrow>
                  if status < 0 then fs_close F certificateFile w
                  else (case fs_write F certificateFile 0 certificate w of (_, w) \<Rightarrow> fs_close F certificateFile w)))
        else fs_close F certificateFile w)"

definition ensureCertificate :: "'w fs_api \<Rightarrow> 'w \<Rightarrow> 'w" where
  "ensureCertificate F = ensureCertificateFile F DigiCertHighAssuranceEVRootCA_der"

section \<open>What is in the file\<close>

lemma certificate_length: "length DigiCertHighAssuranceEVRootCA_der = 969"
  by (simp add: DigiCertHighAssuranceEVRootCA_der_def)

lemma certificate_installed:
  assumes fs: "working_fs F V" "missing_fails F V" and w: "contents V w SSL_CA_CERT_FILE_NAME = None"
  shows "contents V (ensureCertificate F w) SSL_CA_CERT_FILE_NAME = Some DigiCertHighAssuranceEVRootCA_der"
proof -
  let ?n = SSL_CA_CERT_FILE_NAME and ?x = DigiCertHighAssuranceEVRootCA_der
  obtain s0 h0 w0 where 0: "fs_open F ?n OpenRead (-1) w = (s0, h0, w0)" "s0 < 0" "contents V w0 ?n = None"
    using fs_missing_law [OF fs(2) w] by blast
  then have "contents V (fs_close F h0 w0) ?n = None" by (simp add: fs_close_law [OF fs(1)])
  then obtain s1 h1 w1 where 1: "fs_open F ?n OpenCreate (-1) (fs_close F h0 w0) = (s1, h1, w1)" "0 \<le> s1" "contents V w1 ?n = Some []"
    using fs_create_law [OF fs(1)] by blast
  then have "contents V (fs_close F h1 w1) ?n = Some []" by (simp add: fs_close_law [OF fs(1)])
  then obtain s2 h w2 where 2: "fs_open F ?n OpenWrite (-1) (fs_close F h1 w1) = (s2, h, w2)" "0 \<le> s2"
    "contents V w2 ?n = Some []" "opened V w2 h = Some ?n"
    using fs_open_write_law [OF fs(1)] by blast
  obtain w3 where 3: "fs_write F h 0 ?x w2 = (int (length ?x), w3)" "contents V w3 ?n = Some ?x"
    using fs_write_law [OF fs(1) 2(4,3), of ?x] by auto
  have "ensureCertificate F w = fs_close F h w3"
    using 0 1 2 3 by (simp add: ensureCertificate_def ensureCertificateFile_def)
  with 3 show ?thesis by (simp add: fs_close_law [OF fs(1)])
qed

text \<open>A file that is there is taken for the certificate, whatever it contains.\<close>

lemma certificate_kept:
  assumes fs: "working_fs F V" and w: "contents V w SSL_CA_CERT_FILE_NAME = Some d"
  shows "contents V (ensureCertificate F w) SSL_CA_CERT_FILE_NAME = Some d"
proof -
  obtain s h w' where "fs_open F SSL_CA_CERT_FILE_NAME OpenRead (-1) w = (s, h, w')" "0 \<le> s" "contents V w' SSL_CA_CERT_FILE_NAME = Some d"
    using fs_open_read_law [OF fs w] by blast
  then show ?thesis by (simp add: ensureCertificate_def ensureCertificateFile_def fs_close_law [OF fs])
qed

end
