(* ===== verification/Cc3200_Platform.thy ===== *)
theory Cc3200_Platform
  imports C_Memory "HOL-Library.Monad_Syntax"
begin

text \<open>
  The platform layer of the CC3200 below the push service: \<open>socketRead\<close> of
  \<^verbatim>\<open>cc3200/src/socket.c\<close> and the ping clock of \<^verbatim>\<open>cc3200/src/utils.c\<close>. The driver's
  \<open>select\<close> and \<open>recv\<close> are parameters over an arbitrary network state; a call of \<open>socketRead\<close> that
  never returns is \<open>None\<close>.
\<close>

section \<open>Sockets\<close>

text \<open>
  The driver: \<open>recv\<close> returns an error code or the bytes received, \<open>eagain\<close> is the code for no data
  yet and \<open>task\<close> the call that lets the driver work.
\<close>

record 'w net_api =
  select_call :: "nat \<Rightarrow> 'w \<Rightarrow> int \<times> 'w"
  recv_call :: "nat \<Rightarrow> 'w \<Rightarrow> (int + char list) \<times> 'w"
  eagain :: int
  task :: "'w \<Rightarrow> 'w"

partial_function (option) recv_loop ::
  "'w net_api \<Rightarrow> bool \<Rightarrow> nat \<Rightarrow> 'w \<Rightarrow> ((int + char list) \<times> 'w) option" where
  "recv_loop N readBlock n w =
     (case recv_call N n w of (r, w') \<Rightarrow>
        if r = Inl (eagain N) \<and> \<not> readBlock then recv_loop N readBlock n (task N w') else Some (r, w'))"

text \<open>The result of the outer loop: the last status, the bytes received and the network.\<close>

partial_function (option) read_loop ::
  "'w net_api \<Rightarrow> nat \<Rightarrow> nat \<Rightarrow> bool \<Rightarrow> char list \<Rightarrow> 'w \<Rightarrow> (int \<times> char list \<times> 'w) option" where
  "read_loop N sz timeout readBlock received w =
     (case select_call N (if readBlock then 10 * 1000 else timeout * 1000) w of (status, w1) \<Rightarrow>
        if status \<le> 0 then Some (status, received, w1)
        else
          Option.bind (recv_loop N readBlock (sz - length received - 1) w1) (\<lambda>(r, w2).
            case r of
              Inl e \<Rightarrow> Some (e, received, w2)
            | Inr bs \<Rightarrow>
                if length (received @ bs) < sz - 1 then read_loop N sz timeout True (received @ bs) w2
                else Some (int (length bs), received @ bs, w2)))"

text \<open>The result of \<open>socketRead\<close>: the returned value, the bytes written to the buffer and the network.\<close>

definition socketRead ::
  "'w net_api \<Rightarrow> int \<Rightarrow> nat \<Rightarrow> nat \<Rightarrow> 'w \<Rightarrow> ((int \<times> char list) \<times> 'w) option" where
  "socketRead N socketHandle receiveBufferSize timeoutMilliseconds w =
     (if socketHandle < 0 then Some ((socketHandle, []), w)
      else if receiveBufferSize = 0 then Some ((-1, []), w)
      else Option.bind (read_loop N receiveBufferSize timeoutMilliseconds False [] w) (\<lambda>(status, received, w').
        Some ((if status < 0 then status else int (length received), received @ [NUL]), w')))"

text \<open>What the driver promises: no more bytes than asked for, and error codes are negative.\<close>

definition recv_ok :: "'w net_api \<Rightarrow> bool" where
  "recv_ok N \<longleftrightarrow> (\<forall>n w. case fst (recv_call N n w) of Inl e \<Rightarrow> e < 0 | Inr bs \<Rightarrow> length bs \<le> n)"

definition recv_result_ok :: "nat \<Rightarrow> int + char list \<Rightarrow> bool" where
  "recv_result_ok n r \<longleftrightarrow> (case r of Inl e \<Rightarrow> e < 0 | Inr bs \<Rightarrow> length bs \<le> n)"

lemma recv_loop_ok:
  assumes "recv_ok N" and ret: "recv_loop N readBlock n w = Some q"
  shows "recv_result_ok n (fst q)"
proof -
  have "recv_ok N \<longrightarrow> recv_result_ok n (fst q)"
  proof (rule recv_loop.raw_induct [where P = "\<lambda>N b n w q. recv_ok N \<longrightarrow> recv_result_ok n (fst q)", OF _ ret])
    fix f N' b n' w' q'
    assume IH: "\<And>N b n w q. f N b n w = Some q \<Longrightarrow> recv_ok N \<longrightarrow> recv_result_ok n (fst q)"
      and eq: "(case recv_call N' n' w' of (r, w1) \<Rightarrow>
        if r = Inl (eagain N') \<and> \<not> b then f N' b n' (task N' w1) else Some (r, w1)) = Some q'"
    show "recv_ok N' \<longrightarrow> recv_result_ok n' (fst q')"
    proof
      assume ok: "recv_ok N'"
      obtain r w1 where r: "recv_call N' n' w' = (r, w1)" by fastforce
      have "recv_result_ok n' r"
        using ok r unfolding recv_ok_def recv_result_ok_def by (metis fst_conv)
      with eq [unfolded r prod.case] IH [of N' b n' "task N' w1" q'] ok show "recv_result_ok n' (fst q')"
        by (auto split: if_splits)
    qed
  qed
  with assms(1) show ?thesis by simp
qed

lemma read_loop_ok:
  assumes "recv_ok N" and "length received < sz" and ret: "read_loop N sz timeout b received w = Some q"
  shows "length (fst (snd q)) < sz"
proof -
  let ?P = "\<lambda>N sz t b received w q. recv_ok N \<longrightarrow> length received < sz \<longrightarrow>
    length (fst (snd q)) < sz"
  have "?P N sz timeout b received w q"
  proof (rule read_loop.raw_induct [where P = ?P, OF _ ret])
    fix f N sz timeout b received w q
    assume IH: "\<And>N sz t b received w q. f N sz t b received w = Some q \<Longrightarrow> ?P N sz t b received w q"
      and eq: "(case select_call N (if b then 10 * 1000 else timeout * 1000) w of (status, w1) \<Rightarrow>
        if status \<le> 0 then Some (status, received, w1)
        else Option.bind (recv_loop N b (sz - length received - 1) w1) (\<lambda>(r, w2).
            case r of Inl e \<Rightarrow> Some (e, received, w2)
            | Inr bs \<Rightarrow> if length (received @ bs) < sz - 1 then f N sz timeout True (received @ bs) w2
                else Some (int (length bs), received @ bs, w2))) = Some q"
    show "?P N sz timeout b received w q"
    proof (intro impI)
      assume ok: "recv_ok N" and len: "length received < sz"
      obtain s w1 where s: "select_call N (if b then 10 * 1000 else timeout * 1000) w = (s, w1)" by fastforce
      show "length (fst (snd q)) < sz"
      proof (cases "s \<le> 0")
        case True
        with eq s len show ?thesis by auto
      next
        case False
        with eq s obtain r w2 where r: "recv_loop N b (sz - length received - 1) w1 = Some (r, w2)"
          by (cases "recv_loop N b (sz - length received - 1) w1") auto
        from recv_loop_ok [OF ok r] have rok: "recv_result_ok (sz - length received - 1) r" by simp
        show ?thesis
        proof (cases r)
          case (Inl e)
          with eq s r False len show ?thesis by auto
        next
          case (Inr bs)
          with rok len have "length (received @ bs) < sz" by (simp add: recv_result_ok_def)
          with eq s r False Inr IH [of N sz timeout True "received @ bs" w2 q] ok show ?thesis
            by (auto split: if_splits)
        qed
      qed
    qed
  qed
  with assms(1,2) show ?thesis by simp
qed

lemma socketRead_written:
  assumes "recv_ok N" and "0 \<le> socketHandle" and "0 < sz"
    and "socketRead N socketHandle sz timeout w = Some ((len, written), w')"
  shows "\<exists>received. written = received @ [NUL] \<and> length written \<le> sz \<and> (len < 0 \<or> len = int (length received)) \<and> len < int sz"
proof -
  from assms(2-4) obtain s received where r: "read_loop N sz timeout False [] w = Some (s, received, w')"
    and *: "len = (if s < 0 then s else int (length received))" "written = received @ [NUL]"
    by (cases "read_loop N sz timeout False [] w") (auto simp: socketRead_def split: if_splits)
  from read_loop_ok [OF assms(1) _ r] assms(3) have "length received < sz" by simp
  with * show ?thesis by auto
qed

text \<open>
  \<open>socketRead\<close> stays within its buffer: it writes the bytes it received and a terminator, no more
  than the size of the buffer, and the length it returns is the number of bytes received, so always
  smaller than the size.
\<close>

theorem socketRead_bounds:
  assumes "recv_ok N" and "0 \<le> socketHandle" and "0 < sz"
    and "socketRead N socketHandle sz timeout w = Some ((len, written), w')"
  shows "\<exists>received. written = received @ [NUL] \<and> length written \<le> sz \<and> (len < 0 \<or> len = int (length received)) \<and> len < int sz"
  using assms by (rule socketRead_written)

text \<open>A network for examples: every wait succeeds as long as there are chunks, and \<open>recv\<close> cuts them.\<close>

definition chunk_net :: "char list list net_api" where
  "chunk_net = \<lparr>select_call = (\<lambda>t w. (if w = [] then 0 else 1, w)),
     recv_call = (\<lambda>n w. case w of [] \<Rightarrow> (Inl (-11), []) | c # w' \<Rightarrow> (Inr (take n c), w')),
     eagain = -11, task = id\<rparr>"

lemma chunk_net_ok: "recv_ok chunk_net"
  by (auto simp: recv_ok_def chunk_net_def split: list.split)

lemma chunk_net_read: "socketRead chunk_net 3 8 3000 [''ab'', ''cd''] = Some ((4, ''abcd'' @ [NUL]), [])"
  by (simp add: socketRead_def read_loop.simps recv_loop.simps chunk_net_def)

theorem socketRead_bounds_witness: "length (''abcd'' @ [NUL]) \<le> 8 \<and> (4 :: int) < 8"
  using socketRead_bounds [OF chunk_net_ok _ _ chunk_net_read] by auto

text \<open>
  A connection that the server closes makes \<open>socketRead\<close> hang: when every wait reports the socket
  readable and \<open>recv\<close> returns no byte, as it does at the end of a stream, the call never returns.
\<close>

theorem socketRead_hangs_at_end:
  fixes N :: "'w net_api"
  assumes "\<And>t w. 0 < fst (select_call N t w)" and "\<And>n w. fst (recv_call N n w) = Inr []"
    and "0 \<le> socketHandle" and "1 < sz"
  shows "socketRead N socketHandle sz timeout w = None"
proof -
  have recv: "recv_loop N b n w = Some (recv_call N n w)" for b n w
    using assms(2) [of n w] by (cases "recv_call N n w") (simp add: recv_loop.simps)
  have "read_loop N sz timeout b [] w \<noteq> Some q" for b q w
  proof
    let ?P = "\<lambda>M z (t :: nat) (b :: bool) (received :: char list) (w :: 'w) (q :: int \<times> char list \<times> 'w). M = N \<longrightarrow> z = sz \<longrightarrow> received \<noteq> []"
    assume ret: "read_loop N sz timeout b [] w = Some q"
    have "?P N sz timeout b [] w q"
    proof (rule read_loop.raw_induct [where P = ?P, OF _ ret])
      fix f M z timeout b received w q
      assume IH: "\<And>M z t b received w q. f M z t b received w = Some q \<Longrightarrow> ?P M z t b received w q"
        and eq: "(case select_call M (if b then 10 * 1000 else timeout * 1000) w of (status, w1) \<Rightarrow>
          if status \<le> 0 then Some (status, received, w1)
          else Option.bind (recv_loop M b (z - length received - 1) w1) (\<lambda>(r, w2).
              case r of Inl e \<Rightarrow> Some (e, received, w2)
              | Inr bs \<Rightarrow> if length (received @ bs) < z - 1 then f M z timeout True (received @ bs) w2
                  else Some (int (length bs), received @ bs, w2))) = Some q"
      show "?P M z timeout b received w q"
      proof (intro impI notI)
        assume *: "M = N" "z = sz" "received = []"
        obtain s w1 where s: "select_call N (if b then 10 * 1000 else timeout * 1000) w = (s, w1)" by fastforce
        have "0 < s" using assms(1) [of "if b then 10 * 1000 else timeout * 1000" w] s by simp
        moreover obtain w2 where "recv_call N (sz - 1) w1 = (Inr [], w2)" using assms(2) [of "sz - 1" w1] by (metis prod.collapse)
        ultimately have "f N sz timeout True [] w2 = Some q" using eq assms(4) s by (simp add: * recv)
        with IH show False by blast
      qed
    qed
    then show False by simp
  qed
  then have "read_loop N sz timeout False [] w = None" by (cases "read_loop N sz timeout False [] w") auto
  with assms(3,4) show ?thesis by (simp add: socketRead_def)
qed

theorem socketRead_hangs_at_end_witness:
  "socketRead \<lparr>select_call = (\<lambda>t w. (1, w)), recv_call = (\<lambda>n w. (Inr [], w)), eagain = -11, task = id\<rparr> 3 1024 3000 () = None"
  by (rule socketRead_hangs_at_end) simp_all

section \<open>The ping clock\<close>

text \<open>
  \<open>SlDateTime_t\<close> has 32-bit fields. The subtraction wraps, \<open>long\<close> reads the difference as signed, and
  in the lines for minutes and hours the conditional operator takes the whole difference as its
  condition. \<open>unsigned long\<close> adds up modulo \<open>2\<^sup>3\<^sup>2\<close>, and the result is returned as \<open>int\<close>.
\<close>

record date_time =
  sl_tm_sec :: "32 word"
  sl_tm_min :: "32 word"
  sl_tm_hour :: "32 word"

definition timeDiffInSec :: "date_time \<Rightarrow> date_time \<Rightarrow> int" where
  "timeDiffInSec dt1 dt2 =
     (let temp = sint (sl_tm_sec dt2 - sl_tm_sec dt1);
          result = word_of_int (if temp < 0 then 60 + temp else temp) :: 32 word;
          temp = (if sl_tm_min dt2 - sl_tm_min dt1 - (if temp < 0 then 1 else 0) \<noteq> 0 then 1 else 0);
          result = result + word_of_int (if temp < 0 then 60 + temp else temp);
          temp = (if sl_tm_hour dt2 - sl_tm_hour dt1 - (if temp < 0 then 1 else 0) \<noteq> 0 then 1 else 0) :: int;
          result = result + word_of_int (if temp < 0 then 24 + temp else temp)
      in sint result)"

definition PUSH_KEEP_ALIVE :: int where
  "PUSH_KEEP_ALIVE = 10 * 60 * 1000"

definition isPingTime :: "date_time \<Rightarrow> date_time \<Rightarrow> bool" where
  "isPingTime dateTime lastDateTime \<longleftrightarrow> timeDiffInSec dateTime lastDateTime > PUSH_KEEP_ALIVE"

lemma sint_small: "- 2147483648 \<le> x \<Longrightarrow> x < 2147483648 \<Longrightarrow> sint (word_of_int x :: 32 word) = x"
  by (simp add: signed_of_int signed_take_bit_int_eq_self)

lemma seconds_diff:
  assumes "unat (a :: 32 word) < 60" "unat (b :: 32 word) < 60"
  shows "sint (a - b) = int (unat a) - int (unat b)"
proof -
  have "a - b = word_of_int (int (unat a) - int (unat b))" by (simp add: wi_hom_sub [symmetric])
  moreover have "sint (word_of_int (int (unat a) - int (unat b)) :: 32 word) = int (unat a) - int (unat b)"
    using assms by (intro sint_small) linarith+
  ultimately show ?thesis by simp
qed

lemma timeDiffInSec_le:
  assumes "unat (sl_tm_sec dt1) < 60" "unat (sl_tm_sec dt2) < 60"
  shows "timeDiffInSec dt1 dt2 \<le> 61"
proof -
  define d where "d = int (unat (sl_tm_sec dt2)) - int (unat (sl_tm_sec dt1))"
  define k where "k = (if d < 0 then 60 + d else d)"
  have "- 60 < d" "d < 60" unfolding d_def using assms by linarith+
  then have k: "0 \<le> k" "k \<le> 59" by (auto simp: k_def)
  define i :: int where "i = (if sl_tm_min dt2 - sl_tm_min dt1 - (if d < 0 then 1 else 0) \<noteq> 0 then 1 else 0)"
  define j :: int where "j = (if sl_tm_hour dt2 - sl_tm_hour dt1 - (if i < 0 then 1 else 0) \<noteq> 0 then 1 else 0)"
  have ij: "0 \<le> i" "i \<le> 1" "0 \<le> j" "j \<le> 1" by (simp_all add: i_def j_def)
  then have "\<not> i < 0" "\<not> j < 0" by simp_all
  then have diff: "timeDiffInSec dt1 dt2 = sint (word_of_int k + word_of_int i + word_of_int j :: 32 word)"
    unfolding timeDiffInSec_def Let_def seconds_diff [OF assms(2,1)] d_def [symmetric] i_def [symmetric]
      j_def [symmetric] k_def [symmetric] by (simp only: if_False)
  have "word_of_int k + word_of_int i + word_of_int j = (word_of_int (k + i + j) :: 32 word)" by (simp only: wi_hom_add)
  moreover have "sint (word_of_int (k + i + j) :: 32 word) = k + i + j" using k ij by (intro sint_small) linarith+
  ultimately have "timeDiffInSec dt1 dt2 = k + i + j" using diff by (simp only:)
  then show ?thesis using ij k by linarith
qed

text \<open>
  The keep-alive ping is never due: whatever two times of day the clock reports, the difference that
  is computed is at most 61, and \<open>isPingTime\<close> compares it with 600000.
\<close>

theorem isPingTime_never:
  assumes "unat (sl_tm_sec dateTime) < 60" "unat (sl_tm_sec lastDateTime) < 60"
  shows "\<not> isPingTime dateTime lastDateTime"
  using timeDiffInSec_le [OF assms] by (simp add: isPingTime_def PUSH_KEEP_ALIVE_def)

theorem isPingTime_never_witness:
  "\<not> isPingTime \<lparr>sl_tm_sec = 30, sl_tm_min = 59, sl_tm_hour = 23\<rparr> \<lparr>sl_tm_sec = 0, sl_tm_min = 0, sl_tm_hour = 0\<rparr>"
  by (rule isPingTime_never) simp_all

end
