(* ===== verification/Cc3200_Push.thy ===== *)
theory Cc3200_Push
  imports Rtos_Push Cc3200_Platform
begin

text \<open>
  The push service on the CC3200: \<open>socketWrite\<close> of \<^verbatim>\<open>cc3200/src/socket.c\<close>, the platform record
  built from the modelled platform layer, and what the service does on it. The clock's
  \<open>lastDateTime\<close>, a static variable of \<^verbatim>\<open>cc3200/src/utils.c\<close>, is part of the state of the platform.
\<close>

section \<open>The platform\<close>

record 'w board =
  driver :: "'w net_api"
  send_call :: "int \<Rightarrow> string \<Rightarrow> 'w \<Rightarrow> int \<times> 'w"
  clock :: "'w \<Rightarrow> date_time"

definition socketWrite :: "(int \<Rightarrow> string \<Rightarrow> 'w \<Rightarrow> int \<times> 'w) \<Rightarrow> int \<Rightarrow> string \<Rightarrow> 'w \<Rightarrow> int \<times> 'w" where
  "socketWrite send h sendBuffer w =
     (if h < 0 then (h, w)
      else if length sendBuffer > 0 then send h sendBuffer w
      else (0, w))"

definition updateLastPingTime :: "'w board \<Rightarrow> 'w \<times> date_time \<Rightarrow> 'w \<times> date_time" where
  "updateLastPingTime B = (\<lambda>(w, lastDateTime). (w, clock B w))"

definition cc3200 :: "'w board \<Rightarrow> ('w \<times> date_time) platform" where
  "cc3200 B =
     \<lparr>sock_read = (\<lambda>h n t (w, lastDateTime).
        case socketRead (driver B) h n t w of
          None \<Rightarrow> Inl NoReturn
        | Some (r, w') \<Rightarrow> Inr (r, (w', lastDateTime))),
      sock_write = (\<lambda>h s (w, lastDateTime). case socketWrite (send_call B) h s w of (r, w') \<Rightarrow> (r, (w', lastDateTime))),
      ping_due = (\<lambda>(w, lastDateTime). isPingTime (clock B w) lastDateTime),
      ping_sent = updateLastPingTime B\<rparr>"

text \<open>The reads of the CC3200 are terminated.\<close>

interpretation cc: terminated_reads cc3200 "\<lambda>B. recv_ok (driver B)"
proof
  fix B :: "'a board" and h :: int and n t :: nat and w :: "'a \<times> date_time"
  assume ok: "recv_ok (driver B)" and h: "0 < h" and n: "0 < n"
  obtain v d where w: "w = (v, d)" by (cases w)
  show "sock_read (cc3200 B) h n t w = Inl NoReturn \<or>
    (\<exists>len received w'. sock_read (cc3200 B) h n t w = Inr ((len, received @ [NUL]), w') \<and>
       length received < n \<and> (len < 0 \<or> len = int (length received)))"
  proof (cases "socketRead (driver B) h n t v")
    case None
    then show ?thesis by (simp add: cc3200_def w)
  next
    case (Some q)
    obtain len written v' where q: "q = ((len, written), v')" by (metis prod.collapse)
    from socketRead_written [OF ok less_imp_le [OF h] n Some [unfolded q]] Some q show ?thesis
      by (auto simp: cc3200_def w)
  qed
qed

section \<open>Correctness\<close>

text \<open>
  C5. The push service is memory safe on the CC3200: however the network behaves, every sequence of
  calls either waits for a read that never returns or ends in a state whose buffers have their sizes
  and whose count of bytes stays between -1 and 1023; no call reads or writes outside of the receive
  buffer or of the buffer for the time of the last push.
\<close>

theorem cc3200_push_safe:
  assumes "recv_ok (driver B)" "service_inv st"
  shows "parseRunPushLoop n (cc3200 B) st = Inl NoReturn \<or>
    (\<exists>st'. parseRunPushLoop n (cc3200 B) st = Inr st' \<and> service_inv st')"
  using assms by (rule cc.loop_safe)

text \<open>A board for examples.\<close>

definition demo_board :: "char list list board" where
  "demo_board = \<lparr>driver = chunk_net, send_call = (\<lambda>h s w. (int (length s), w)),
     clock = (\<lambda>w. \<lparr>sl_tm_sec = 0, sl_tm_min = 0, sl_tm_hour = 0\<rparr>)\<rparr>"

definition demo_time :: date_time where
  "demo_time = \<lparr>sl_tm_sec = 0, sl_tm_min = 0, sl_tm_hour = 0\<rparr>"

lemma demo_board_ok: "recv_ok (driver demo_board)"
  by (simp add: demo_board_def chunk_net_ok)

lemma demo_service_inv: "service_inv (demo_service w)"
  by (simp add: service_inv_def demo_service_def RECEIVE_BUFFER_SIZE_def PUSH_TIME_MAX_LEN_def)

theorem cc3200_push_safe_witness:
  "parseRunPushLoop 2 (cc3200 demo_board) (demo_service ([''{}''], demo_time)) = Inl NoReturn \<or>
    (\<exists>st'. parseRunPushLoop 2 (cc3200 demo_board) (demo_service ([''{}''], demo_time)) = Inr st' \<and> service_inv st')"
  by (rule cc3200_push_safe [OF demo_board_ok demo_service_inv])

text \<open>
  C33. A message can silence the service for good. When the newline after a message has not arrived with
  it, or when a message follows a single character, such as the second half of a CR LF, and is followed
  by anything, the message is delivered, but after that call the service never passes on a message
  again, whatever arrives: in the first case the count of bytes is -1 and nothing is read any more, in
  the second a terminator stands at the start of the buffer.
\<close>

theorem push_goes_deaf:
  assumes "recv_ok (driver B)" and c: "read_completes (cc3200 B) st js ps rest buf w"
    and "js = [] \<and> rest = [] \<or> length (text_of js) = 1 \<and> rest \<noteq> []"
  shows "\<exists>r st'. parseProcessNextPushNotification (cc3200 B) st = Inr (r, st') \<and>
    messages (effects st') = messages (effects st) @ (if prefix ''{}'' (text_of ps) \<or> \<not> callback st then [] else [text_of ps]) \<and>
    (\<forall>n. parseRunPushLoop n (cc3200 B) st' = Inl NoReturn \<or>
      (\<exists>st''. parseRunPushLoop n (cc3200 B) st' = Inr st'' \<and> messages (effects st'') = messages (effects st')))"
proof -
  let ?u = "int (length (text_of js)) + int (length rest) - 1"
  from process_completes [OF c refl] obtain saved buf' time r st' where p: "set saved \<subseteq> {Saved}"
    "parseProcessNextPushNotification (cc3200 B) st = Inr (r, st')"
    "st' = st\<lparr>world := w, pushDataBuffer := buf', lastPushTime := time, pushDataBufferUsed := ?u,
         effects := effects st @ saved @ delivered (callback st) (text_of ps)\<rparr>"
    "length buf' = RECEIVE_BUFFER_SIZE" "length time = Suc PUSH_TIME_MAX_LEN"
    "0 < ?u \<longrightarrow> take (nat ?u) buf' =
       take (nat ?u) (drop (Suc (length (text_of ps))) (buf[length (text_of js) + length (text_of ps) := NUL]))"
    by blast
  have deaf: "deaf st'"
  proof (cases "rest = []")
    case True
    with assms(3) p(3) show ?thesis by (simp add: deaf_def)
  next
    case False
    with assms(3) have l: "length (text_of js) = 1" by auto
    have lb: "Suc (length (text_of ps)) < length buf" using c l poke_length unfolding read_completes_def by fastforce
    have "0 < nat ?u" using l False by simp
    with p(6) have "buf' ! 0 = drop (Suc (length (text_of ps))) (buf[length (text_of js) + length (text_of ps) := NUL]) ! 0"
      by (metis nth_take zero_less_nat_eq)
    also have "\<dots> = NUL" using l lb by simp
    finally show ?thesis using p(3) l False by (cases rest) (auto simp: deaf_def)
  qed
  have "?u < int RECEIVE_BUFFER_SIZE" using c unfolding read_completes_def by (auto dest!: arg_cong [where f = length])
  then have "service_inv st'" using p(3-5) by (simp add: service_inv_def)
  with cc.deaf_loop [OF assms(1) _ deaf] p(1-3) show ?thesis by (auto simp: messages_saved messages_delivered)
qed

theorem push_goes_deaf_witness:
  "\<exists>r st'. parseProcessNextPushNotification (cc3200 demo_board) (demo_service ([text_of demo_object], demo_time)) = Inr (r, st') \<and>
    messages (effects st') = [text_of demo_object] \<and>
    (\<forall>n. parseRunPushLoop n (cc3200 demo_board) st' = Inl NoReturn \<or>
      (\<exists>st''. parseRunPushLoop n (cc3200 demo_board) st' = Inr st'' \<and> messages (effects st'') = messages (effects st')))"
proof -
  have read: "sock_read (cc3200 demo_board) 3 1024 3000 ([text_of demo_object], demo_time) =
      Inr ((int (length (text_of [] @ text_of demo_object @ [])), (text_of [] @ text_of demo_object @ []) @ [NUL]), ([], demo_time))"
    by (simp add: cc3200_def demo_board_def socketRead_def read_loop.simps recv_loop.simps chunk_net_def demo_object_def)
  have "is_junk []" "length (text_of []) + length (text_of demo_object) + length ([] :: string) < 1023"
    by (simp_all add: is_junk_def demo_object_def)
  note demo_completes [OF this(1) demo_object_ok(1) this(2) read]
  from push_goes_deaf [OF demo_board_ok this] show ?thesis
    by (simp add: demo_service_def messages_def List.map_filter_def) (simp add: demo_object_def)
qed

text \<open>
  A message that does not fit is never dropped: \<open>socketRead\<close> keeps a byte for its terminator, so the
  receive buffer never holds more than 1023 bytes and the test for a full buffer never succeeds. Once
  1023 bytes are in use, no later call passes on a message, whatever arrives.
\<close>

theorem cc3200_full_buffer:
  assumes "recv_ok (driver B)" "service_inv st" "pushDataBufferUsed st = 1023"
  shows "parseRunPushLoop n (cc3200 B) st = Inl NoReturn \<or>
    (\<exists>st'. parseRunPushLoop n (cc3200 B) st = Inr st' \<and> messages (effects st') = messages (effects st))"
  using cc.deaf_loop [OF assms(1,2)] assms(3) by (simp add: deaf_def RECEIVE_BUFFER_SIZE_def)

theorem cc3200_full_buffer_witness:
  "parseRunPushLoop 5 (cc3200 demo_board) (demo_service ([''x''], demo_time)\<lparr>pushDataBufferUsed := 1023\<rparr>) = Inl NoReturn \<or>
    (\<exists>st'. parseRunPushLoop 5 (cc3200 demo_board) (demo_service ([''x''], demo_time)\<lparr>pushDataBufferUsed := 1023\<rparr>) = Inr st' \<and>
      messages (effects st') = [])"
proof -
  have "service_inv (demo_service ([''x''], demo_time)\<lparr>pushDataBufferUsed := 1023\<rparr>)"
    using demo_service_inv [of "([''x''], demo_time)"] by (simp add: service_inv_def RECEIVE_BUFFER_SIZE_def)
  from cc3200_full_buffer [OF demo_board_ok this, of 5] show ?thesis
    by (simp add: demo_service_def messages_def List.map_filter_def)
qed

end
