(* ===== verification/Rtos_Installation.thy ===== *)
theory Rtos_Installation
  imports Rtos_Client
begin

text \<open>
  \<^verbatim>\<open>rtos/installation.c\<close>, \<^verbatim>\<open>rtos/session.c\<close> and \<open>parseSendRequest\<close>: how a device registers its installation and
  its session. The callbacks run on the device while the answer still lies in the request buffer.
\<close>

section \<open>Definitions\<close>

text \<open>The answer that a callback gets: a pointer into the request buffer, or null.\<close>

definition body_data :: "nat option \<Rightarrow> 'w device \<Rightarrow> char list option" where
  "body_data body st = map_option (\<lambda>d. drop d (dataBuffer st)) body"

definition is_success :: "int \<Rightarrow> int \<Rightarrow> bool" where
  "is_success error httpStatus \<longleftrightarrow> error = 0 \<and> (httpStatus \<ge> 200 \<and> httpStatus < 300)"

definition read_objectId :: "char list option \<Rightarrow> 'w device \<Rightarrow> mem_error + 'w device" where
  "read_objectId json st =
     bindE (json_field json ''objectId'' (installationObjectId (client st)) (OBJECT_ID_MAX_LEN + 1)) (\<lambda>(_, m).
       Inr (st\<lparr>client := (client st)\<lparr>installationObjectId := m\<rparr>\<rparr>))"

definition read_installationId :: "char list option \<Rightarrow> 'w device \<Rightarrow> mem_error + 'w device" where
  "read_installationId json st =
     bindE (json_field json ''installationId'' (installationId (client st)) (INSTALLATION_ID_MAX_LEN + 1)) (\<lambda>(_, m).
       Inr (st\<lparr>client := (client st)\<lparr>installationId := m\<rparr>\<rparr>))"

definition clear_objectId :: "'w device \<Rightarrow> 'w device" where
  "clear_objectId st = st\<lparr>client := (client st)\<lparr>installationObjectId := zeros (OBJECT_ID_MAX_LEN + 1)\<rparr>\<rparr>"

definition createInstallationCallback :: "'w device request_callback" where
  "createInstallationCallback error httpStatus httpResponseBody st =
     (if is_success error httpStatus then read_objectId (body_data httpResponseBody st) st
      else Inr (clear_objectId st))"

definition getInstallationCallback :: "'w device request_callback" where
  "getInstallationCallback error httpStatus httpResponseBody st =
     (if is_success error httpStatus then
        bindE (read_objectId (body_data httpResponseBody st) st) (\<lambda>st.
          read_installationId (body_data httpResponseBody st) st)
      else Inr (clear_objectId st))"

definition getInstallationByIdCallback :: "'w device request_callback" where
  "getInstallationByIdCallback error httpStatus httpResponseBody st =
     (if is_success error httpStatus then
        bindE (json_field (body_data httpResponseBody st) ''results'' (zeros 400) 400) (\<lambda>(status, queryResults).
          if status \<and> queryResults ! 1 = CHR ''{'' then
            bindE (read_objectId (Some (drop 1 queryResults)) st) (\<lambda>st.
              read_installationId (Some (drop 1 queryResults)) st)
          else Inr st)
      else Inr (clear_objectId st))"

text \<open>The text that \<open>snprintf\<close> of size \<open>n\<close> leaves in a local array.\<close>

definition printed :: "nat \<Rightarrow> string \<Rightarrow> string" where
  "printed n s = take (n - 1) s"

abbreviation (input) quoted :: "string \<Rightarrow> string" where
  "quoted s \<equiv> CHR 0x22 # s @ [CHR 0x22]"

definition create_body :: "string \<Rightarrow> string" where
  "create_body i = printed (120 - 1) (''{'' @ quoted ''installationId'' @ '': '' @ quoted i @ '', '' @
     quoted ''deviceType'' @ '': '' @ quoted ''embedded'' @ '', '' @ quoted ''parseVersion'' @ '': '' @ quoted ''1.0.0'' @ ''}'')"

definition by_object_path :: "string \<Rightarrow> string" where
  "by_object_path i = printed (150 - 1) (''/1/installations/'' @ i)"

definition by_id_query :: "string \<Rightarrow> string" where
  "by_id_query i = printed (150 - 1) (''where=%7b%22installationId%22%3a+%22'' @ i @ ''%22%7d'')"

definition new_installation_id :: "'w client_platform \<Rightarrow> 'w device \<Rightarrow> mem_error + 'w device" where
  "new_installation_id P st =
     (case createNewInstallationId P (installationId (client st)) (network st) of (r, w) \<Rightarrow>
        bindE r (\<lambda>m. Inr (st\<lparr>client := (client st)\<lparr>installationId := m\<rparr>, network := w\<rparr>)))"

definition createInstallation :: "'w client_platform \<Rightarrow> 'w device \<Rightarrow> mem_error + 'w device" where
  "createInstallation P st =
     (if c_string (installationObjectId (client st)) = [] then
        bindE (if c_string (installationId (client st)) = [] then new_installation_id P st else Inr st) (\<lambda>st.
          send P ''POST'' ''/1/installations'' (Some (create_body (c_string (installationId (client st)))))
            (Some createInstallationCallback) False st)
      else Inr st)"

definition getInstallation :: "'w client_platform \<Rightarrow> 'w device \<Rightarrow> mem_error + 'w device" where
  "getInstallation P st =
     (let objectId = c_string (installationObjectId (client st)); instId = c_string (installationId (client st)) in
      if objectId \<noteq> [] \<and> instId \<noteq> [] then Inr st
      else
        bindE
          (if objectId \<noteq> [] then
             send P ''GET'' (by_object_path objectId) None (Some getInstallationCallback) False st
           else if instId \<noteq> [] then
             send P ''GET'' ''/1/installations'' (Some (by_id_query instId)) (Some getInstallationByIdCallback) False st
           else Inr st)
          (createInstallation P))"

text \<open>\<open>tolower\<close> on a byte of the array.\<close>

definition lower :: "char \<Rightarrow> char" where
  "lower c = char_of (nat (tolower c))"

definition parseSetInstallationId :: "'w client_platform \<Rightarrow> string option \<Rightarrow> 'w device \<Rightarrow> mem_error + 'w device" where
  "parseSetInstallationId P newId st =
     (if newId \<noteq> None \<and> the newId \<noteq> [] then
        if strncasecmp_eq (c_string (installationId (client st))) (the newId) INSTALLATION_ID_MAX_LEN then Inr st
        else
          bindE (strncpy (installationId (client st)) (the newId) INSTALLATION_ID_MAX_LEN) (\<lambda>m.
          bindE (getInstallation P (st\<lparr>client := (client st)\<lparr>installationId := map lower m\<rparr>\<rparr>)) (\<lambda>st.
            Inr (save P st)))
      else if c_string (installationId (client st)) = [] then Inr st
      else Inr (save P (st\<lparr>client := (client st)\<lparr>installationId := zeros (INSTALLATION_ID_MAX_LEN + 1)\<rparr>\<rparr>)))"

definition parseGetInstallationId :: "'w device \<Rightarrow> string option" where
  "parseGetInstallationId st =
     (if c_string (installationId (client st)) = [] then None else Some (c_string (installationId (client st))))"

definition associateSessionWithInstallation :: "'w client_platform \<Rightarrow> 'w device \<Rightarrow> mem_error + 'w device" where
  "associateSessionWithInstallation P st =
     (if c_string (installationObjectId (client st)) \<noteq> [] then
        send P ''PUT'' ''/1/sessions/me'' (Some (''{}'' @ CRLF)) None True st
      else Inr st)"

text \<open>The local array of \<open>getSessionCallback\<close> is only printed; the model starts it with zeros.\<close>

definition getSessionCallback :: "'w client_platform \<Rightarrow> 'w device request_callback" where
  "getSessionCallback P error httpStatus httpResponseBody st =
     (if is_success error httpStatus then
        bindE (json_field (body_data httpResponseBody st) ''installationId'' (zeros (INSTALLATION_ID_MAX_LEN + 1)) (INSTALLATION_ID_MAX_LEN + 1))
          (\<lambda>(status, _). if \<not> status then associateSessionWithInstallation P st else Inr st)
      else Inr st)"

definition getSession :: "'w client_platform \<Rightarrow> 'w device \<Rightarrow> mem_error + 'w device" where
  "getSession P st =
     bindE (getInstallation P st) (send P ''GET'' ''/1/sessions/me'' None (Some (getSessionCallback P)) True)"

definition parseSetSessionToken :: "'w client_platform \<Rightarrow> string option \<Rightarrow> 'w device \<Rightarrow> mem_error + 'w device" where
  "parseSetSessionToken P token st =
     (if token \<noteq> None \<and> the token \<noteq> [] then
        if strncasecmp_eq (c_string (sessionToken (client st))) (the token) SESSION_TOKEN_MAX_LEN then Inr st
        else
          bindE (strncpy (sessionToken (client st)) (the token) SESSION_TOKEN_MAX_LEN) (\<lambda>m.
          bindE (getSession P (st\<lparr>client := (client st)\<lparr>sessionToken := m\<rparr>\<rparr>)) (\<lambda>st.
            Inr (save P st)))
      else if c_string (sessionToken (client st)) = [] then Inr st
      else Inr (save P (st\<lparr>client := (client st)\<lparr>sessionToken := zeros (SESSION_TOKEN_MAX_LEN + 1)\<rparr>\<rparr>)))"

definition parseClearSessionToken :: "'w client_platform \<Rightarrow> 'w device \<Rightarrow> mem_error + 'w device" where
  "parseClearSessionToken P st = parseSetSessionToken P None st"

definition parseGetSessionToken :: "'w device \<Rightarrow> string option" where
  "parseGetSessionToken st =
     (if c_string (sessionToken (client st)) = [] then None else Some (c_string (sessionToken (client st))))"

text \<open>A request of the application; \<open>cb\<close> says whether it has a callback.\<close>

definition parseSendRequest ::
  "'w client_platform \<Rightarrow> string \<Rightarrow> string \<Rightarrow> string option \<Rightarrow> bool \<Rightarrow> 'w device \<Rightarrow> mem_error + 'w device" where
  "parseSendRequest P httpVerb httpPath body cb st =
     bindE (getInstallation P st)
       (send P httpVerb httpPath body (if cb then Some application_callback else None) True)"

section \<open>Types are kept\<close>

lemma device_ok_updates [simp]:
  "device_ok (st\<lparr>network := w\<rparr>) \<longleftrightarrow> device_ok st"
  "device_ok (st\<lparr>requests := rs\<rparr>) \<longleftrightarrow> device_ok st"
  "device_ok (st\<lparr>events := es\<rparr>) \<longleftrightarrow> device_ok st"
  "device_ok (st\<lparr>client := c\<rparr>) \<longleftrightarrow> length (dataBuffer st) = 1024 \<and> client_ok c"
  by (simp_all add: device_ok_def)

lemma device_okD: "device_ok st \<Longrightarrow> client_ok (client st)" "device_ok st \<Longrightarrow> length (dataBuffer st) = 1024"
  by (simp_all add: device_ok_def)

lemma client_ok_updates:
  "client_ok c \<Longrightarrow> str_field OBJECT_ID_MAX_LEN m \<Longrightarrow> client_ok (c\<lparr>installationObjectId := m\<rparr>)"
  "client_ok c \<Longrightarrow> str_field INSTALLATION_ID_MAX_LEN m \<Longrightarrow> client_ok (c\<lparr>installationId := m\<rparr>)"
  "client_ok c \<Longrightarrow> str_field SESSION_TOKEN_MAX_LEN m \<Longrightarrow> client_ok (c\<lparr>sessionToken := m\<rparr>)"
  by (simp_all add: client_ok_def)

lemma client_ok_fields:
  "client_ok c \<Longrightarrow> str_field OBJECT_ID_MAX_LEN (installationObjectId c)"
  "client_ok c \<Longrightarrow> str_field INSTALLATION_ID_MAX_LEN (installationId c)"
  "client_ok c \<Longrightarrow> str_field SESSION_TOKEN_MAX_LEN (sessionToken c)"
  by (simp_all add: client_ok_def)

lemmas client_types = device_okD client_ok_updates client_ok_fields

lemma read_objectId_typed: "device_ok st \<Longrightarrow> typed (read_objectId json st)"
  unfolding read_objectId_def
proof (rule typed_bind)
  fix r assume ok: "device_ok st"
    and r: "json_field json ''objectId'' (installationObjectId (client st)) (OBJECT_ID_MAX_LEN + 1) = Inr r"
  obtain b m where bm: "r = (b, m)" by fastforce
  have "str_field OBJECT_ID_MAX_LEN m" by (rule json_field_kept [OF client_ok_fields(1) [OF device_okD(1) [OF ok]] r [unfolded bm]])
  with ok show "typed (case r of (_, m) \<Rightarrow> Inr (st\<lparr>client := (client st)\<lparr>installationObjectId := m\<rparr>\<rparr>))" by (simp add: bm client_types)
qed

lemma read_installationId_typed: "device_ok st \<Longrightarrow> typed (read_installationId json st)"
  unfolding read_installationId_def
proof (rule typed_bind)
  fix r assume ok: "device_ok st"
    and r: "json_field json ''installationId'' (installationId (client st)) (INSTALLATION_ID_MAX_LEN + 1) = Inr r"
  obtain b m where bm: "r = (b, m)" by fastforce
  have "str_field INSTALLATION_ID_MAX_LEN m" by (rule json_field_kept [OF client_ok_fields(2) [OF device_okD(1) [OF ok]] r [unfolded bm]])
  with ok show "typed (case r of (_, m) \<Rightarrow> Inr (st\<lparr>client := (client st)\<lparr>installationId := m\<rparr>\<rparr>))" by (simp add: bm client_types)
qed

lemma clear_objectId_ok: "device_ok st \<Longrightarrow> device_ok (clear_objectId st)"
  by (simp add: clear_objectId_def client_types)

lemma createInstallationCallback_typed: "callback_typed (Some createInstallationCallback)"
  by (simp add: callback_typed_def createInstallationCallback_def read_objectId_typed clear_objectId_ok)

lemma getInstallationCallback_typed: "callback_typed (Some getInstallationCallback)"
  by (auto simp: callback_typed_def getInstallationCallback_def clear_objectId_ok
      intro: typed_seq read_objectId_typed read_installationId_typed)

lemma read_ids_typed:
  "device_ok st \<Longrightarrow> typed (bindE (read_objectId json st) (\<lambda>st. read_installationId json st))"
  by (intro typed_seq read_objectId_typed read_installationId_typed)

lemma getInstallationByIdCallback_typed: "callback_typed (Some getInstallationByIdCallback)"
  unfolding callback_typed_def
proof (intro allI impI)
  fix f :: "'w device request_callback" and error httpStatus body and st :: "'w device"
  assume f: "Some getInstallationByIdCallback = Some f" and ok: "device_ok st"
  have "typed (getInstallationByIdCallback error httpStatus body st)"
  proof (cases "is_success error httpStatus")
    case True
    show ?thesis unfolding getInstallationByIdCallback_def if_P [OF True]
    proof (rule typed_bind)
      fix r
      show "typed (case r of (status, queryResults) \<Rightarrow>
          if status \<and> queryResults ! 1 = CHR ''{'' then
            bindE (read_objectId (Some (drop 1 queryResults)) st) (\<lambda>st. read_installationId (Some (drop 1 queryResults)) st)
          else Inr st)"
        using ok by (cases r) (simp add: read_ids_typed)
    qed
  qed (simp add: getInstallationByIdCallback_def clear_objectId_ok ok)
  with f show "typed (f error httpStatus body st)" by simp
qed

lemma application_callback_typed: "callback_typed (Some application_callback)"
  by (simp add: callback_typed_def application_callback_def log_event_def)

lemma no_callback_typed: "callback_typed None"
  by (simp add: callback_typed_def)

lemma associateSession_typed: "device_ok st \<Longrightarrow> typed (associateSessionWithInstallation P st)"
  by (simp add: associateSessionWithInstallation_def send_typed no_callback_typed)

lemma getSessionCallback_typed: "callback_typed (Some (getSessionCallback P))"
  by (auto simp: callback_typed_def getSessionCallback_def associateSession_typed intro!: typed_bind)

lemmas callbacks_typed = createInstallationCallback_typed getInstallationCallback_typed getInstallationByIdCallback_typed
  getSessionCallback_typed application_callback_typed no_callback_typed

lemma save_ok: "device_ok st \<Longrightarrow> device_ok (save P st)"
  by (simp add: save_def)

lemma lower_plain: "\<not> isupper c \<Longrightarrow> lower c = c"
  unfolding lower_def tolower_def by (metis char_of_char nat_int of_nat_of_char)

lemma lower_NUL [simp]: "lower NUL = NUL"
  by (rule lower_plain) (simp add: isupper_def)

lemma lower_field: "str_field n m \<Longrightarrow> str_field n (map lower m)"
  by (simp add: str_field_def)

text \<open>The calls of an application, in any order.\<close>

datatype client_call =
  SetInstallationId "string option" | SetSessionToken "string option" | ClearSessionToken
  | SendRequest string string "string option" bool

fun client_step :: "'w client_platform \<Rightarrow> client_call \<Rightarrow> 'w device \<Rightarrow> mem_error + 'w device" where
  "client_step P (SetInstallationId i) st = parseSetInstallationId P i st"
| "client_step P (SetSessionToken t) st = parseSetSessionToken P t st"
| "client_step P ClearSessionToken st = parseClearSessionToken P st"
| "client_step P (SendRequest httpVerb httpPath body cb) st = parseSendRequest P httpVerb httpPath body cb st"

fun client_steps :: "'w client_platform \<Rightarrow> client_call list \<Rightarrow> 'w device \<Rightarrow> mem_error + 'w device" where
  "client_steps P [] st = Inr st"
| "client_steps P (x # xs) st = bindE (client_step P x st) (client_steps P xs)"

context client_platform_laws
begin

lemma new_id_typed:
  assumes "good p" "device_ok st"
  shows "typed (new_installation_id (plat p) st)"
proof -
  obtain m w where "createNewInstallationId (plat p) (installationId (client st)) (network st) = (Inr m, w)"
    "str_field INSTALLATION_ID_MAX_LEN m"
    using new_id_law [OF assms(1) client_ok_fields(2) [OF device_okD(1) [OF assms(2)]], of "network st"] by blast
  with assms(2) show ?thesis by (simp add: new_installation_id_def client_types)
qed

lemma createInstallation_typed:
  assumes "good p" "device_ok st"
  shows "typed (createInstallation (plat p) st)"
proof (cases "c_string (installationObjectId (client st)) = []")
  case True
  have "typed (if c_string (installationId (client st)) = [] then new_installation_id (plat p) st else Inr st)"
    using assms new_id_typed by simp
  then show ?thesis unfolding createInstallation_def if_P [OF True]
    by (rule typed_seq) (rule send_typed [OF _ createInstallationCallback_typed])
next
  case False
  with assms(2) show ?thesis by (simp add: createInstallation_def)
qed

lemma getInstallation_typed:
  assumes "good p" "device_ok st"
  shows "typed (getInstallation (plat p) st)"
proof -
  have "typed (createInstallation (plat p) st')" if "device_ok st'" for st' using assms(1) that by (rule createInstallation_typed)
  then have seq: "typed (bindE r (createInstallation (plat p)))" if "typed r" for r using that by (rule typed_seq [rotated])
  show ?thesis unfolding getInstallation_def Let_def
    using assms by (auto intro!: seq send_typed callbacks_typed createInstallation_typed)
qed

lemma set_id_typed: "good p \<Longrightarrow> device_ok st \<Longrightarrow> typed (parseSetInstallationId (plat p) i st)"
proof -
  assume p: "good p" and ok: "device_ok st"
  have f: "str_field INSTALLATION_ID_MAX_LEN (installationId (client st))" using ok by (simp add: client_types)
  have "typed (bindE (strncpy (installationId (client st)) s INSTALLATION_ID_MAX_LEN) (\<lambda>m.
      bindE (getInstallation (plat p) (st\<lparr>client := (client st)\<lparr>installationId := map lower m\<rparr>\<rparr>)) (\<lambda>st. Inr (save (plat p) st))))" for s
  proof -
    obtain m where m: "strncpy (installationId (client st)) s INSTALLATION_ID_MAX_LEN = Inr m" "str_field INSTALLATION_ID_MAX_LEN m"
      using strncpy_field [OF f] by metis
    then have "device_ok (st\<lparr>client := (client st)\<lparr>installationId := map lower m\<rparr>\<rparr>)"
      using ok by (simp add: client_types lower_field)
    then have "typed (getInstallation (plat p) (st\<lparr>client := (client st)\<lparr>installationId := map lower m\<rparr>\<rparr>))"
      by (rule getInstallation_typed [OF p])
    then show ?thesis using m(1) by (auto intro: typed_seq simp: save_ok)
  qed
  then show ?thesis using ok by (simp add: parseSetInstallationId_def save_ok client_types zeros_field)
qed

lemma getSession_typed:
  assumes "good p" "device_ok st"
  shows "typed (getSession (plat p) st)"
  unfolding getSession_def
  by (rule typed_seq [OF getInstallation_typed [OF assms] send_typed [OF _ getSessionCallback_typed]])

lemma set_token_typed: "good p \<Longrightarrow> device_ok st \<Longrightarrow> typed (parseSetSessionToken (plat p) i st)"
proof -
  assume p: "good p" and ok: "device_ok st"
  have f: "str_field SESSION_TOKEN_MAX_LEN (sessionToken (client st))" using ok by (simp add: client_types)
  have "typed (bindE (strncpy (sessionToken (client st)) s SESSION_TOKEN_MAX_LEN) (\<lambda>m.
      bindE (getSession (plat p) (st\<lparr>client := (client st)\<lparr>sessionToken := m\<rparr>\<rparr>)) (\<lambda>st. Inr (save (plat p) st))))" for s
  proof -
    obtain m where m: "strncpy (sessionToken (client st)) s SESSION_TOKEN_MAX_LEN = Inr m" "str_field SESSION_TOKEN_MAX_LEN m"
      using strncpy_field [OF f] by metis
    then have "device_ok (st\<lparr>client := (client st)\<lparr>sessionToken := m\<rparr>\<rparr>)" using ok by (simp add: client_types)
    then have "typed (getSession (plat p) (st\<lparr>client := (client st)\<lparr>sessionToken := m\<rparr>\<rparr>))" by (rule getSession_typed [OF p])
    then show ?thesis using m(1) by (auto intro: typed_seq simp: save_ok)
  qed
  then show ?thesis using ok by (simp add: parseSetSessionToken_def save_ok client_types zeros_field)
qed

lemma send_request_typed:
  assumes "good p" "device_ok st"
  shows "typed (parseSendRequest (plat p) httpVerb httpPath body cb st)"
  unfolding parseSendRequest_def
  by (rule typed_seq [OF getInstallation_typed [OF assms] send_typed]) (simp_all add: callbacks_typed)

lemma client_step_typed: "good p \<Longrightarrow> device_ok st \<Longrightarrow> typed (client_step (plat p) x st)"
  by (cases x) (simp_all add: set_id_typed set_token_typed send_request_typed parseClearSessionToken_def)

lemma client_steps_typed: "good p \<Longrightarrow> device_ok st \<Longrightarrow> typed (client_steps (plat p) xs st)"
proof (induction xs arbitrary: st)
  case (Cons x xs)
  from client_step_typed [OF Cons.prems] have "typed (client_step (plat p) x st)" .
  then show ?case unfolding client_steps.simps by (rule typed_seq) (rule Cons.IH [OF Cons.prems(1)])
qed simp

end

end
