(* ===== verification/Rtos_Register.thy ===== *)
theory Rtos_Register
  imports Rtos_Installation
begin

text \<open>
  What registering a device does: the requests that are sent, what they leave in the client, what happens
  without a connection, and where the code deviates from what it means to do.
\<close>

section \<open>Registering always returns\<close>

lemma body_lookup:
  assumes "body_ok body st" "NUL \<notin> set key"
  shows "\<exists>b out. simpleJsonProcessor (body_data body st) (Some key) True sz = Inr (b, out)"
proof (cases body)
  case None
  then have "simpleJsonProcessor (body_data body st) (Some key) True sz = Inr (False, [])"
    by (simp add: body_data_def simpleJsonProcessor_def)
  then show ?thesis by blast
next
  case (Some d)
  with assms processor_padded show ?thesis by (simp add: body_data_def body_ok_def)
qed

lemma read_objectId_returns:
  assumes "device_ok st" "body_ok body st"
  shows "returns (read_objectId (body_data body st) st)"
proof -
  obtain b out where s: "simpleJsonProcessor (body_data body st) (Some ''objectId'') True (int (OBJECT_ID_MAX_LEN + 1)) = Inr (b, out)"
    using body_lookup [OF assms(2), of "''objectId''" "int (OBJECT_ID_MAX_LEN + 1)"] by auto
  obtain m where "json_field (body_data body st) ''objectId'' (installationObjectId (client st)) (OBJECT_ID_MAX_LEN + 1) = Inr (b, m)"
    using json_field_total [OF client_ok_fields(1) [OF device_okD(1) [OF assms(1)]] s] by blast
  then have "\<exists>st'. read_objectId (body_data body st) st = Inr st'" by (simp add: read_objectId_def)
  with read_objectId_typed [OF assms(1), of "body_data body st"] show ?thesis by (auto simp: returns_def)
qed

lemma read_installationId_returns:
  assumes "device_ok st" "body_ok body st"
  shows "returns (read_installationId (body_data body st) st)"
proof -
  obtain b out where s: "simpleJsonProcessor (body_data body st) (Some ''installationId'') True (int (INSTALLATION_ID_MAX_LEN + 1)) = Inr (b, out)"
    using body_lookup [OF assms(2), of "''installationId''" "int (INSTALLATION_ID_MAX_LEN + 1)"] by auto
  obtain m where "json_field (body_data body st) ''installationId'' (installationId (client st)) (INSTALLATION_ID_MAX_LEN + 1) = Inr (b, m)"
    using json_field_total [OF client_ok_fields(2) [OF device_okD(1) [OF assms(1)]] s] by blast
  then have "\<exists>st'. read_installationId (body_data body st) st = Inr st'" by (simp add: read_installationId_def)
  with read_installationId_typed [OF assms(1), of "body_data body st"] show ?thesis by (auto simp: returns_def)
qed

lemma read_objectId_buffer: "read_objectId json st = Inr st' \<Longrightarrow> dataBuffer st' = dataBuffer st"
  by (auto simp: read_objectId_def bindE_Inr_iff)

lemma getInstallationCallback_returns:
  assumes "device_ok st" "body_ok body st"
  shows "returns (getInstallationCallback error httpStatus body st)"
proof (cases "is_success error httpStatus")
  case True
  from read_objectId_returns [OF assms] consider "read_objectId (body_data body st) st = Inl NoReturn"
    | st1 where "read_objectId (body_data body st) st = Inr st1" "device_ok st1"
    by (auto simp: returns_def)
  then show ?thesis
  proof cases
    case (2 st1)
    then have "body_ok body st1" using assms(2) read_objectId_buffer [OF 2(1)] by (cases body) (simp_all add: body_ok_def)
    with 2 True read_installationId_returns show ?thesis by (simp add: getInstallationCallback_def)
  qed (use True in \<open>simp add: getInstallationCallback_def\<close>)
qed (simp add: getInstallationCallback_def clear_objectId_ok assms(1))

lemma create_body_length: "client_ok c \<Longrightarrow> length (create_body (c_string (installationId c))) \<le> 118"
  by (simp add: create_body_def printed_def)

context client_platform_laws
begin

lemma new_id_returns:
  assumes "good p" "device_ok st"
  shows "\<exists>st'. new_installation_id (plat p) st = Inr st' \<and> device_ok st'"
proof -
  obtain m w where "createNewInstallationId (plat p) (installationId (client st)) (network st) = (Inr m, w)"
    "str_field INSTALLATION_ID_MAX_LEN m"
    using new_id_law [OF assms(1) client_ok_fields(2) [OF device_okD(1) [OF assms(2)]], of "network st"] by blast
  with assms(2) show ?thesis by (simp add: new_installation_id_def client_types)
qed

lemma create_returns:
  assumes p: "good p" "short_answers (plat p)" and ok: "device_ok st"
  shows "returns (createInstallation (plat p) st)"
proof -
  have post: "returns (send (plat p) ''POST'' ''/1/installations'' (Some (create_body (c_string (installationId (client st')))))
      (Some createInstallationCallback) False st')" if "device_ok st'" for st' :: "'w device"
  proof (rule send_returns [OF p that])
    show "length ''POST'' + length ''/1/installations'' + text_len (Some (create_body (c_string (installationId (client st'))))) \<le> 500"
      using create_body_length [OF device_okD(1) [OF that]] by (simp add: text_len_def)
  next
    fix error httpStatus b and st'' :: "'w device"
    assume "device_ok st''" "body_ok b st''"
    then show "returns (createInstallationCallback error httpStatus b st'')"
      by (simp add: createInstallationCallback_def read_objectId_returns clear_objectId_ok)
  qed
  show ?thesis
  proof (cases "c_string (installationObjectId (client st)) = []")
    case True
    have "returns (if c_string (installationId (client st)) = [] then new_installation_id (plat p) st else Inr st)"
      using new_id_returns [OF p(1) ok] ok by auto
    then show ?thesis unfolding createInstallation_def if_P [OF True] by (rule returns_seq) (rule post)
  qed (simp add: createInstallation_def ok)
qed

text \<open>
  The lookup of an installation of which the object id is known, or nothing at all; the query for an id is left out,
  whose results may be cut off in the middle of a key.
\<close>

lemma getInstallation_returns:
  assumes p: "good p" "short_answers (plat p)" and ok: "device_ok st"
    and ids: "c_string (installationObjectId (client st)) = [] \<longrightarrow> c_string (installationId (client st)) = []"
  shows "returns (getInstallation (plat p) st)"
proof -
  let ?o = "c_string (installationObjectId (client st))"
  have get: "returns (send (plat p) ''GET'' (by_object_path ?o) None (Some getInstallationCallback) False st)"
    by (rule send_returns [OF p ok]) (simp_all add: by_object_path_def printed_def text_len_def getInstallationCallback_returns)
  have "returns (bindE (if ?o \<noteq> [] then send (plat p) ''GET'' (by_object_path ?o) None (Some getInstallationCallback) False st else Inr st)
      (createInstallation (plat p)))"
    by (rule returns_seq) (use get ok in \<open>auto intro: create_returns [OF p]\<close>)
  with ids ok show ?thesis by (auto simp: getInstallation_def Let_def)
qed

end

section \<open>A successful registration\<close>

text \<open>A JSON text in which the string \<open>v\<close> is the value of the key, and which leaves the key out before it.\<close>

definition has_member :: "string \<Rightarrow> string \<Rightarrow> string \<Rightarrow> bool" where
  "has_member key v json \<longleftrightarrow> (\<exists>pre b1 b2 its rest inS lvl.
     json = pre @ key @ CHR 0x22 # b1 @ CHR '':'' # b2 @ CHR 0x22 # items_text its @ CHR 0x22 # rest \<and> v = items_text its \<and>
     no_match key pre (key @ CHR 0x22 # b1 @ CHR '':'' # b2 @ CHR 0x22 # items_text its @ CHR 0x22 # rest) \<and>
     pre_scan pre False 0 = Some (inS, lvl) \<and> lvl \<le> 1 \<and> blanks b1 \<and> blanks b2 \<and> list_all item_ok its)"

lemma member_read:
  assumes "has_member key v json" "NUL \<notin> set json" "key \<noteq> []" "str_field n m" "length v \<le> n"
  shows "\<exists>m'. json_field (Some (json @ NUL # pad)) key m (n + 1) = Inr (True, m') \<and> c_string m' = v \<and> str_field n m'"
proof -
  from assms(1) obtain pre b1 b2 its rest inS lvl where
    json: "json = pre @ key @ CHR 0x22 # b1 @ CHR '':'' # b2 @ CHR 0x22 # items_text its @ CHR 0x22 # rest" "v = items_text its"
    and h: "no_match key pre (key @ CHR 0x22 # b1 @ CHR '':'' # b2 @ CHR 0x22 # items_text its @ CHR 0x22 # rest)"
      "pre_scan pre False 0 = Some (inS, lvl)" "lvl \<le> 1" "blanks b1" "blanks b2" "list_all item_ok its"
    unfolding has_member_def by blast
  have "NUL \<notin> set key" "NUL \<notin> set v" using assms(2) json by auto
  have "holds (json @ NUL # pad) 0 json" using assms(2) by (simp add: holds_def)
  then have "simpleJsonProcessor (Some (json @ NUL # pad)) (Some key) True (int (n + 1)) = Inr (True, take (nat (int (n + 1) - 1)) (items_text its) @ [NUL])"
    unfolding json(1) by (rule processor_string [OF _ assms(3) \<open>NUL \<notin> set key\<close> h]) simp_all
  then have s: "simpleJsonProcessor (Some (json @ NUL # pad)) (Some key) True (int (n + 1)) = Inr (True, v @ [NUL])"
    using assms(5) json(2) by simp
  have "poke m 0 (v @ [NUL]) = Inr (v @ NUL # drop (Suc (length v)) m)"
    using assms(4,5) by (simp add: poke_def str_field_def)
  moreover have "c_string (v @ NUL # drop (Suc (length v)) m) = v"
    using \<open>NUL \<notin> set v\<close> by (auto simp: c_string_def takeWhile_tail)
  moreover have "str_field n (v @ NUL # drop (Suc (length v)) m)"
    using poke_field [OF assms(4) calculation(1)] by simp
  ultimately show ?thesis unfolding json_field_def s by simp
qed

lemma created:
  assumes ok: "device_ok st" and ids: "c_string (installationObjectId (client st)) = []" "c_string (installationId (client st)) \<noteq> []"
    and net: "server_answers P (request_text (request_fields (client st)) ''/1/installations'' ''POST''
      (Some (create_body (c_string (installationId (client st))))) False) (network st) (http_response d1 d2 d3 headers answer) w'"
    and ans: "is_answer d1 d2 d3 headers answer" "is_success 0 (status_digits d1 d2 d3)"
    and member: "has_member ''objectId'' i answer" "length i \<le> OBJECT_ID_MAX_LEN"
  shows "\<exists>st'. createInstallation P st = Inr st' \<and> c_string (installationObjectId (client st')) = i \<and>
    c_string (installationId (client st')) = c_string (installationId (client st)) \<and> device_ok st' \<and>
    requests st' = requests st @ [(''POST'', ''/1/installations'', Some (create_body (c_string (installationId (client st)))), False)]"
proof -
  let ?body = "create_body (c_string (installationId (client st)))"
  have short: "length ''POST'' + length ''/1/installations'' + text_len (Some ?body) \<le> 500"
    using create_body_length [OF device_okD(1) [OF ok]] by (simp add: text_len_def)
  obtain st1 pad where 1: "send P ''POST'' ''/1/installations'' (Some ?body) (Some createInstallationCallback) False st =
      createInstallationCallback 0 (status_digits d1 d2 d3) (Some (16 + length headers)) st1"
    "client st1 = client st" "requests st1 = requests st @ [(''POST'', ''/1/installations'', Some ?body, False)]"
    "length (dataBuffer st1) = 1024" "drop (16 + length headers) (dataBuffer st1) = answer @ NUL # pad"
    using send_answered [OF device_okD(1) [OF ok] short net ans(1)] by blast
  have "NUL \<notin> set answer" using ans(1) by (simp add: is_answer_def http_response_def)
  then obtain m where m: "json_field (Some (answer @ NUL # pad)) ''objectId'' (installationObjectId (client st)) (OBJECT_ID_MAX_LEN + 1) = Inr (True, m)"
    "c_string m = i" "str_field OBJECT_ID_MAX_LEN m"
    using member_read [OF member(1) _ _ client_ok_fields(1) [OF device_okD(1) [OF ok]] member(2), of pad] by auto
  then have "createInstallation P st = Inr (st1\<lparr>client := (client st1)\<lparr>installationObjectId := m\<rparr>\<rparr>)"
    using ids 1 ans(2) by (simp add: createInstallation_def createInstallationCallback_def read_objectId_def body_data_def)
  with 1 m ok show ?thesis by (simp add: client_types)
qed

section \<open>Without a connection\<close>

definition offline :: "('w, 'n) request_net_scheme \<Rightarrow> bool" where
  "offline P \<longleftrightarrow> (\<forall>w. fst (ssl_connect P ''api.parse.com'' 443 w) < 0)"

lemma offline_send:
  assumes "offline P"
  shows "\<exists>e w. e < 0 \<and> send P httpVerb httpPath body (Some f) add st =
    f e (-1) None (st\<lparr>requests := requests st @ [(httpVerb, httpPath, body, add)], network := w\<rparr>)"
proof -
  obtain e w where "ssl_connect P ''api.parse.com'' 443 (network st) = (e, w)" "e < 0"
    using assms unfolding offline_def by (metis prod.collapse)
  with send_offline [OF this] show ?thesis by blast
qed

lemma failed_clears: "e < 0 \<Longrightarrow> createInstallationCallback e s b st = Inr (clear_objectId st)"
  "e < 0 \<Longrightarrow> getInstallationByIdCallback e s b st = Inr (clear_objectId st)"
  by (simp_all add: createInstallationCallback_def getInstallationByIdCallback_def is_success_def)

lemma clear_objectId_simps [simp]:
  "client (clear_objectId st) = (client st)\<lparr>installationObjectId := zeros (OBJECT_ID_MAX_LEN + 1)\<rparr>"
  "requests (clear_objectId st) = requests st" "events (clear_objectId st) = events st"
  by (simp_all add: clear_objectId_def)

definition post_request :: "string \<Rightarrow> string \<times> string \<times> string option \<times> bool" where
  "post_request i = (''POST'', ''/1/installations'', Some (create_body i), False)"

definition query_request :: "string \<Rightarrow> string \<times> string \<times> string option \<times> bool" where
  "query_request i = (''GET'', ''/1/installations'', Some (by_id_query i), False)"

lemma offline_create:
  assumes "offline P" "c_string (installationObjectId (client st)) = []" "c_string (installationId (client st)) \<noteq> []"
  shows "\<exists>st'. createInstallation P st = Inr st' \<and> client st' = (client st)\<lparr>installationObjectId := zeros (OBJECT_ID_MAX_LEN + 1)\<rparr> \<and>
    requests st' = requests st @ [post_request (c_string (installationId (client st)))] \<and> events st' = events st"
proof -
  let ?body = "Some (create_body (c_string (installationId (client st))))"
  obtain e w where e: "e < 0" "send P ''POST'' ''/1/installations'' ?body (Some createInstallationCallback) False st =
      createInstallationCallback e (-1) None (st\<lparr>requests := requests st @ [(''POST'', ''/1/installations'', ?body, False)], network := w\<rparr>)"
    using offline_send [OF assms(1)] by blast
  then show ?thesis using assms(2,3) by (simp add: createInstallation_def failed_clears post_request_def)
qed

lemma offline_get:
  assumes "offline P" "c_string (installationObjectId (client st)) = []" "c_string (installationId (client st)) \<noteq> []"
  shows "\<exists>st'. getInstallation P st = Inr st' \<and> client st' = (client st)\<lparr>installationObjectId := zeros (OBJECT_ID_MAX_LEN + 1)\<rparr> \<and>
    requests st' = requests st @ [query_request (c_string (installationId (client st))), post_request (c_string (installationId (client st)))] \<and>
    events st' = events st"
proof -
  let ?q = "Some (by_id_query (c_string (installationId (client st))))"
  obtain e w where e: "e < 0" "send P ''GET'' ''/1/installations'' ?q (Some getInstallationByIdCallback) False st =
      getInstallationByIdCallback e (-1) None (st\<lparr>requests := requests st @ [(''GET'', ''/1/installations'', ?q, False)], network := w\<rparr>)"
    using offline_send [OF assms(1)] by blast
  let ?st = "clear_objectId (st\<lparr>requests := requests st @ [(''GET'', ''/1/installations'', ?q, False)], network := w\<rparr>)"
  have "getInstallation P st = createInstallation P ?st"
    using assms(2,3) e by (simp add: getInstallation_def failed_clears)
  moreover obtain st' where "createInstallation P ?st = Inr st'" "client st' = (client st)\<lparr>installationObjectId := zeros (OBJECT_ID_MAX_LEN + 1)\<rparr>"
    "requests st' = requests st @ [query_request (c_string (installationId (client st))), post_request (c_string (installationId (client st)))]"
    "events st' = events st"
    using offline_create [OF assms(1), of ?st] assms(3) by (auto simp: query_request_def)
  ultimately show ?thesis by auto
qed

section \<open>Setting an installation id\<close>

lemma lower_not_NUL: "c \<noteq> NUL \<Longrightarrow> lower c \<noteq> NUL"
proof -
  assume "c \<noteq> NUL"
  show ?thesis
  proof (cases "isupper c")
    case True
    then have "65 \<le> (of_char c :: nat)" "(of_char c :: nat) \<le> 90" by (simp_all add: isupper_def)
    moreover have "(of_char c :: int) = int (of_char c)" by (metis of_nat_of_char)
    then have "tolower c = int (of_char c + 32)" using True by (simp only: tolower_def if_True of_nat_add of_nat_numeral)
    then have "lower c = char_of (of_char c + 32 :: nat)" unfolding lower_def by (simp only: nat_int)
    ultimately have "of_char (lower c) = (of_char c + 32 :: nat)" by simp
    then show ?thesis by auto
  next
    case False
    then show ?thesis using \<open>c \<noteq> NUL\<close> by (simp add: lower_plain)
  qed
qed

lemma c_string_lower: "c_string (map lower m) = map lower (c_string m)"
  by (induction m) (auto simp: c_string_def lower_not_NUL)

lemma tolower_lower [simp]: "tolower (lower c) = tolower c"
proof (cases "isupper c")
  case True
  then have c: "65 \<le> (of_char c :: nat)" "(of_char c :: nat) \<le> 90" by (simp_all add: isupper_def)
  have i: "(of_char d :: int) = int (of_char d)" for d by (metis of_nat_of_char)
  have t: "tolower c = int (of_char c + 32)" using True by (simp only: tolower_def i if_True of_nat_add of_nat_numeral)
  then have "lower c = char_of (of_char c + 32 :: nat)" unfolding lower_def by (simp only: nat_int)
  with c have l: "of_char (lower c) = (of_char c + 32 :: nat)" by simp
  then have "\<not> isupper (lower c)" using c by (simp add: isupper_def)
  then show ?thesis unfolding t by (simp only: tolower_def i l if_False)
qed (simp add: lower_plain)

lemma same_when_lowered: "strncasecmp_eq (map lower (take n s)) s n"
proof (cases "n \<le> length s")
  case True
  then show ?thesis by (simp add: strncasecmp_eq_def comp_def)
next
  case False
  then have "take n (map lower s @ [NUL]) = map lower (take n (s @ [NUL]))" by (simp add: take_map)
  with False show ?thesis by (simp add: strncasecmp_eq_def comp_def del: map_append)
qed

lemma set_id_stored:
  assumes ok: "device_ok st" and new: "i \<noteq> []" "NUL \<notin> set i" "\<not> strncasecmp_eq (c_string (installationId (client st))) i INSTALLATION_ID_MAX_LEN"
  shows "\<exists>m. c_string m = map lower (take INSTALLATION_ID_MAX_LEN i) \<and> c_string m \<noteq> [] \<and>
    parseSetInstallationId P (Some i) st =
      bindE (getInstallation P (st\<lparr>client := (client st)\<lparr>installationId := m\<rparr>\<rparr>)) (\<lambda>st. Inr (save P st))"
proof -
  have "str_field INSTALLATION_ID_MAX_LEN (installationId (client st))" using ok by (simp add: client_types)
  from strncpy_field [OF this, of i] obtain m where
    m: "strncpy (installationId (client st)) i INSTALLATION_ID_MAX_LEN = Inr m" "c_string m = take INSTALLATION_ID_MAX_LEN i"
    using new(2) by metis
  then have "c_string (map lower m) \<noteq> []" using new(1) by (simp add: c_string_lower INSTALLATION_ID_MAX_LEN_def)
  with m new show ?thesis by (intro exI [of _ "map lower m"]) (simp add: parseSetInstallationId_def c_string_lower)
qed

lemma set_id_again:
  assumes "i \<noteq> []" "c_string (installationId (client st)) = map lower (take INSTALLATION_ID_MAX_LEN i)"
  shows "parseSetInstallationId P (Some i) st = Inr st"
  using assms same_when_lowered by (simp add: parseSetInstallationId_def)

lemma save_simps [simp]: "client (save P st) = client st" "requests (save P st) = requests st" "events (save P st) = events st"
  by (simp_all add: save_def)

lemma set_id_offline:
  assumes ok: "device_ok st" and new: "i \<noteq> []" "NUL \<notin> set i" "\<not> strncasecmp_eq (c_string (installationId (client st))) i INSTALLATION_ID_MAX_LEN"
    and "offline P" "c_string (installationObjectId (client st)) = []"
  shows "\<exists>st'. parseSetInstallationId P (Some i) st = Inr st' \<and>
    parseGetInstallationId st' = Some (map lower (take INSTALLATION_ID_MAX_LEN i)) \<and>
    requests st' = requests st @ [query_request (map lower (take INSTALLATION_ID_MAX_LEN i)), post_request (map lower (take INSTALLATION_ID_MAX_LEN i))] \<and>
    events st' = events st \<and> parseSetInstallationId P (Some i) st' = Inr st'"
proof -
  let ?i = "map lower (take INSTALLATION_ID_MAX_LEN i)"
  obtain m where m: "c_string m = ?i" "c_string m \<noteq> []"
    "parseSetInstallationId P (Some i) st = bindE (getInstallation P (st\<lparr>client := (client st)\<lparr>installationId := m\<rparr>\<rparr>)) (\<lambda>st. Inr (save P st))"
    using set_id_stored [OF ok new] by blast
  let ?st = "st\<lparr>client := (client st)\<lparr>installationId := m\<rparr>\<rparr>"
  obtain st' where st': "getInstallation P ?st = Inr st'" "client st' = (client ?st)\<lparr>installationObjectId := zeros (OBJECT_ID_MAX_LEN + 1)\<rparr>"
    "requests st' = requests st @ [query_request ?i, post_request ?i]" "events st' = events st"
    using offline_get [OF assms(5), of ?st] assms(6) m by auto
  have "parseSetInstallationId P (Some i) (save P st') = Inr (save P st')"
    by (rule set_id_again [OF new(1)]) (simp add: st' m)
  moreover have "parseGetInstallationId (save P st') = Some ?i"
    using m by (simp add: parseGetInstallationId_def st')
  ultimately show ?thesis using m(3) st' by simp
qed

lemma set_id_keeps_object:
  assumes ok: "device_ok st" and new: "i \<noteq> []" "NUL \<notin> set i" "\<not> strncasecmp_eq (c_string (installationId (client st))) i INSTALLATION_ID_MAX_LEN"
    and known: "c_string (installationObjectId (client st)) \<noteq> []"
  shows "\<exists>st'. parseSetInstallationId P (Some i) st = Inr st' \<and>
    parseGetInstallationId st' = Some (map lower (take INSTALLATION_ID_MAX_LEN i)) \<and>
    installationObjectId (client st') = installationObjectId (client st) \<and> requests st' = requests st"
proof -
  obtain m where m: "c_string m = map lower (take INSTALLATION_ID_MAX_LEN i)" "c_string m \<noteq> []"
    "parseSetInstallationId P (Some i) st = bindE (getInstallation P (st\<lparr>client := (client st)\<lparr>installationId := m\<rparr>\<rparr>)) (\<lambda>st. Inr (save P st))"
    using set_id_stored [OF ok new] by blast
  then have "parseSetInstallationId P (Some i) st = Inr (save P (st\<lparr>client := (client st)\<lparr>installationId := m\<rparr>\<rparr>))"
    using known by (simp add: getInstallation_def)
  with m(1,2) show ?thesis
    by (intro exI [of _ "save P (st\<lparr>client := (client st)\<lparr>installationId := m\<rparr>\<rparr>)"]) (simp add: parseGetInstallationId_def)
qed

section \<open>Sessions\<close>

lemma set_token_case:
  assumes "map tolower t = map tolower (c_string (sessionToken (client st)))" "t \<noteq> []"
  shows "parseSetSessionToken P (Some t) st = Inr st"
proof -
  have l: "length (c_string (sessionToken (client st))) = length t" using assms(1) by (metis length_map)
  have "map tolower (take n (c_string (sessionToken (client st)) @ [NUL])) = map tolower (take n (t @ [NUL]))" for n
    using assms(1) by (simp add: take_map [symmetric] l)
  then have "strncasecmp_eq (c_string (sessionToken (client st))) t SESSION_TOKEN_MAX_LEN" by (simp add: strncasecmp_eq_def)
  with assms(2) show ?thesis by (simp add: parseSetSessionToken_def)
qed

lemma send_requests:
  assumes "device_ok st" "send P httpVerb httpPath body None add st = Inr st'"
  shows "requests st' = requests st @ [(httpVerb, httpPath, body, add)] \<and> client st' = client st"
proof -
  let ?st = "st\<lparr>requests := requests st @ [(httpVerb, httpPath, body, add)]\<rparr>"
  from assms(2) obtain n where "sendRequest P (request_fields (client st)) httpPath httpVerb body add ?st = Inr (n, st')"
    by (auto simp: send_def parseSendRequestInternal_def bindE_Inr_iff)
  from sendRequest_device [OF this] assms(1) show ?thesis by (simp add: device_ok_def)
qed

text \<open>A request that returns has called its callback, on the same client.\<close>

lemma send_calls_back:
  assumes "device_ok st" "send P httpVerb httpPath body (Some f) add st = Inr st'"
  obtains error httpStatus b st1 where "f error httpStatus b st1 = Inr st'" "device_ok st1" "client st1 = client st"
    "requests st1 = requests st @ [(httpVerb, httpPath, body, add)]"
proof -
  let ?st = "st\<lparr>requests := requests st @ [(httpVerb, httpPath, body, add)]\<rparr>"
  from assms(2) obtain n st1 where s: "sendRequest P (request_fields (client st)) httpPath httpVerb body add ?st = Inr (n, st1)"
    and r: "(if 0 \<le> n then bindE (getHttpResponseStatus (dataBuffer st1)) (\<lambda>httpStatus.
        bindE (getHttpResponseBody (dataBuffer st1)) (\<lambda>b. f 0 httpStatus b st1)) else f n (-1) None st1) = Inr st'"
    by (auto simp: send_def parseSendRequestInternal_def bindE_Inr_iff split: option.splits)
  have "device_ok ?st" using assms(1) by (simp add: device_ok_def)
  from sendRequest_device [OF s this] have d: "device_ok st1" "client st1 = client st"
    "requests st1 = requests st @ [(httpVerb, httpPath, body, add)]" by simp_all
  from r that [OF _ d] show thesis by (auto simp: bindE_Inr_iff split: if_splits)
qed

definition session_request :: "string \<times> string \<times> string option \<times> bool" where
  "session_request = (''GET'', ''/1/sessions/me'', None, True)"

definition associate_request :: "string \<times> string \<times> string option \<times> bool" where
  "associate_request = (''PUT'', ''/1/sessions/me'', Some (''{}'' @ CRLF), True)"

lemma associate_requests:
  assumes "device_ok st" "associateSessionWithInstallation P st = Inr st'"
  shows "client st' = client st \<and> requests st' = requests st @
    (if c_string (installationObjectId (client st)) \<noteq> [] then [associate_request] else [])"
  using assms send_requests [OF assms(1)]
  by (auto simp: associateSessionWithInstallation_def associate_request_def split: if_splits)

lemma session_callback_requests:
  assumes "device_ok st" "getSessionCallback P error httpStatus b st = Inr st'"
  shows "client st' = client st \<and> (requests st' = requests st \<or>
    requests st' = requests st @ [associate_request] \<and> c_string (installationObjectId (client st)) \<noteq> [])"
  using assms(2) associate_requests [OF assms(1)]
  by (auto simp: getSessionCallback_def bindE_Inr_iff split: if_splits)

lemma session_requests:
  assumes "getInstallation P st = Inr st1" "device_ok st1" "getSession P st = Inr st'"
  shows "client st' = client st1 \<and> (requests st' = requests st1 @ [session_request] \<or>
    requests st' = requests st1 @ [session_request, associate_request] \<and> c_string (installationObjectId (client st1)) \<noteq> [])"
proof -
  have "send P ''GET'' ''/1/sessions/me'' None (Some (getSessionCallback P)) True st1 = Inr st'"
    using assms(1,3) by (simp add: getSession_def)
  then obtain e h b st2 where "getSessionCallback P e h b st2 = Inr st'" "device_ok st2" "client st2 = client st1"
    "requests st2 = requests st1 @ [(''GET'', ''/1/sessions/me'', None, True)]"
    using send_calls_back [OF assms(2)] by metis
  with session_callback_requests [of st2 P e h b st'] show ?thesis by (auto simp: session_request_def)
qed

section \<open>A list of results that does not fit\<close>

text \<open>How the copying loop reads the beginning of an array: in a string or not, depth, after a backslash.\<close>

fun copy_scan :: "string \<Rightarrow> bool \<Rightarrow> int \<Rightarrow> bool \<Rightarrow> (bool \<times> int \<times> bool) option" where
  "copy_scan [] inS lvl bs = Some (inS, lvl, bs)"
| "copy_scan (c # s) inS lvl bs =
     (if bs then copy_scan s inS lvl False
      else if c = CHR ''{'' \<or> c = CHR ''['' then copy_scan s inS (if inS then lvl else lvl + 1) False
      else if (c = CHR ''}'' \<or> c = CHR '']'') \<and> \<not> inS then (if lvl > 1 then copy_scan s inS (lvl - 1) False else None)
      else if c = CHR 0x22 then copy_scan s (\<not> inS) lvl False
      else copy_scan s inS lvl (c = CHR 0x5C))"

lemma copy_scan_append:
  "copy_scan (s @ t) inS lvl bs = Option.bind (copy_scan s inS lvl bs) (\<lambda>(inS, lvl, bs). copy_scan t inS lvl bs)"
  by (induction s arbitrary: inS lvl bs) auto

lemma copy_value_scan:
  "holds m d (s @ rest) \<Longrightarrow> copy_scan s inS lvl bs = Some (inS', lvl', bs') \<Longrightarrow> int (length s) < sz \<Longrightarrow>
   copy_value m True False sz d inS lvl bs out = copy_value m True False (sz - int (length s)) (d + length s) inS' lvl' bs' (out @ s)"
proof (induction s arbitrary: d inS lvl bs sz out)
  case (Cons c s)
  have h: "rd m d = Inr c" "c \<noteq> NUL" "holds m (Suc d) (s @ rest)" using holds_Cons [of m d c "s @ rest"] Cons.prems(1) by auto
  have sz: "1 < sz" "int (length s) < sz - 1" using Cons.prems(3) by auto
  have go: ?case if "copy_scan s i l b = Some (inS', lvl', bs')"
    "copy_value m True False sz d inS lvl bs out = copy_value m True False (sz - 1) (Suc d) i l b (out @ [c])" for i l b
    using Cons.IH [OF h(3) that(1) sz(2), of "out @ [c]"] that(2) by (simp add: algebra_simps)
  consider (esc) bs | (opn) "\<not> bs" "c = CHR ''{'' \<or> c = CHR ''[''" | (cls) "\<not> bs" "c = CHR ''}'' \<or> c = CHR '']''" "\<not> inS"
    | (quote) "\<not> bs" "c = CHR 0x22" | (kept) "\<not> bs" "c = CHR ''}'' \<or> c = CHR '']''" inS
    | (other) "\<not> bs" "c \<notin> {CHR ''{'', CHR ''['', CHR ''}'', CHR '']'', CHR 0x22}" by blast
  then show ?case
  proof cases
    case esc
    with Cons.prems(2) h sz(1) show ?thesis by (intro go) (simp_all add: copy_value.simps [of m True False sz d])
  next
    case opn
    with Cons.prems(2) h sz(1) show ?thesis
      by (intro go [of inS "if inS then lvl else lvl + 1" False]) (auto simp: copy_value.simps [of m True False sz d])
  next
    case cls
    with Cons.prems(2) have l: "1 < lvl" "copy_scan s inS (lvl - 1) False = Some (inS', lvl', bs')" by (auto split: if_splits)
    from cls(2) show ?thesis
      by (rule disjE) (use cls l h sz(1) in \<open>intro go [OF l(2)], simp add: copy_value.simps [of m True False sz d]\<close>)+
  next
    case quote
    with Cons.prems(2) h sz(1) show ?thesis
      by (intro go [of "\<not> inS" lvl False]) (simp_all add: copy_value.simps [of m True False sz d])
  next
    case kept
    with Cons.prems(2) have s: "copy_scan s inS lvl False = Some (inS', lvl', bs')" by auto
    from kept(2) show ?thesis
      by (rule disjE) (use kept s h sz(1) in \<open>intro go [OF s], simp add: copy_value.simps [of m True False sz d]\<close>)+
  next
    case other
    with Cons.prems(2) have s: "copy_scan s inS lvl (c = CHR 0x5C) = Some (inS', lvl', bs')" by auto
    show ?thesis
      by (rule go [OF s], cases "c = CHR '',''") (use other h sz(1) in \<open>simp_all add: copy_value.simps [of m True False sz d]\<close>)
  qed
qed simp

lemma copy_value_cut:
  assumes "holds m d (s @ c # rest)" "copy_scan s inS lvl bs = Some st" "sz = int (length s) + 1"
  shows "copy_value m True False sz d inS lvl bs out = Inr (True, out @ s @ [NUL])"
proof -
  obtain inS' lvl' bs' where st: "st = (inS', lvl', bs')" by (cases st)
  have "rd m (d + length s) = Inr c" "c \<noteq> NUL" using holds_append [OF assms(1)] holds_Cons by auto
  then show ?thesis using copy_value_scan [OF assms(1) assms(2) [unfolded st], of sz out] assms(3)
    by (simp add: copy_value.simps [of m True False 1] return_value_def)
qed

definition results_text :: "string \<Rightarrow> string" where
  "results_text rs = CHR ''{'' # quoted ''results'' @ CHR '':'' # rs"

lemma results_cut:
  assumes "rs = CHR ''['' # u" "length rs = 399" "NUL \<notin> set (rs @ c # rest)" "copy_scan rs False 0 False = Some s"
  shows "json_field (Some (results_text (rs @ c # rest) @ NUL # pad)) ''results'' (zeros 400) 400 = Inr (True, rs @ [NUL])"
proof -
  let ?pre = "[CHR ''{'', CHR 0x22]" and ?tail = "u @ c # rest"
  let ?t = "?pre @ ''results'' @ CHR 0x22 # [] @ CHR '':'' # [] @ CHR ''['' # ?tail"
  let ?m = "results_text (rs @ c # rest) @ NUL # pad"
  have eq: "results_text (rs @ c # rest) = ?t" by (simp add: results_text_def assms(1))
  have h: "holds ?m 0 ?t" using assms(1,3) eq by (auto simp: holds_def)
  have "simpleJsonProcessor (Some ?m) (Some ''results'') True 400 =
    copy_value ?m True False 400 (length ?pre + length ''results'' + 0 + 0 + 2) False 0 False []"
    using processor_member [OF h, where sz = 400 and inS = True and lvl = 1] by (simp add: blanks_def)
  also have "\<dots> = Inr (True, [] @ rs @ [NUL])"
  proof (rule copy_value_cut)
    have "holds ?m (0 + length (?pre @ ''results'' @ CHR 0x22 # [CHR '':''])) (rs @ c # rest)"
      using h assms(1) by (intro holds_append) simp
    then show "holds ?m (length ?pre + length ''results'' + 0 + 0 + 2) (rs @ c # rest)" by simp
  qed (use assms in simp_all)
  finally have s: "simpleJsonProcessor (Some ?m) (Some ''results'') True 400 = Inr (True, rs @ [NUL])" by simp
  have "poke (zeros 400) 0 (rs @ [NUL]) = Inr (rs @ [NUL])" using assms(2) by (simp add: poke_def zeros_def)
  with s show ?thesis by (simp add: json_field_def)
qed

lemma by_id_overrun:
  assumes body: "body_data body st = Some (results_text (rs @ c # rest) @ NUL # pad)"
    and rs: "rs = CHR ''['' # CHR ''{'' # u @ ''objectId''" "length rs = 399" "NUL \<notin> set (rs @ c # rest)"
    and "copy_scan rs False 0 False = Some s"
    and pre: "no_match ''objectId'' (CHR ''{'' # u) ''objectId''" "pre_scan (CHR ''{'' # u) False 0 = Some (inS, lvl)" "lvl \<le> 1"
  shows "getInstallationByIdCallback 0 200 body st = Inl OutOfBounds"
proof -
  have j: "json_field (body_data body st) ''results'' (zeros 400) 400 = Inr (True, rs @ [NUL])"
    unfolding body by (rule results_cut [OF _ rs(2,3) assms(5)]) (simp add: rs(1))
  have "simpleJsonProcessor (Some ((CHR ''{'' # u) @ ''objectId'' @ [NUL])) (Some ''objectId'') True (int (OBJECT_ID_MAX_LEN + 1)) = Inl OutOfBounds"
    using rs(3) by (intro processor_overrun [OF _ _ pre]) (auto simp: rs(1))
  then show ?thesis
    using j by (simp add: getInstallationByIdCallback_def is_success_def rs(1) read_objectId_def json_field_def)
qed

section \<open>Correctness\<close>

text \<open>A platform for examples, on which every request gets the same answer, and one without a connection.\<close>

definition demo_client_platform :: "string \<Rightarrow> unit client_platform" where
  "demo_client_platform r = \<lparr>ssl_connect = (\<lambda>s p w. (3, w)), net_write = (\<lambda>h s w. (int (length s), w)),
     net_read = (\<lambda>h n t w. Inr ((int (length r), r @ [NUL]), w)), saveClientState = (\<lambda>c w. w),
     loadClientState = (\<lambda>c w. Inr (c, w)), fetchDeviceOSVersion = (\<lambda>m n w. (Inr m, w)),
     createNewInstallationId = (\<lambda>m w. (Inr m, w))\<rparr>"

definition offline_platform :: "unit client_platform" where
  "offline_platform = (demo_client_platform [])\<lparr>ssl_connect := (\<lambda>s p w. (-1, w))\<rparr>"

definition text_field :: "string \<Rightarrow> nat \<Rightarrow> char list" where
  "text_field s n = s @ zeros (n + 1 - length s)"

definition demo_device :: "string \<Rightarrow> string \<Rightarrow> string \<Rightarrow> unit device" where
  "demo_device objectId instId token =
     \<lparr>dataBuffer = zeros 1024, network = (), events = [],
      client = blank_client\<lparr>installationObjectId := text_field objectId OBJECT_ID_MAX_LEN,
        installationId := text_field instId INSTALLATION_ID_MAX_LEN, sessionToken := text_field token SESSION_TOKEN_MAX_LEN\<rparr>,
      requests = []\<rparr>"

lemma text_field_ok: "length s \<le> n \<Longrightarrow> str_field n (text_field s n)"
  by (simp add: text_field_def str_field_def zeros_def nth_append)

lemma text_field_string: "NUL \<notin> set s \<Longrightarrow> length s \<le> n \<Longrightarrow> c_string (text_field s n) = s"
  by (auto simp: text_field_def c_string_def zeros_def Suc_diff_le takeWhile_tail)

lemma demo_device_ok:
  "length ob \<le> 16 \<Longrightarrow> length i \<le> 36 \<Longrightarrow> length t \<le> 40 \<Longrightarrow> device_ok (demo_device ob i t)"
  using blank_client_ok by (simp add: demo_device_def device_ok_def client_ok_def zeros_def [of 1024] text_field_ok max_lens)

lemma demo_device_simps [simp]:
  "requests (demo_device ob i t) = []" "events (demo_device ob i t) = []"
  "installationObjectId (client (demo_device ob i t)) = text_field ob OBJECT_ID_MAX_LEN"
  "installationId (client (demo_device ob i t)) = text_field i INSTALLATION_ID_MAX_LEN"
  "sessionToken (client (demo_device ob i t)) = text_field t SESSION_TOKEN_MAX_LEN"
  by (simp_all add: demo_device_def)

text \<open>
  C13. Registering an installation: on a device without an object id that knows its installation id, when the
  server answers the request with a status of 2xx and a JSON text whose \<open>objectId\<close> is a string of at most 16
  characters, \<open>createInstallation\<close> sends exactly one request, which carries the installation id, and the client
  has exactly that object id and its old installation id afterwards; a further \<open>getInstallation\<close> sends nothing.
\<close>

theorem createInstallation_registers:
  assumes "device_ok st" "c_string (installationObjectId (client st)) = []" "c_string (installationId (client st)) \<noteq> []"
    and "server_answers P (request_text (request_fields (client st)) ''/1/installations'' ''POST''
      (Some (create_body (c_string (installationId (client st))))) False) (network st) (http_response d1 d2 d3 headers answer) w'"
    and "is_answer d1 d2 d3 headers answer" "is_success 0 (status_digits d1 d2 d3)"
    and "has_member ''objectId'' i answer" "i \<noteq> []" "length i \<le> OBJECT_ID_MAX_LEN"
  shows "\<exists>st'. createInstallation P st = Inr st' \<and> c_string (installationObjectId (client st')) = i \<and>
    c_string (installationId (client st')) = c_string (installationId (client st)) \<and>
    requests st' = requests st @ [post_request (c_string (installationId (client st)))] \<and> getInstallation P st' = Inr st'"
proof -
  obtain st' where "createInstallation P st = Inr st'" "c_string (installationObjectId (client st')) = i"
    "c_string (installationId (client st')) = c_string (installationId (client st))"
    "requests st' = requests st @ [(''POST'', ''/1/installations'', Some (create_body (c_string (installationId (client st)))), False)]"
    using created [OF assms(1-7,9)] by blast
  with assms(3,8) show ?thesis by (simp add: getInstallation_def post_request_def)
qed

theorem createInstallation_registers_witness:
  "\<exists>st'. createInstallation (demo_client_platform (http_response (CHR ''2'') (CHR ''0'') (CHR ''1'') '' OK'' (''{'' @ quoted ''objectId'' @ '':'' @ quoted ''o7'' @ ''}''))) (demo_device [] ''ab'' []) = Inr st' \<and>
    c_string (installationObjectId (client st')) = ''o7'' \<and> requests st' = [post_request ''ab'']"
proof -
  let ?a = "''{'' @ quoted ''objectId'' @ '':'' @ quoted ''o7'' @ ''}''" and ?st = "demo_device [] ''ab'' []"
  let ?r = "http_response (CHR ''2'') (CHR ''0'') (CHR ''1'') '' OK'' ?a"
  have ids: "c_string (installationId (client ?st)) = ''ab''" "c_string (installationObjectId (client ?st)) = []"
    by (simp_all add: text_field_string max_lens)
  have drops: "\<not> prefix (CRLF @ CRLF) (drop k ?r)" if "k < 15" for k
  proof -
    from that have "k = 0 \<or> k = 1 \<or> k = 2 \<or> k = 3 \<or> k = 4 \<or> k = 5 \<or> k = 6 \<or> k = 7 \<or> k = 8 \<or> k = 9 \<or>
      k = 10 \<or> k = 11 \<or> k = 12 \<or> k = 13 \<or> k = 14" by arith
    then show ?thesis unfolding http_response_def by auto
  qed
  have net: "server_answers (demo_client_platform ?r) t w ?r ()" for t w
    by (simp add: server_answers_def demo_client_platform_def http_response_def)
  have ans: "is_answer (CHR ''2'') (CHR ''0'') (CHR ''1'') '' OK'' ?a"
    unfolding is_answer_def using drops by (auto simp: isdigit_def http_response_def)
  have "has_member ''objectId'' ''o7'' ?a"
    unfolding has_member_def
    by (rule exI [of _ "[CHR ''{'', CHR 0x22]"], rule exI [of _ "[]"], rule exI [of _ "[]"],
        rule exI [of _ "[Ch (CHR ''o''), Ch (CHR ''7'')]"], rule exI [of _ "''}''"],
        rule exI [of _ True], rule exI [of _ 1]) (simp add: blanks_def)
  moreover have "is_success 0 (status_digits (CHR ''2'') (CHR ''0'') (CHR ''1''))" by (simp add: is_success_def status_digits_def)
  moreover have "device_ok ?st" by (rule demo_device_ok) simp_all
  ultimately have "\<exists>st'. createInstallation (demo_client_platform ?r) ?st = Inr st' \<and> c_string (installationObjectId (client st')) = ''o7'' \<and>
      c_string (installationId (client st')) = c_string (installationId (client ?st)) \<and>
      requests st' = requests ?st @ [post_request (c_string (installationId (client ?st)))] \<and>
      getInstallation (demo_client_platform ?r) st' = Inr st'"
    using ids net ans by (intro createInstallation_registers) (simp_all add: OBJECT_ID_MAX_LEN_def)
  then show ?thesis using ids(1) by auto
qed

text \<open>
  A list of results that does not fit into the 400 bytes of \<open>getInstallationByIdCallback\<close> is cut off, and a
  complete JSON text that is cut off right after a key makes the lookup of that key read outside of the array.
\<close>

theorem getInstallationByIdCallback_overrun:
  assumes "body_data body st = Some (results_text (rs @ c # rest) @ NUL # pad)"
    and "rs = CHR ''['' # CHR ''{'' # u @ ''objectId''" "length rs = 399" "NUL \<notin> set (rs @ c # rest)"
    and "copy_scan rs False 0 False = Some s"
    and "no_match ''objectId'' (CHR ''{'' # u) ''objectId''" "pre_scan (CHR ''{'' # u) False 0 = Some (inS, lvl)" "lvl \<le> 1"
  shows "getInstallationByIdCallback 0 200 body st = Inl OutOfBounds"
  using assms by (rule by_id_overrun)

definition long_results :: string where
  "long_results = CHR ''['' # CHR ''{'' # (quoted ''a'' @ '':'' @ CHR 0x22 # replicate 381 (CHR ''x'') @ [CHR 0x22, CHR '','', CHR 0x22]) @ ''objectId''"

definition long_answer :: string where
  "long_answer = results_text (long_results @ CHR 0x22 # CHR '':'' # quoted ''o7'' @ ''}]}'')"

lemma no_match_replicate:
  "key \<noteq> [] \<Longrightarrow> hd key \<noteq> c \<Longrightarrow> no_match key (replicate n c @ s) t \<longleftrightarrow> no_match key s t"
  by (induction n) (cases key; simp)+

lemma scans_replicate:
  "c \<notin> {CHR 0x22, CHR 0x5C} \<Longrightarrow> pre_scan (replicate n c @ s) True l = pre_scan s True l"
  "c \<notin> {CHR 0x22, CHR 0x5C, CHR ''{'', CHR ''['', CHR ''}'', CHR '']''} \<Longrightarrow> copy_scan (replicate n c @ s) True l False = copy_scan s True l False"
  by (induction n) simp_all

theorem getInstallationByIdCallback_overrun_witness:
  "getInstallationByIdCallback 0 200 (Some 0) ((demo_device [] ''ab'' [])\<lparr>dataBuffer := long_answer @ NUL # zeros 599\<rparr>) = Inl OutOfBounds"
proof (rule getInstallationByIdCallback_overrun)
  show "body_data (Some 0) ((demo_device [] ''ab'' [])\<lparr>dataBuffer := long_answer @ NUL # zeros 599\<rparr>) =
      Some (results_text (long_results @ CHR 0x22 # CHR '':'' # quoted ''o7'' @ ''}]}'') @ NUL # zeros 599)"
    by (simp add: body_data_def long_answer_def)
  show "long_results = CHR ''['' # CHR ''{'' # (quoted ''a'' @ '':'' @ CHR 0x22 # replicate 381 (CHR ''x'') @ [CHR 0x22, CHR '','', CHR 0x22]) @ ''objectId''"
    by (rule long_results_def)
  show "length long_results = 399" by (simp add: long_results_def)
  show "NUL \<notin> set (long_results @ CHR 0x22 # CHR '':'' # quoted ''o7'' @ ''}]}'')" by (simp add: long_results_def)
  show "copy_scan long_results False 0 False = Some (True, 2, False)" by (simp add: long_results_def scans_replicate)
  show "no_match ''objectId'' (CHR ''{'' # quoted ''a'' @ '':'' @ CHR 0x22 # replicate 381 (CHR ''x'') @ [CHR 0x22, CHR '','', CHR 0x22]) ''objectId''"
    by (simp add: no_match_replicate)
  show "pre_scan (CHR ''{'' # quoted ''a'' @ '':'' @ CHR 0x22 # replicate 381 (CHR ''x'') @ [CHR 0x22, CHR '','', CHR 0x22]) False 0 = Some (True, 1)"
    by (simp add: scans_replicate)
qed simp

text \<open>
  Setting an installation id without a connection: on a device without an object id, a new id that is not
  the old one up to case is stored in lower case, cut off to 36 characters, and is what \<open>parseGetInstallationId\<close>
  returns; two requests are tried, the query for the id and the creation, no callback of the application runs,
  and setting the same id again changes nothing and sends nothing.
\<close>

theorem parseSetInstallationId_offline:
  assumes "device_ok st" "i \<noteq> []" "NUL \<notin> set i" "\<not> strncasecmp_eq (c_string (installationId (client st))) i INSTALLATION_ID_MAX_LEN"
    and "offline P" "c_string (installationObjectId (client st)) = []"
  shows "\<exists>st'. parseSetInstallationId P (Some i) st = Inr st' \<and>
    parseGetInstallationId st' = Some (map lower (take INSTALLATION_ID_MAX_LEN i)) \<and>
    requests st' = requests st @ [query_request (map lower (take INSTALLATION_ID_MAX_LEN i)), post_request (map lower (take INSTALLATION_ID_MAX_LEN i))] \<and>
    events st' = events st \<and> parseSetInstallationId P (Some i) st' = Inr st'"
  using assms by (rule set_id_offline)

lemma offline_platform: "offline offline_platform"
  by (simp add: offline_def offline_platform_def)

lemma lower_B: "lower (CHR ''B'') = CHR ''b''" and lower_a: "lower (CHR ''a'') = CHR ''a''"
  by code_simp+

theorem parseSetInstallationId_offline_witness:
  "\<exists>st'. parseSetInstallationId offline_platform (Some ''aB'') (demo_device [] [] []) = Inr st' \<and>
    parseGetInstallationId st' = Some ''ab'' \<and> requests st' = [query_request ''ab'', post_request ''ab'']"
proof -
  have "device_ok (demo_device [] [] [])" by (rule demo_device_ok) simp_all
  moreover have "\<not> strncasecmp_eq (c_string (installationId (client (demo_device [] [] [])))) ''aB'' INSTALLATION_ID_MAX_LEN"
    by (simp add: text_field_string strncasecmp_eq_def INSTALLATION_ID_MAX_LEN_def tolower_def isupper_def)
  moreover have "c_string (installationObjectId (client (demo_device [] [] []))) = []" by (simp add: text_field_string)
  ultimately show ?thesis
    using parseSetInstallationId_offline [of "demo_device [] [] []" "''aB''", OF _ _ _ _ offline_platform]
    by (auto simp: INSTALLATION_ID_MAX_LEN_def lower_B lower_a)
qed

text \<open>
  Setting an installation id on a device that knows an object id stores the new id but sends nothing: the
  client keeps the object id of the old installation beside it.
\<close>

theorem parseSetInstallationId_keeps_object:
  assumes "device_ok st" "i \<noteq> []" "NUL \<notin> set i" "\<not> strncasecmp_eq (c_string (installationId (client st))) i INSTALLATION_ID_MAX_LEN"
    and "c_string (installationObjectId (client st)) \<noteq> []"
  shows "\<exists>st'. parseSetInstallationId P (Some i) st = Inr st' \<and>
    parseGetInstallationId st' = Some (map lower (take INSTALLATION_ID_MAX_LEN i)) \<and>
    installationObjectId (client st') = installationObjectId (client st) \<and> requests st' = requests st"
  using assms by (rule set_id_keeps_object)

theorem parseSetInstallationId_keeps_object_witness:
  "\<exists>st'. parseSetInstallationId offline_platform (Some ''aB'') (demo_device ''o7'' ''cd'' []) = Inr st' \<and>
    parseGetInstallationId st' = Some ''ab'' \<and> c_string (installationObjectId (client st')) = ''o7'' \<and> requests st' = []"
proof -
  have "device_ok (demo_device ''o7'' ''cd'' [])" by (rule demo_device_ok) simp_all
  moreover have "\<not> strncasecmp_eq (c_string (installationId (client (demo_device ''o7'' ''cd'' [])))) ''aB'' INSTALLATION_ID_MAX_LEN"
    by (simp add: text_field_string strncasecmp_eq_def INSTALLATION_ID_MAX_LEN_def tolower_def isupper_def)
  moreover have "c_string (installationObjectId (client (demo_device ''o7'' ''cd'' []))) = ''o7''"
    by (simp add: text_field_string OBJECT_ID_MAX_LEN_def)
  ultimately show ?thesis
    using parseSetInstallationId_keeps_object [of "demo_device ''o7'' ''cd'' []" "''aB''" offline_platform]
    by (auto simp: INSTALLATION_ID_MAX_LEN_def lower_B lower_a text_field_string OBJECT_ID_MAX_LEN_def)
qed

text \<open>
  Session tokens are compared without case: setting a token that differs from the current one only in the
  case of its letters changes nothing, and \<open>parseGetSessionToken\<close> does not return the token that was set.
\<close>

theorem parseSetSessionToken_ignores_case:
  assumes "map tolower t = map tolower (c_string (sessionToken (client st)))" "t \<noteq> c_string (sessionToken (client st))"
  shows "parseSetSessionToken P (Some t) st = Inr st \<and> parseGetSessionToken st \<noteq> Some t"
  using assms set_token_case [OF assms(1), of P] by (cases "t = []") (auto simp: parseGetSessionToken_def)

theorem parseSetSessionToken_ignores_case_witness:
  "parseSetSessionToken offline_platform (Some ''aB'') (demo_device [] [] ''ab'') = Inr (demo_device [] [] ''ab'') \<and>
    parseGetSessionToken (demo_device [] [] ''ab'') \<noteq> Some ''aB''"
  by (rule parseSetSessionToken_ignores_case)
    (simp_all add: text_field_string SESSION_TOKEN_MAX_LEN_def tolower_def isupper_def)

end
