(* ===== verification/Rtos_Frame.thy ===== *)
theory Rtos_Frame
  imports Rtos_Register
begin

text \<open>
  What requests leave alone: a property of the world that the network calls of a platform keep is kept by every
  request, and a device without ids keeps the installation id that it makes up for its first request. Only
  \<open>parseSetInstallationId\<close>, \<open>parseSetSessionToken\<close> and the push service save the client.
\<close>

section \<open>The world\<close>

definition keeps :: "('w \<Rightarrow> bool) \<Rightarrow> 'w client_platform \<Rightarrow> bool" where
  "keeps Q P \<longleftrightarrow> (\<forall>s p w. Q w \<longrightarrow> Q (snd (ssl_connect P s p w))) \<and> (\<forall>h s w. Q w \<longrightarrow> Q (snd (net_write P h s w))) \<and>
     (\<forall>h n t w x w'. Q w \<longrightarrow> net_read P h n t w = Inr (x, w') \<longrightarrow> Q w') \<and>
     (\<forall>m w. Q w \<longrightarrow> Q (snd (createNewInstallationId P m w)))"

lemma keepsD:
  assumes "keeps Q P" "Q w"
  shows "ssl_connect P s p w = (h, w') \<Longrightarrow> Q w'" "net_write P i t w = (k, w') \<Longrightarrow> Q w'"
    "net_read P i n k' w = Inr (x, w') \<Longrightarrow> Q w'" "createNewInstallationId P m w = (r, w') \<Longrightarrow> Q w'"
  using assms unfolding keeps_def by (metis snd_conv)+

lemma exchange_world:
  fixes P :: "'w client_platform"
  assumes "keeps Q P" "exchange P h n st = Inr (k, st')" "Q (network st)"
  shows "Q (network st')"
proof -
  from assms(2) obtain bytes where bytes: "peek (dataBuffer st) 0 (nat n) = Inr bytes"
    by (cases "peek (dataBuffer st) 0 (nat n)") (simp_all add: exchange_def)
  obtain status w where wr: "net_write P h bytes (network st) = (status, w)" by fastforce
  have "Q w" using keepsD(2) [OF assms(1,3) wr] .
  then show ?thesis using assms(2) bytes wr keepsD(3) [OF assms(1)]
    by (cases "0 \<le> status") (auto simp: exchange_def bindE_Inr_iff log_event_def)
qed

lemma sendRequest_world:
  fixes P :: "'w client_platform"
  assumes "keeps Q P" "sendRequest P c host httpVerb body add st = Inr (n, st')" "Q (network st)"
  shows "Q (network st')"
proof -
  obtain h w where con: "ssl_connect P ''api.parse.com'' 443 (network st) = (h, w)" by fastforce
  have Q: "Q w" using keepsD(1) [OF assms(1,3) con] .
  show ?thesis
  proof (cases "0 \<le> h")
    case False
    with assms(2) con Q show ?thesis by (auto simp: sendRequest_def)
  next
    case True
    with assms(2) con obtain k m where b: "buildRequestHeaders c host httpVerb body add = Inr (k, m)"
      by (cases "buildRequestHeaders c host httpVerb body add") (auto simp: sendRequest_def)
    let ?st = "log_event (OpenedSocket h) (st\<lparr>dataBuffer := m, network := w\<rparr>)"
    have "(if 0 \<le> k then exchange P h k ?st else Inr (k, ?st)) = Inr (n, st')"
      using assms(2) con True b by (simp add: sendRequest_def Let_def)
    moreover have "Q (network ?st)" using Q by (simp add: log_event_def)
    ultimately show ?thesis using exchange_world [OF assms(1)] by (auto split: if_splits)
  qed
qed

text \<open>A request ends with its callback, on a device with the same client.\<close>

lemma send_runs:
  assumes "keeps Q P" "send P httpVerb httpPath body cb add st = Inr st'" "device_ok st" "Q (network st)"
  obtains error httpStatus b st1 where "device_ok st1" "client st1 = client st" "Q (network st1)"
    "case cb of None \<Rightarrow> st' = st1 | Some f \<Rightarrow> f error httpStatus b st1 = Inr st'"
proof -
  let ?st = "st\<lparr>requests := requests st @ [(httpVerb, httpPath, body, add)]\<rparr>"
  from assms(2) obtain n st1 where s: "sendRequest P (request_fields (client st)) httpPath httpVerb body add ?st = Inr (n, st1)"
    and f: "(case cb of None \<Rightarrow> Inr st1
       | Some f \<Rightarrow> if n \<ge> 0 then bindE (getHttpResponseStatus (dataBuffer st1)) (\<lambda>httpStatus.
             bindE (getHttpResponseBody (dataBuffer st1)) (\<lambda>httpBody. f 0 httpStatus httpBody st1)) else f n (-1) None st1) = Inr st'"
    by (auto simp: send_def parseSendRequestInternal_def bindE_Inr_iff)
  have "device_ok ?st" using assms(3) by simp
  with sendRequest_device [OF s] have d: "device_ok st1" "client st1 = client st" by simp_all
  have "Q (network st1)" by (rule sendRequest_world [OF assms(1) s]) (simp add: assms(4))
  moreover have "\<exists>error httpStatus b. case cb of None \<Rightarrow> st' = st1 | Some f \<Rightarrow> f error httpStatus b st1 = Inr st'"
    using f by (cases cb) (auto simp: bindE_Inr_iff split: if_splits)
  ultimately show thesis using that d by blast
qed

section \<open>The first request of a device without ids\<close>

lemma first_id:
  assumes Q: "keeps Q P" "Q (network st)" and ok: "device_ok st"
    and new: "\<And>m w. str_field INSTALLATION_ID_MAX_LEN m \<Longrightarrow> \<exists>i w'. createNewInstallationId P m w = (Inr i, w') \<and>
      str_field INSTALLATION_ID_MAX_LEN i \<and> c_string i \<noteq> []"
    and ids: "c_string (installationObjectId (client st)) = []" "c_string (installationId (client st)) = []"
    and s: "parseSendRequest P httpVerb httpPath body cb st = Inr st'"
  shows "Q (network st') \<and> device_ok st' \<and> applicationId (client st') = applicationId (client st) \<and> c_string (installationId (client st')) \<noteq> []"
proof -
  obtain i w where i: "createNewInstallationId P (installationId (client st)) (network st) = (Inr i, w)"
    "str_field INSTALLATION_ID_MAX_LEN i" "c_string i \<noteq> []"
    using new client_ok_fields(2) [OF device_okD(1) [OF ok]] by metis
  let ?st = "st\<lparr>client := (client st)\<lparr>installationId := i\<rparr>, network := w\<rparr>"
  have st: "device_ok ?st" "Q (network ?st)" using ok i(2) keepsD(4) [OF Q i(1)] by (simp_all add: client_types)
  from s ids i(1) obtain st1 where
    post: "send P ''POST'' ''/1/installations'' (Some (create_body (c_string i))) (Some createInstallationCallback) False ?st = Inr st1"
    and app: "send P httpVerb httpPath body (if cb then Some application_callback else None) True st1 = Inr st'"
    by (auto simp: parseSendRequest_def getInstallation_def createInstallation_def new_installation_id_def bindE_Inr_iff)
  obtain e h b st2 where 2: "device_ok st2" "client st2 = client ?st" "Q (network st2)" "createInstallationCallback e h b st2 = Inr st1"
    by (rule send_runs [OF Q(1) post st]) auto
  have "typed (createInstallationCallback e h b st2)"
    using 2(1) by (simp add: createInstallationCallback_def read_objectId_typed clear_objectId_ok)
  then have ok1: "device_ok st1" by (simp add: 2(4))
  have 1: "network st1 = network st2" "installationId (client st1) = installationId (client st2)"
    "applicationId (client st1) = applicationId (client st2)"
    using 2(4) by (auto simp: createInstallationCallback_def read_objectId_def clear_objectId_def bindE_Inr_iff split: if_splits)
  have Q1: "Q (network st1)" using 1 2(3) by simp
  obtain e' h' b' st3 where 3: "device_ok st3" "client st3 = client st1" "Q (network st3)"
    "case (if cb then Some application_callback else None) of None \<Rightarrow> st' = st3 | Some f \<Rightarrow> f e' h' b' st3 = Inr st'"
    by (rule send_runs [OF Q(1) app ok1 Q1])
  from 3(4) have "network st' = network st3" "client st' = client st3" "device_ok st' \<longleftrightarrow> device_ok st3"
    by (cases cb; force simp: application_callback_def log_event_def)+
  with 1 2(2) 3 i(3) show ?thesis by simp
qed

section \<open>The rest of the client\<close>

text \<open>The client without what a registration changes.\<close>

definition unregistered :: "parse_client \<Rightarrow> parse_client" where
  "unregistered c = c\<lparr>installationObjectId := [], installationId := []\<rparr>"

lemma unregistered_updates [simp]:
  "unregistered (c\<lparr>installationObjectId := m\<rparr>) = unregistered c" "unregistered (c\<lparr>installationId := m\<rparr>) = unregistered c"
  by (simp_all add: unregistered_def)

lemma unregistered_fields:
  assumes "unregistered c' = unregistered c"
  shows "applicationId c' = applicationId c" "sessionToken c' = sessionToken c" "lastPushTime c' = lastPushTime c"
  using arg_cong [OF assms, of applicationId] arg_cong [OF assms, of sessionToken] arg_cong [OF assms, of lastPushTime]
  by (simp_all add: unregistered_def)

definition same_rest :: "'w device \<Rightarrow> mem_error + 'w device \<Rightarrow> bool" where
  "same_rest st r \<longleftrightarrow> (\<forall>st'. r = Inr st' \<longrightarrow> unregistered (client st') = unregistered (client st))"

lemma same_rest_simps [simp]:
  "same_rest st (Inl e)" "same_rest st (Inr st') \<longleftrightarrow> unregistered (client st') = unregistered (client st)"
  by (simp_all add: same_rest_def)

lemma same_rest_seq:
  assumes "same_rest st r" "\<And>st1. r = Inr st1 \<Longrightarrow> same_rest st1 (f st1)"
  shows "same_rest st (bindE r f)"
proof (cases r)
  case (Inr st1)
  with assms(1) assms(2) [OF Inr] show ?thesis by (auto simp: same_rest_def)
qed simp

lemma read_ids_rest: "same_rest st (read_objectId json st)" "same_rest st (read_installationId json st)"
  by (auto simp: same_rest_def read_objectId_def read_installationId_def bindE_Inr_iff)

lemma createInstallationCallback_rest: "same_rest st (createInstallationCallback error httpStatus b st)"
  by (simp add: createInstallationCallback_def read_ids_rest clear_objectId_def)

lemma getInstallationCallback_rest: "same_rest st (getInstallationCallback error httpStatus b st)"
  by (simp add: getInstallationCallback_def clear_objectId_def same_rest_seq read_ids_rest)

lemma getInstallationByIdCallback_rest: "same_rest st (getInstallationByIdCallback error httpStatus b st)"
proof (cases "is_success error httpStatus \<and> (\<exists>r. json_field (body_data b st) ''results'' (zeros 400) 400 = Inr r)")
  case True
  then obtain status q where "json_field (body_data b st) ''results'' (zeros 400) 400 = Inr (status, q)" by auto
  with True show ?thesis by (simp add: getInstallationByIdCallback_def same_rest_seq read_ids_rest)
next
  case False
  then show ?thesis
    by (cases "json_field (body_data b st) ''results'' (zeros 400) 400")
      (auto simp: getInstallationByIdCallback_def clear_objectId_def)
qed

lemma send_rest:
  assumes "device_ok st" "\<And>f error httpStatus b st1. cb = Some f \<Longrightarrow> device_ok st1 \<Longrightarrow> same_rest st1 (f error httpStatus b st1)"
  shows "same_rest st (send P httpVerb httpPath body cb add st)"
  unfolding same_rest_def
proof (intro allI impI)
  fix st' assume s: "send P httpVerb httpPath body cb add st = Inr st'"
  obtain e h b st1 where 1: "device_ok st1" "client st1 = client st"
    "case cb of None \<Rightarrow> st' = st1 | Some f \<Rightarrow> f e h b st1 = Inr st'"
    by (rule send_runs [where Q = "\<lambda>w. True", OF _ s assms(1)]) (simp_all add: keeps_def)
  show "unregistered (client st') = unregistered (client st)"
  proof (cases cb)
    case (Some f)
    with assms(2) [OF Some 1(1), of e h b] 1 show ?thesis by simp
  qed (use 1 in simp)
qed

context client_platform_laws
begin

lemma createInstallation_rest:
  assumes "good p" "device_ok st"
  shows "same_rest st (createInstallation (plat p) st)"
proof (cases "c_string (installationObjectId (client st)) = []")
  case True
  have "same_rest st (if c_string (installationId (client st)) = [] then new_installation_id (plat p) st else Inr st)"
    by (auto simp: same_rest_def new_installation_id_def bindE_Inr_iff split: prod.splits)
  moreover have "typed (if c_string (installationId (client st)) = [] then new_installation_id (plat p) st else Inr st)"
    using assms new_id_typed by simp
  ultimately show ?thesis unfolding createInstallation_def if_P [OF True]
    by (intro same_rest_seq send_rest) (auto simp: createInstallationCallback_rest)
qed (simp add: createInstallation_def)

lemma getInstallation_rest:
  assumes "good p" "device_ok st"
  shows "same_rest st (getInstallation (plat p) st)"
proof -
  have seq: "same_rest st (bindE r (createInstallation (plat p)))" if "same_rest st r" "typed r" for r
    using that(1) by (rule same_rest_seq) (use that(2) createInstallation_rest [OF assms(1)] in simp)
  then show ?thesis unfolding getInstallation_def Let_def
    using assms by (auto intro!: seq send_rest send_typed createInstallation_rest
      simp: getInstallationCallback_rest getInstallationByIdCallback_rest callbacks_typed)
qed

lemma getSession_rest:
  assumes "good p" "device_ok st"
  shows "same_rest st (getSession (plat p) st)"
  unfolding getSession_def
proof (rule same_rest_seq [OF getInstallation_rest [OF assms]])
  fix st1 assume "getInstallation (plat p) st = Inr st1"
  with getInstallation_typed [OF assms] have "device_ok st1" by simp
  then show "same_rest st1 (send (plat p) ''GET'' ''/1/sessions/me'' None (Some (getSessionCallback (plat p))) True st1)"
  proof (rule send_rest)
    fix f error httpStatus b and st2 :: "'w device"
    assume f: "Some (getSessionCallback (plat p)) = Some f" and ok: "device_ok st2"
    have "same_rest st2 (associateSessionWithInstallation (plat p) st2)"
      using send_rest [OF ok, of None] by (simp add: associateSessionWithInstallation_def)
    then have "same_rest st2 (getSessionCallback (plat p) error httpStatus b st2)"
      unfolding getSessionCallback_def
      by (cases "json_field (body_data b st2) ''installationId'' (zeros (INSTALLATION_ID_MAX_LEN + 1)) (INSTALLATION_ID_MAX_LEN + 1)") auto
    with f show "same_rest st2 (f error httpStatus b st2)" by simp
  qed
qed

text \<open>A token that is set is saved, with the rest of the client.\<close>

lemma token_saved:
  assumes p: "good p" and ok: "device_ok st" and t: "t \<noteq> []" "NUL \<notin> set t"
    and new: "\<not> strncasecmp_eq (c_string (sessionToken (client st))) t SESSION_TOKEN_MAX_LEN"
    and s: "parseSetSessionToken (plat p) (Some t) st = Inr st'"
  shows "\<exists>w. network st' = saveClientState (plat p) (client st') w \<and> client_ok (client st') \<and>
    applicationId (client st') = applicationId (client st) \<and> c_string (sessionToken (client st')) = take SESSION_TOKEN_MAX_LEN t"
proof -
  obtain m where m: "strncpy (sessionToken (client st)) t SESSION_TOKEN_MAX_LEN = Inr m" "str_field SESSION_TOKEN_MAX_LEN m"
    "c_string m = take SESSION_TOKEN_MAX_LEN t"
    using strncpy_field [OF client_ok_fields(3) [OF device_okD(1) [OF ok]]] t(2) by metis
  let ?st = "st\<lparr>client := (client st)\<lparr>sessionToken := m\<rparr>\<rparr>"
  from s t(1) new m(1) obtain st1 where st1: "getSession (plat p) ?st = Inr st1" "st' = save (plat p) st1"
    by (auto simp: parseSetSessionToken_def bindE_Inr_iff)
  have "device_ok ?st" using ok m(2) by (simp add: client_types)
  from getSession_rest [OF p this] getSession_typed [OF p this] st1(1) have
    "unregistered (client st1) = unregistered (client ?st)" "device_ok st1" by simp_all
  with unregistered_fields [of "client st1" "client ?st"] m(3) st1(2) show ?thesis
    by (auto simp: save_def device_okD)
qed

end

end
