(* ===== verification/Cc3200_Client.thy ===== *)
theory Cc3200_Client
  imports Cc3200_Certificate Cc3200_Push Rtos_Frame
begin

text \<open>
  The client on the CC3200: \<open>socketSslConnect\<close> of \<^verbatim>\<open>cc3200/src/socket.c\<close>, the version and the installation id of
  \<^verbatim>\<open>cc3200/src/utils.c\<close>, and the platform of the client built from them, from the sockets and from the file of
  the client's state. The static variables of \<^verbatim>\<open>utils.c\<close> are part of the world of the platform.
\<close>

section \<open>Definitions\<close>

text \<open>
  The calls of the driver that open a connection, with the status that each returns and the address of a host; \<open>wait_connect\<close> is
  \<open>socketWait\<close> with its timeout in microseconds.
\<close>

datatype sock_option = SecMethod | CaFile | NonBlocking | KeepAlive

record 'w ssl_api =
  gethostbyname_call :: "string \<Rightarrow> 'w \<Rightarrow> (int \<times> nat) \<times> 'w"
  socket_call :: "'w \<Rightarrow> int \<times> 'w"
  setsockopt_call :: "int \<Rightarrow> sock_option \<Rightarrow> 'w \<Rightarrow> int \<times> 'w"
  connect_call :: "int \<Rightarrow> nat \<Rightarrow> nat \<Rightarrow> 'w \<Rightarrow> int \<times> 'w"
  wait_connect :: "int \<Rightarrow> nat \<Rightarrow> 'w \<Rightarrow> int \<times> 'w"
  close_call :: "int \<Rightarrow> 'w \<Rightarrow> 'w"

definition if_ok :: "('w \<Rightarrow> int \<times> 'w) \<Rightarrow> int \<times> 'w \<Rightarrow> int \<times> 'w" where
  "if_ok f r = (case r of (status, w) \<Rightarrow> if status \<ge> 0 then f w else (status, w))"

definition connect_steps :: "'w ssl_api \<Rightarrow> 'w fs_api \<Rightarrow> int \<Rightarrow> nat \<Rightarrow> nat \<Rightarrow> ('w \<Rightarrow> int \<times> 'w) list" where
  "connect_steps S F sock destinationIp port =
     [setsockopt_call S sock SecMethod,
      (\<lambda>w. setsockopt_call S sock CaFile (ensureCertificate F w)),
      connect_call S sock destinationIp port,
      wait_connect S sock (5 * 1000 * 1000),
      setsockopt_call S sock NonBlocking,
      setsockopt_call S sock KeepAlive]"

definition socketSslConnect :: "'w ssl_api \<Rightarrow> 'w fs_api \<Rightarrow> string \<Rightarrow> nat \<Rightarrow> 'w \<Rightarrow> int \<times> 'w" where
  "socketSslConnect S F host port w =
     (case gethostbyname_call S host w of ((status, destinationIp), w) \<Rightarrow>
      case if_ok (socket_call S) (status, w) of (status, w) \<Rightarrow>
        let sock = (if status \<ge> 0 then status else -1) in
        (case fold if_ok (connect_steps S F sock destinationIp port) (status, w) of (status, w) \<Rightarrow>
           if status < 0 then (status, close_call S sock w) else (sock, w)))"

record 'w sdk_board = "'w board" +
  ssl :: "'w ssl_api"
  files :: "'w fs_api"
  dev_version :: "'w \<Rightarrow> (int \<times> nat \<times> nat \<times> nat \<times> nat) \<times> 'w"
  srand_call :: "nat \<Rightarrow> 'w \<Rightarrow> 'w"
  rand_call :: "'w \<Rightarrow> nat \<times> 'w"

text \<open>\<open>%x\<close> of a number below 16, and the numbers of 32 calls \<open>rand() % 16\<close>, taken from left to right.\<close>

definition hex_digit :: "nat \<Rightarrow> char" where
  "hex_digit d = (if d < 10 then char_of (48 + d) else char_of (87 + d))"

fun draw :: "('w \<Rightarrow> nat \<times> 'w) \<Rightarrow> nat \<Rightarrow> 'w \<Rightarrow> nat list \<times> 'w" where
  "draw r 0 w = ([], w)"
| "draw r (Suc n) w = (case r w of (d, w) \<Rightarrow> case draw r n w of (ds, w) \<Rightarrow> (d mod 16 # ds, w))"

definition uuid_text :: "nat list \<Rightarrow> string" where
  "uuid_text ds =
     (let x = map hex_digit ds in
      take 8 x @ ''-'' @ take 4 (drop 8 x) @ ''-'' @ take 4 (drop 12 x) @ ''-'' @ take 4 (drop 16 x) @ ''-'' @ take 12 (drop 20 x))"

type_synonym 'w board_world = "('w \<times> date_time) \<times> bool"

definition on_board :: "('w \<Rightarrow> 'a \<times> 'w) \<Rightarrow> 'w board_world \<Rightarrow> 'a \<times> 'w board_world" where
  "on_board f bw = (case bw of ((w, lastDateTime), randInitialized) \<Rightarrow>
     case f w of (r, w') \<Rightarrow> (r, ((w', lastDateTime), randInitialized)))"

definition createNewInstallationId :: "'w sdk_board \<Rightarrow> char list \<Rightarrow> 'w board_world \<Rightarrow> (mem_error + char list) \<times> 'w board_world" where
  "createNewInstallationId B m bw = (case bw of ((w, lastDateTime), randInitialized) \<Rightarrow>
     let w = (if \<not> randInitialized then srand_call B (unat (sl_tm_sec (clock B w))) w else w) in
     case draw (rand_call B) 32 w of (ds, w) \<Rightarrow>
       (bindE (snprintf m 0 (int (INSTALLATION_ID_MAX_LEN + 1)) (uuid_text ds)) (\<lambda>(_, m). Inr m), ((w, lastDateTime), True)))"

definition fetchDeviceOSVersion :: "'w sdk_board \<Rightarrow> char list \<Rightarrow> nat \<Rightarrow> 'w \<Rightarrow> (mem_error + char list) \<times> 'w" where
  "fetchDeviceOSVersion B buf bufLen w =
     (case dev_version B w of ((status, v0, v1, v2, v3), w) \<Rightarrow>
        (if status \<ge> 0 then
           bindE (snprintf buf 0 (int bufLen)
             (decimal v0 @ ''.'' @ decimal v1 @ ''.'' @ decimal v2 @ ''.'' @ decimal v3)) (\<lambda>(_, buf). Inr buf)
         else Inr buf, w))"

definition cc3200_client :: "'w sdk_board \<Rightarrow> 'w board_world client_platform" where
  "cc3200_client B =
     \<lparr>ssl_connect = (\<lambda>host port. on_board (socketSslConnect (ssl B) (files B) host port)),
      net_write = (\<lambda>h s. on_board (socketWrite (send_call B) h s)),
      net_read = (\<lambda>h n t bw. case bw of ((w, lastDateTime), randInitialized) \<Rightarrow>
        (case socketRead (driver B) h n t w of
           None \<Rightarrow> Inl NoReturn
         | Some (r, w') \<Rightarrow> Inr (r, ((w', lastDateTime), randInitialized)))),
      saveClientState = (\<lambda>c bw. snd (on_board (save_state (files B) c) bw)),
      loadClientState = (\<lambda>c bw. case bw of ((w, lastDateTime), randInitialized) \<Rightarrow>
        bindE (load_state (files B) c w) (\<lambda>(_, c, w'). Inr (c, ((w', lastDateTime), randInitialized)))),
      fetchDeviceOSVersion = (\<lambda>buf bufLen. on_board (fetchDeviceOSVersion B buf bufLen)),
      createNewInstallationId = createNewInstallationId B\<rparr>"

section \<open>Connections\<close>

text \<open>\<open>select\<close> returns 0 when the time is over: a connection that was not made in time is returned as made.\<close>

lemma connect_timeout:
  assumes "gethostbyname_call S host w = ((s0, ip), w0)" "0 \<le> s0" "socket_call S w0 = (sock, w1)" "0 \<le> sock"
    and "setsockopt_call S sock SecMethod w1 = (s2, w2)" "0 \<le> s2"
    and "setsockopt_call S sock CaFile (ensureCertificate F w2) = (s3, w3)" "0 \<le> s3"
    and "connect_call S sock ip port w3 = (s4, w4)" "0 \<le> s4"
    and "wait_connect S sock (5 * 1000 * 1000) w4 = (0, w5)"
    and "setsockopt_call S sock NonBlocking w5 = (s6, w6)" "0 \<le> s6"
    and "setsockopt_call S sock KeepAlive w6 = (s7, w7)" "0 \<le> s7"
  shows "socketSslConnect S F host port w = (sock, w7)"
  using assms by (simp add: socketSslConnect_def connect_steps_def if_ok_def)

text \<open>A connection that fails closes the socket, or the handle -1 when there is none, and returns the error.\<close>

lemma connect_fails:
  assumes "socketSslConnect S F host port w = (status, w')" "status < 0"
  shows "\<exists>h w1. w' = close_call S h w1 \<and> (h = -1 \<or> (\<exists>w2 w3. socket_call S w2 = (h, w3) \<and> 0 \<le> h))"
proof -
  obtain s0 ip w0 where 0: "gethostbyname_call S host w = ((s0, ip), w0)" by (metis prod.collapse)
  obtain s1 w1 where 1: "if_ok (socket_call S) (s0, w0) = (s1, w1)" by fastforce
  let ?sock = "if s1 \<ge> 0 then s1 else -1"
  obtain s2 w2 where 2: "fold if_ok (connect_steps S F ?sock ip port) (s1, w1) = (s2, w2)" by fastforce
  have r: "(status, w') = (if s2 < 0 then (s2, close_call S ?sock w2) else (?sock, w2))"
    using assms(1) 0 1 2 by (simp add: socketSslConnect_def Let_def)
  have neg: "fst (fold if_ok fs (x, v)) < 0" if "x < 0" for fs x v using that
    by (induction fs) (simp_all add: if_ok_def)
  have s2: "s2 < 0"
  proof (rule ccontr)
    assume "\<not> s2 < 0"
    then have "\<not> s1 < 0" using neg [of s1 "connect_steps S F ?sock ip port" w1] 2 by auto
    with \<open>\<not> s2 < 0\<close> r assms(2) show False by simp
  qed
  show ?thesis
  proof (cases "0 \<le> s1")
    case True
    then have "0 \<le> s0" "socket_call S w0 = (s1, w1)" using 1 by (auto simp: if_ok_def split: if_splits)
    with r s2 True show ?thesis by auto
  qed (use r s2 in auto)
qed

section \<open>Installation ids\<close>

lemma draw_length: "length (fst (draw r n w)) = n" and draw_less: "d \<in> set (fst (draw r n w)) \<Longrightarrow> d < 16"
  by (induction n arbitrary: w) (auto simp: case_prod_beta)

lemma uuid_length: "length ds = 32 \<Longrightarrow> length (uuid_text ds) = 36"
  by (simp add: uuid_text_def Let_def)

lemma hex_digit_plain: "d < 16 \<Longrightarrow> hex_digit d \<noteq> NUL \<and> \<not> isupper (hex_digit d)"
proof -
  assume d: "d < 16"
  have n: "of_char (hex_digit d) = (if d < 10 then 48 + d else 87 + d)" using d by (simp add: hex_digit_def)
  then show ?thesis using d by (auto simp: isupper_def split: if_splits)
qed

lemma uuid_chars: "c \<in> set (uuid_text ds) \<Longrightarrow> c = CHR ''-'' \<or> (\<exists>d \<in> set ds. c = hex_digit d)"
  by (auto simp: uuid_text_def Let_def dest!: in_set_takeD in_set_dropD)

lemma uuid_plain: "\<forall>d \<in> set ds. d < 16 \<Longrightarrow> c \<in> set (uuid_text ds) \<Longrightarrow> c \<noteq> NUL \<and> \<not> isupper c"
  using uuid_chars [of c ds] hex_digit_plain by (auto simp: isupper_def)

lemma uuid_printed:
  assumes "str_field INSTALLATION_ID_MAX_LEN m" "length ds = 32"
  shows "snprintf m 0 (int (INSTALLATION_ID_MAX_LEN + 1)) (uuid_text ds) = Inr (36, uuid_text ds @ [NUL])"
proof -
  have "poke m 0 (uuid_text ds @ [NUL]) = Inr (uuid_text ds @ [NUL])"
    using assms uuid_length [OF assms(2)] by (simp add: poke_def str_field_def INSTALLATION_ID_MAX_LEN_def)
  then show ?thesis using uuid_length [OF assms(2)] by (simp add: snprintf_def INSTALLATION_ID_MAX_LEN_def)
qed

lemma new_id_stream:
  assumes "str_field INSTALLATION_ID_MAX_LEN m"
  shows "fst (createNewInstallationId B m ((w, d), False)) =
    Inr (uuid_text (fst (draw (rand_call B) 32 (srand_call B (unat (sl_tm_sec (clock B w))) w))) @ [NUL])"
proof -
  let ?w = "srand_call B (unat (sl_tm_sec (clock B w))) w"
  obtain ds w' where ds: "draw (rand_call B) 32 ?w = (ds, w')" by fastforce
  with draw_length [of "rand_call B" 32 ?w] have l: "length ds = 32" by simp
  from ds uuid_printed [OF assms l] show ?thesis by (simp add: createNewInstallationId_def)
qed

lemma new_id:
  assumes "str_field INSTALLATION_ID_MAX_LEN m"
  shows "\<exists>ds m' bw'. length ds = 32 \<and> (\<forall>d \<in> set ds. d < 16) \<and> createNewInstallationId B m bw = (Inr m', bw') \<and>
    m' = uuid_text ds @ [NUL] \<and> snd bw'"
proof -
  obtain w lastDateTime r where bw: "bw = ((w, lastDateTime), r)" by (metis prod.collapse)
  let ?w = "if \<not> r then srand_call B (unat (sl_tm_sec (clock B w))) w else w"
  obtain ds w' where ds: "draw (rand_call B) 32 ?w = (ds, w')" by fastforce
  with draw_length [of "rand_call B" 32 ?w] draw_less [of _ "rand_call B" 32 ?w]
  have l: "length ds = 32" "\<forall>d \<in> set ds. d < 16" by auto
  from ds uuid_printed [OF assms l(1)] have "createNewInstallationId B m bw = (Inr (uuid_text ds @ [NUL]), ((w', lastDateTime), True))"
    by (simp add: createNewInstallationId_def bw Let_def)
  with l show ?thesis by fastforce
qed

text \<open>The laws that the client relies on hold on the CC3200.\<close>

interpretation cc_client: client_platform_laws cc3200_client "\<lambda>B. recv_ok (driver B)"
proof
  fix B :: "'a sdk_board" and h :: int and bw :: "'a board_world"
  assume ok: "recv_ok (driver B)" and h: "0 \<le> h"
  obtain w lastDateTime r where bw: "bw = ((w, lastDateTime), r)" by (metis prod.collapse)
  show "net_read (cc3200_client B) h 1024 5000 bw = Inl NoReturn \<or>
    (\<exists>len received bw'. net_read (cc3200_client B) h 1024 5000 bw = Inr ((len, received @ [NUL]), bw') \<and> length received < 1024)"
  proof (cases "socketRead (driver B) h 1024 5000 w")
    case None
    then show ?thesis by (simp add: cc3200_client_def bw)
  next
    case (Some q)
    obtain len written w' where q: "q = ((len, written), w')" by (metis prod.collapse)
    from socketRead_written [OF ok h _ Some [unfolded q]] Some q show ?thesis by (auto simp: cc3200_client_def bw)
  qed
next
  fix B :: "'a sdk_board" and m and bw :: "'a board_world"
  assume "recv_ok (driver B)" and m: "str_field INSTALLATION_ID_MAX_LEN m"
  from new_id [OF m, of B bw] obtain ds m' bw' where n: "length ds = 32" "createNewInstallationId B m bw = (Inr m', bw')"
    "m' = uuid_text ds @ [NUL]" by blast
  then have "str_field INSTALLATION_ID_MAX_LEN m'"
    using uuid_length [OF n(1)] by (simp add: str_field_def INSTALLATION_ID_MAX_LEN_def nth_append)
  with n(2) show "\<exists>m' bw'. client_platform.createNewInstallationId (cc3200_client B) m bw = (Inr m', bw') \<and> str_field INSTALLATION_ID_MAX_LEN m'"
    by (simp add: cc3200_client_def)
qed

end
