(* ===== verification/Rtos_Start.thy ===== *)
theory Rtos_Start
  imports Rtos_Register
begin

text \<open>
  \<open>parseStartPushService\<close> of \<^verbatim>\<open>rtos/push.c\<close>: the installation is looked up, a connection to the push server is
  opened and a handshake with the ids of the client is written into the receive buffer and sent. From then on
  the device is a push service of \<open>Rtos_Push\<close>.
\<close>

section \<open>Definitions\<close>

record 'w push_device =
  dev :: "'w device"
  pushDataBuffer :: "char list"
  pushDataBufferUsed :: int
  pushed :: "push_effect list"

definition log_push :: "push_effect \<Rightarrow> 'w push_device \<Rightarrow> 'w push_device" where
  "log_push e st = st\<lparr>pushed := pushed st @ [e]\<rparr>"

definition handshake :: "parse_client \<Rightarrow> string" where
  "handshake c =
     (let t = c_string (lastPushTime c) in
      ''{'' @ quoted ''installation_id'' @ '':'' @ quoted (c_string (installationId c)) @ '', '' @
      quoted ''oauth_key'' @ '':'' @ quoted (c_string (applicationId c)) @ '', '' @
      quoted ''v'' @ '': '' @ quoted ''e1.0.0'' @ '', '' @ quoted ''last'' @ '': '' @
      (if t \<noteq> [] then quoted t else ''null'') @ ''}'')"

text \<open>The callback is called when the service cannot be started.\<close>

definition start_failed :: "int \<Rightarrow> 'w push_device \<Rightarrow> int \<times> 'w push_device" where
  "start_failed status st = (status, if callback (client (dev st)) then log_push (Callback status None) st else st)"

definition parseStartPushService :: "'w client_platform \<Rightarrow> 'w push_device \<Rightarrow> mem_error + (int \<times> 'w push_device)" where
  "parseStartPushService P st =
     bindE (getInstallation P (dev st)) (\<lambda>d.
       case ssl_connect P ''push.parse.com'' 443 (network d) of (socket, w) \<Rightarrow>
         let d = d\<lparr>network := w\<rparr> in
         if socket \<ge> 0 then
           bindE (snprintf (pushDataBuffer st) 0 (int RECEIVE_BUFFER_SIZE - 1) (handshake (client d) @ CRLF)) (\<lambda>(_, buf).
           bindE (strlen_from buf 0) (\<lambda>n.
           bindE (peek buf 0 n) (\<lambda>bytes.
             case net_write P socket bytes (network d) of (status, w) \<Rightarrow>
               let st = st\<lparr>dev := d\<lparr>network := w\<rparr>, pushDataBuffer := buf\<rparr> in
               if status < 0 then Inr (start_failed status (log_push (Closed socket) st))
               else Inr (status, st\<lparr>dev := (dev st)\<lparr>client := (client d)\<lparr>socketHandle := socket\<rparr>\<rparr>\<rparr>))))
         else Inr (start_failed socket (st\<lparr>dev := d\<rparr>)))"

text \<open>The device as the state of the push service.\<close>

definition service_of :: "'w push_device \<Rightarrow> 'w service" where
  "service_of st = service.make (socketHandle (client (dev st))) (nFailedPing (client (dev st))) (callback (client (dev st)))
     (lastPushTime (client (dev st))) (pushDataBuffer st) (pushDataBufferUsed st) (network (dev st)) (pushed st)"

section \<open>Starting\<close>

definition push_device_ok :: "'w push_device \<Rightarrow> bool" where
  "push_device_ok st \<longleftrightarrow> device_ok (dev st) \<and> length (pushDataBuffer st) = RECEIVE_BUFFER_SIZE \<and>
     -1 \<le> pushDataBufferUsed st \<and> pushDataBufferUsed st < int RECEIVE_BUFFER_SIZE"

lemma service_of_inv: "push_device_ok st \<Longrightarrow> service_inv (service_of st)"
  by (simp add: push_device_ok_def service_inv_def service_of_def service.make_def device_ok_def client_ok_def str_field_def)

lemma handshake_length: "client_ok c \<Longrightarrow> length (handshake c) \<le> 200"
  using client_ok_lengths [of c] by (auto simp: handshake_def Let_def)

lemma handshake_no_nul: "NUL \<notin> set (handshake c @ CRLF)"
  by (auto simp: handshake_def Let_def)

lemma handshake_printed:
  assumes "client_ok c" "length m = RECEIVE_BUFFER_SIZE"
  shows "\<exists>buf. snprintf m 0 (int RECEIVE_BUFFER_SIZE - 1) (handshake c @ CRLF) = Inr (int (length (handshake c @ CRLF)), buf) \<and>
    buf = handshake c @ CRLF @ NUL # drop (length (handshake c) + 3) m \<and> length buf = RECEIVE_BUFFER_SIZE \<and>
    strlen_from buf 0 = Inr (length (handshake c @ CRLF)) \<and> peek buf 0 (length (handshake c @ CRLF)) = Inr (handshake c @ CRLF)"
proof -
  let ?t = "handshake c @ CRLF" and ?buf = "handshake c @ CRLF @ NUL # drop (length (handshake c) + 3) m"
  have len: "length ?t \<le> 202" using handshake_length [OF assms(1)] by simp
  have "poke m 0 (?t @ [NUL]) = Inr ?buf" using len assms(2) by (simp add: poke_def RECEIVE_BUFFER_SIZE_def eval_nat_numeral)
  moreover have "take 1022 ?t = ?t" using len by simp
  ultimately have "snprintf m 0 (int RECEIVE_BUFFER_SIZE - 1) ?t = Inr (int (length ?t), ?buf)"
    by (simp add: snprintf_def RECEIVE_BUFFER_SIZE_def)
  moreover have "length ?buf = RECEIVE_BUFFER_SIZE" using len assms(2) by (simp add: RECEIVE_BUFFER_SIZE_def)
  moreover have "holds ?buf 0 ?t" using handshake_no_nul [of c] by (simp add: holds_def)
  then have "strlen_from ?buf 0 = Inr (length ?t)" by (rule strlen_holds)
  moreover have "peek ?buf 0 (length ?t) = Inr ?t" by (simp add: peek_def)
  ultimately show ?thesis by blast
qed

text \<open>What a start ends with, once the installation is known.\<close>

lemma started:
  assumes d: "getInstallation P (dev st) = Inr d" "device_ok d" and buf: "length (pushDataBuffer st) = RECEIVE_BUFFER_SIZE"
  obtains socket w where "ssl_connect P ''push.parse.com'' 443 (network d) = (socket, w)" "socket < 0"
      "parseStartPushService P st = Inr (start_failed socket (st\<lparr>dev := d\<lparr>network := w\<rparr>\<rparr>))"
  | socket w status w' where "ssl_connect P ''push.parse.com'' 443 (network d) = (socket, w)" "0 \<le> socket" "status < 0"
      "net_write P socket (handshake (client d) @ CRLF) w = (status, w')"
      "parseStartPushService P st = Inr (start_failed status (log_push (Closed socket) (st\<lparr>dev := d\<lparr>network := w'\<rparr>,
         pushDataBuffer := handshake (client d) @ CRLF @ NUL # drop (length (handshake (client d)) + 3) (pushDataBuffer st)\<rparr>)))"
  | socket w status w' where "ssl_connect P ''push.parse.com'' 443 (network d) = (socket, w)" "0 \<le> socket" "0 \<le> status"
      "net_write P socket (handshake (client d) @ CRLF) w = (status, w')"
      "parseStartPushService P st = Inr (status, st\<lparr>dev := d\<lparr>network := w', client := (client d)\<lparr>socketHandle := socket\<rparr>\<rparr>,
         pushDataBuffer := handshake (client d) @ CRLF @ NUL # drop (length (handshake (client d)) + 3) (pushDataBuffer st)\<rparr>)"
proof -
  obtain socket w where con: "ssl_connect P ''push.parse.com'' 443 (network d) = (socket, w)" by fastforce
  obtain status w' where wr: "net_write P socket (handshake (client d) @ CRLF) w = (status, w')" by fastforce
  note p = handshake_printed [OF device_okD(1) [OF d(2)] buf]
  show thesis
  proof (cases "0 \<le> socket")
    case False
    with con d(1) that(1) show ?thesis by (simp add: parseStartPushService_def)
  next
    case True
    let ?st = "st\<lparr>dev := d\<lparr>network := w'\<rparr>,
      pushDataBuffer := handshake (client d) @ CRLF @ NUL # drop (length (handshake (client d)) + 3) (pushDataBuffer st)\<rparr>"
    have eq: "parseStartPushService P st = Inr (if status < 0 then start_failed status (log_push (Closed socket) ?st)
        else (status, ?st\<lparr>dev := (dev ?st)\<lparr>client := (client d)\<lparr>socketHandle := socket\<rparr>\<rparr>\<rparr>))"
      using con wr d(1) p True by (auto simp: parseStartPushService_def Let_def)
    show ?thesis
    proof (cases "status < 0")
      case neg: True
      with eq show ?thesis using that(2) [OF con True neg wr] by simp
    next
      case False
      with eq show ?thesis using that(3) [OF con True _ wr] by simp
    qed
  qed
qed

lemma log_push_simps [simp]: "dev (log_push e st) = dev st" "pushDataBuffer (log_push e st) = pushDataBuffer st"
  "pushDataBufferUsed (log_push e st) = pushDataBufferUsed st" "pushed (log_push e st) = pushed st @ [e]"
  by (simp_all add: log_push_def)

lemma start_failed_simps [simp]: "fst (start_failed s st) = s" "dev (snd (start_failed s st)) = dev st"
  "pushDataBuffer (snd (start_failed s st)) = pushDataBuffer st" "pushDataBufferUsed (snd (start_failed s st)) = pushDataBufferUsed st"
  "pushed (snd (start_failed s st)) = pushed st @ (if callback (client (dev st)) then [Callback s None] else [])"
  by (simp_all add: start_failed_def)

lemma client_ok_socket: "client_ok (c\<lparr>socketHandle := h\<rparr>) \<longleftrightarrow> client_ok c"
  by (simp add: client_ok_def)

text \<open>
  A start that returns leaves a device that can run as a push service; it reports an error exactly once to the
  callback, closing the socket that it opened, or the client has the new socket.
\<close>

lemma start_outcome:
  assumes d: "getInstallation P (dev st) = Inr d" "device_ok d" and ok: "push_device_ok st"
    and s: "parseStartPushService P st = Inr (status, st')"
  shows "push_device_ok st' \<and>
    ((\<exists>closed. status < 0 \<and> set closed \<subseteq> range Closed \<and> socketHandle (client (dev st')) = socketHandle (client d) \<and>
        pushed st' = pushed st @ closed @ (if callback (client d) then [Callback status None] else [])) \<or>
     (0 \<le> status \<and> 0 \<le> socketHandle (client (dev st')) \<and> pushed st' = pushed st \<and> (\<exists>rest. pushDataBuffer st' = handshake (client d) @ CRLF @ NUL # rest)))"
proof -
  have buf: "length (pushDataBuffer st) = RECEIVE_BUFFER_SIZE" using ok by (simp add: push_device_ok_def)
  have len: "length (handshake (client d) @ CRLF @ NUL # drop (length (handshake (client d)) + 3) (pushDataBuffer st)) = RECEIVE_BUFFER_SIZE"
    using handshake_printed [OF device_okD(1) [OF d(2)] buf] by blast
  have status: "status = fst r" "st' = snd r" if "parseStartPushService P st = Inr r" for r using s that by simp_all
  show ?thesis
  proof (rule started [OF d buf])
    fix h w assume "h < 0" "parseStartPushService P st = Inr (start_failed h (st\<lparr>dev := d\<lparr>network := w\<rparr>\<rparr>))"
    then show ?thesis using ok d(2) by (auto simp: status push_device_ok_def intro!: exI [of _ "[]"])
  next
    fix h w k w'
    assume "k < 0" "parseStartPushService P st = Inr (start_failed k (log_push (Closed h) (st\<lparr>dev := d\<lparr>network := w'\<rparr>,
         pushDataBuffer := handshake (client d) @ CRLF @ NUL # drop (length (handshake (client d)) + 3) (pushDataBuffer st)\<rparr>)))"
    then show ?thesis using ok d(2) len by (auto simp: status push_device_ok_def intro!: exI [of _ "[Closed h]"])
  next
    fix h w k w'
    assume "0 \<le> h" "0 \<le> k" "parseStartPushService P st = Inr (k, st\<lparr>dev := d\<lparr>network := w', client := (client d)\<lparr>socketHandle := h\<rparr>\<rparr>,
         pushDataBuffer := handshake (client d) @ CRLF @ NUL # drop (length (handshake (client d)) + 3) (pushDataBuffer st)\<rparr>)"
    then show ?thesis using ok d(2) len by (auto simp: status push_device_ok_def device_ok_def client_ok_socket)
  qed
qed

end
