(* ===== verification/Rtos_Restart.thy ===== *)
theory Rtos_Restart
  imports Rtos_Start
begin

text \<open>
  What a restart of the push service does with bytes that the last connection left in the receive buffer: neither
  \<open>parseStopPushService\<close> nor \<open>parseStartPushService\<close> resets their count, and the handshake is written over them.
\<close>

section \<open>The handshake as an object\<close>

definition plain_text :: "string \<Rightarrow> bool" where
  "plain_text s \<longleftrightarrow> CHR 0x22 \<notin> set s \<and> CHR 0x5C \<notin> set s \<and> NUL \<notin> set s"

definition chars :: "string \<Rightarrow> piece" where
  "chars s = Str (map Ch s)"

definition plains :: "string \<Rightarrow> piece list" where
  "plains s = map Plain s"

definition handshake_pieces :: "parse_client \<Rightarrow> piece list" where
  "handshake_pieces c =
     [BraceOpen, chars ''installation_id''] @ plains '':'' @ [chars (c_string (installationId c))] @ plains '', '' @
     [chars ''oauth_key''] @ plains '':'' @ [chars (c_string (applicationId c))] @ plains '', '' @
     [chars ''v''] @ plains '': '' @ [chars ''e1.0.0''] @ plains '', '' @ [chars ''last''] @ plains '': '' @
     (if c_string (lastPushTime c) \<noteq> [] then [chars (c_string (lastPushTime c))] else plains ''null'') @ [BraceClose]"

lemma items_text_chars [simp]: "items_text (map Ch s) = s"
  by (induction s) simp_all

lemma chars_text [simp]: "piece_text (chars s) = CHR 0x22 # s @ [CHR 0x22]"
  by (simp add: chars_def)

lemma chars_ok [simp]: "piece_ok (chars s) \<longleftrightarrow> plain_text s"
  by (induction s) (auto simp: chars_def plain_text_def)

lemma closes_chars [simp]: "closes n (chars s # ps) \<longleftrightarrow> closes n ps"
  by (simp add: chars_def)

lemma handshake_text: "text_of (handshake_pieces c) = handshake c"
  by (simp add: handshake_pieces_def handshake_def Let_def plains_def)

lemma handshake_object:
  assumes "plain_text (c_string (installationId c))" "plain_text (c_string (applicationId c))" "plain_text (c_string (lastPushTime c))"
  shows "is_object (handshake_pieces c)"
  using assms by (simp add: is_object_def handshake_pieces_def plains_def plain_text_def)

section \<open>A start over stale bytes\<close>

lemma stale_handshake:
  assumes ok: "push_device_ok st"
    and known: "c_string (installationObjectId (client (dev st))) \<noteq> []" "c_string (installationId (client (dev st))) \<noteq> []"
    and plain: "plain_text (c_string (installationId (client (dev st))))" "plain_text (c_string (applicationId (client (dev st))))"
      "plain_text (c_string (lastPushTime (client (dev st))))"
    and s: "parseStartPushService P st = Inr (status, st')" "0 \<le> status" "0 < socketHandle (client (dev st'))" "callback (client (dev st))"
    and stale: "int (length (handshake (client (dev st)))) \<le> pushDataBufferUsed st"
    and r: "sock_read Q (socketHandle (client (dev st'))) (nat (int RECEIVE_BUFFER_SIZE - pushDataBufferUsed st)) 3000 (network (dev st')) =
      Inr ((len, written), w)" "0 < len" "pushDataBufferUsed st + len \<le> int RECEIVE_BUFFER_SIZE"
      "int (length written) \<le> int RECEIVE_BUFFER_SIZE - pushDataBufferUsed st"
  shows "\<exists>k s. parseProcessNextPushNotification Q (service_of st') = Inr (k, s) \<and>
    messages (effects s) = messages (pushed st) @ [handshake (client (dev st))]"
proof -
  let ?c = "client (dev st)" and ?u = "pushDataBufferUsed st"
  let ?h = "handshake ?c"
  have d: "getInstallation P (dev st) = Inr (dev st)" "device_ok (dev st)"
    using known ok by (simp_all add: getInstallation_def push_device_ok_def)
  have buf: "length (pushDataBuffer st) = RECEIVE_BUFFER_SIZE" using ok by (simp add: push_device_ok_def)
  have st': "pushed st' = pushed st" "pushDataBufferUsed st' = ?u" "callback (client (dev st'))"
    "\<exists>rest. pushDataBuffer st' = ?h @ rest" "push_device_ok st'"
    using started [OF d buf] start_outcome [OF d ok s(1)] s by (fastforce simp: start_failed_def)+
  then obtain rest where rest: "pushDataBuffer st' = ?h @ rest" by blast
  have l: "length (pushDataBuffer st') = RECEIVE_BUFFER_SIZE" using st'(5) by (simp add: push_device_ok_def)
  have sv: "service.socketHandle (service_of st') = socketHandle (client (dev st'))" "service.callback (service_of st')"
    "service.pushDataBuffer (service_of st') = ?h @ rest" "service.pushDataBufferUsed (service_of st') = ?u"
    "world (service_of st') = network (dev st')" "effects (service_of st') = pushed st"
    using st' rest by (simp_all add: service_of_def service.make_def)
  have inv: "service_inv (service_of st')" by (rule service_of_inv [OF st'(5)])
  have "nat ?u + length written \<le> length (?h @ rest)" using r(4) stale l rest by simp
  then obtain b where b: "poke (?h @ rest) (nat ?u) written = Inr b" using poke_total by blast
  then have "take (length ?h) b = ?h" using poke_take [OF b, of "length ?h"] stale by simp
  moreover have "length ?h \<le> nat (?u + len)" using stale r(2) by linarith
  ultimately have "take (length ?h) (take (nat (?u + len)) b) = ?h" by (simp only: take_take min.absorb1)
  then have "take (nat (?u + len)) b = ?h @ drop (length ?h) (take (nat (?u + len)) b)" by (metis append_take_drop_id)
  then have "read_completes Q (service_of st') [] (handshake_pieces ?c) (drop (length ?h) (take (nat (?u + len)) b)) b w"
    unfolding read_completes_def using r s(3) sv inv b stale handshake_object [OF plain] handshake_length [OF device_okD(1) [OF d(2)]]
    by (auto simp: service_inv_def handshake_text is_junk_def RECEIVE_BUFFER_SIZE_def)
  from process_completes [OF this refl] obtain saved k s where
    p: "set saved \<subseteq> {Saved}" "parseProcessNextPushNotification Q (service_of st') = Inr (k, s)"
    "effects s = pushed st @ saved @ delivered True ?h"
    using sv(2,6) by (fastforce simp: handshake_text)
  have "\<not> prefix ''{}'' ?h" by (simp add: handshake_def Let_def)
  with p show ?thesis by (auto simp: messages_saved messages_delivered)
qed

text \<open>
  C37. A restart can deliver the client's own handshake as a notification. When at least as many bytes of an
  unfinished message as the handshake has are left in the receive buffer, the service is started again on a
  registered device, and anything arrives, the next call passes the handshake, which was written over those bytes,
  to the callback of the application as if it were a push.
\<close>

theorem restart_delivers_handshake:
  assumes "push_device_ok st" "callback (client (dev st))"
    and "c_string (installationObjectId (client (dev st))) \<noteq> []" "c_string (installationId (client (dev st))) \<noteq> []"
    and "plain_text (c_string (installationId (client (dev st))))" "plain_text (c_string (applicationId (client (dev st))))"
      "plain_text (c_string (lastPushTime (client (dev st))))"
    and "parseStartPushService P st = Inr (status, st')" "0 \<le> status" "0 < socketHandle (client (dev st'))"
    and "int (length (handshake (client (dev st)))) \<le> pushDataBufferUsed st"
    and "sock_read Q (socketHandle (client (dev st'))) (nat (int RECEIVE_BUFFER_SIZE - pushDataBufferUsed st)) 3000 (network (dev st')) =
      Inr ((len, written), w)" "0 < len" "pushDataBufferUsed st + len \<le> int RECEIVE_BUFFER_SIZE"
      "int (length written) \<le> int RECEIVE_BUFFER_SIZE - pushDataBufferUsed st"
  shows "\<exists>k s. parseProcessNextPushNotification Q (service_of st') = Inr (k, s) \<and>
    messages (effects s) = messages (pushed st) @ [handshake (client (dev st))]"
  using stale_handshake [OF assms(1,3-10) assms(2,11-15)] .

definition stale_device :: "unit push_device" where
  "stale_device = \<lparr>dev = (demo_device ''o7'' ''ab'' [])\<lparr>client := (client (demo_device ''o7'' ''ab'' []))\<lparr>callback := True\<rparr>\<rparr>,
     pushDataBuffer = zeros 1024, pushDataBufferUsed = 200, pushed = []\<rparr>"

definition one_byte :: "unit platform" where
  "one_byte = \<lparr>sock_read = (\<lambda>h n t w. Inr ((1, ''x'' @ [NUL]), w)), sock_write = (\<lambda>h s w. (0, w)), ping_due = (\<lambda>w. False), ping_sent = (\<lambda>w. w)\<rparr>"

lemma stale_device_simps:
  "c_string (installationObjectId (client (dev stale_device))) = ''o7''" "c_string (installationId (client (dev stale_device))) = ''ab''"
  "c_string (applicationId (client (dev stale_device))) = []" "c_string (lastPushTime (client (dev stale_device))) = []"
  "callback (client (dev stale_device))" "pushDataBufferUsed stale_device = 200" "pushed stale_device = []"
  "push_device_ok stale_device"
proof -
  have "device_ok (demo_device ''o7'' ''ab'' [])" by (rule demo_device_ok) simp_all
  then show "push_device_ok stale_device"
    by (simp add: push_device_ok_def stale_device_def device_ok_def client_ok_def RECEIVE_BUFFER_SIZE_def zeros_def [of 1024])
qed (simp_all add: stale_device_def text_field_string max_lens, simp_all add: demo_device_def blank_client_def)

theorem restart_delivers_handshake_witness:
  "\<exists>status st' k s. parseStartPushService (demo_client_platform []) stale_device = Inr (status, st') \<and>
    parseProcessNextPushNotification one_byte (service_of st') = Inr (k, s) \<and>
    messages (effects s) = [handshake (client (dev stale_device))]"
proof -
  let ?P = "demo_client_platform []" and ?st = stale_device
  note st = stale_device_simps
  have d: "getInstallation ?P (dev ?st) = Inr (dev ?st)" "device_ok (dev ?st)" "length (pushDataBuffer ?st) = RECEIVE_BUFFER_SIZE"
    using st by (simp_all add: getInstallation_def push_device_ok_def)
  obtain status st' where s: "parseStartPushService ?P ?st = Inr (status, st')" "0 \<le> status" "socketHandle (client (dev st')) = 3"
    by (rule started [OF d]) (auto simp: demo_client_platform_def)
  have "length (handshake (client (dev ?st))) \<le> 200" by (rule handshake_length [OF device_okD(1) [OF d(2)]])
  then have "\<exists>k s. parseProcessNextPushNotification one_byte (service_of st') = Inr (k, s) \<and>
      messages (effects s) = messages (pushed ?st) @ [handshake (client (dev ?st))]"
    using st s by (intro restart_delivers_handshake [where P = ?P and status = status and len = 1 and written = "''x'' @ [NUL]" and w = "()"])
      (simp_all add: plain_text_def one_byte_def RECEIVE_BUFFER_SIZE_def)
  with s(1) st(7) show ?thesis by (auto simp: messages_def List.map_filter_def)
qed

end
