(* ===== verification/Cc3200_Device.thy ===== *)
theory Cc3200_Device
  imports Cc3200_Client Rtos_Restart
begin

text \<open>
  The device as a whole, on the CC3200: the client with its requests, the file of its state and the push service
  run on one board. The theory composes the parts: what the client promises is what the push service needs, and
  what is saved is what a restart finds.
\<close>

section \<open>The push service on the board of the client\<close>

text \<open>A platform beside a part of the world that it does not use.\<close>

definition beside :: "'w platform \<Rightarrow> ('w \<times> 'x) platform" where
  "beside P =
     \<lparr>sock_read = (\<lambda>h n t (w, x). case sock_read P h n t w of Inl e \<Rightarrow> Inl e | Inr (r, w') \<Rightarrow> Inr (r, (w', x))),
      sock_write = (\<lambda>h s (w, x). case sock_write P h s w of (r, w') \<Rightarrow> (r, (w', x))),
      ping_due = (\<lambda>(w, x). ping_due P w), ping_sent = (\<lambda>(w, x). (ping_sent P w, x))\<rparr>"

definition cc3200_push :: "'w sdk_board \<Rightarrow> 'w board_world platform" where
  "cc3200_push B = beside (cc3200 (board.truncate B))"

interpretation cc_push: terminated_reads cc3200_push "\<lambda>B. recv_ok (driver B)"
proof
  fix B :: "'a sdk_board" and h :: int and n t :: nat and bw :: "'a board_world"
  assume ok: "recv_ok (driver B)" and h: "0 < h" and n: "0 < n"
  obtain w r where bw: "bw = (w, r)" by fastforce
  have "recv_ok (driver (board.truncate B))" using ok by (simp add: board.truncate_def)
  from cc.read_law [OF this h n, of t w] show "sock_read (cc3200_push B) h n t bw = Inl NoReturn \<or>
    (\<exists>len received bw'. sock_read (cc3200_push B) h n t bw = Inr ((len, received @ [NUL]), bw') \<and>
       length received < n \<and> (len < 0 \<or> len = int (length received)))"
    by (auto simp: cc3200_push_def beside_def bw)
qed

section \<open>Initializing\<close>

lemma version_field:
  assumes "str_field OS_VERSION_MAX_LEN m"
  shows "\<exists>m'. fetchDeviceOSVersion B m OS_VERSION_MAX_LEN w = (Inr m', snd (dev_version B w)) \<and> str_field OS_VERSION_MAX_LEN m'"
proof -
  obtain status v0 v1 v2 v3 w' where v: "dev_version B w = ((status, v0, v1, v2, v3), w')" by (metis prod.collapse)
  let ?s = "decimal v0 @ ''.'' @ decimal v1 @ ''.'' @ decimal v2 @ ''.'' @ decimal v3"
  show ?thesis
  proof (cases "status \<ge> 0")
    case True
    have len: "length (take 18 ?s @ [NUL]) \<le> OS_VERSION_MAX_LEN" by (simp add: OS_VERSION_MAX_LEN_def)
    from poke_field_total [OF assms, of "take 18 ?s @ [NUL]"] len obtain m' where m': "poke m 0 (take 18 ?s @ [NUL]) = Inr m'" by auto
    then have "snprintf m 0 (int OS_VERSION_MAX_LEN) ?s = Inr (int (length ?s), m')"
      by (simp add: snprintf_def OS_VERSION_MAX_LEN_def)
    with poke_field [OF assms m'] True v show ?thesis by (simp add: fetchDeviceOSVersion_def)
  qed (use assms v in \<open>simp add: fetchDeviceOSVersion_def\<close>)
qed

text \<open>The client right before its state is loaded.\<close>

lemma blank_fields:
  "str_field APPLICATION_ID_MAX_LEN (applicationId blank_client)" "str_field CLIENT_KEY_MAX_LEN (clientKey blank_client)"
  "str_field OS_VERSION_MAX_LEN (osVersion blank_client)" "str_field CLIENT_VERSION_MAX_LEN (deviceClientVersion blank_client)"
  using blank_client_ok by (simp_all add: client_ok_def)

lemma initialized:
  assumes "NUL \<notin> set appId"
  obtains c where "client_ok c" "c_string (applicationId c) = take APPLICATION_ID_MAX_LEN appId"
    "installationObjectId c = zeros (OBJECT_ID_MAX_LEN + 1)" "installationId c = zeros (INSTALLATION_ID_MAX_LEN + 1)"
    "parseInitialize (cc3200_client B) True (Some appId) (Some key) ((w, d), r) =
      bindE (loadClientState (cc3200_client B) c ((snd (dev_version B w), d), r)) (\<lambda>(c, bw). Inr (Some c, bw))"
proof -
  obtain a where a: "strncpy (applicationId blank_client) appId APPLICATION_ID_MAX_LEN = Inr a" "str_field APPLICATION_ID_MAX_LEN a"
    "c_string a = take APPLICATION_ID_MAX_LEN appId" using strncpy_field [OF blank_fields(1)] assms by metis
  obtain k where k: "strncpy (clientKey blank_client) key CLIENT_KEY_MAX_LEN = Inr k" "str_field CLIENT_KEY_MAX_LEN k"
    using strncpy_field [OF blank_fields(2)] by metis
  obtain os where os: "fetchDeviceOSVersion B (osVersion blank_client) OS_VERSION_MAX_LEN w = (Inr os, snd (dev_version B w))"
    "str_field OS_VERSION_MAX_LEN os" using version_field [OF blank_fields(3)] by metis
  obtain v where v: "strncpy (deviceClientVersion blank_client) CLIENT_VERSION CLIENT_VERSION_MAX_LEN = Inr v" "str_field CLIENT_VERSION_MAX_LEN v"
    using strncpy_field [OF blank_fields(4)] by metis
  let ?c = "blank_client\<lparr>applicationId := a, clientKey := k, osVersion := os, deviceClientVersion := v\<rparr>"
  have "client_platform.fetchDeviceOSVersion (cc3200_client B) (osVersion blank_client) OS_VERSION_MAX_LEN ((w, d), r) =
      (Inr os, ((snd (dev_version B w), d), r))"
    using os(1) by (simp add: cc3200_client_def on_board_def)
  with a k v have "parseInitialize (cc3200_client B) True (Some appId) (Some key) ((w, d), r) =
      bindE (loadClientState (cc3200_client B) ?c ((snd (dev_version B w), d), r)) (\<lambda>(c, bw). Inr (Some c, bw))"
    by (simp add: parseInitialize_def)
  moreover have "client_ok ?c" using blank_client_ok a k os v by (simp add: client_ok_def)
  moreover have "installationObjectId ?c = zeros (OBJECT_ID_MAX_LEN + 1)" "installationId ?c = zeros (INSTALLATION_ID_MAX_LEN + 1)"
    by (simp_all add: blank_client_def)
  moreover have "c_string (applicationId ?c) = take APPLICATION_ID_MAX_LEN appId" using a(3) by simp
  ultimately show thesis using that by blast
qed

text \<open>Reading the version of the device leaves the files as they are.\<close>

definition version_keeps_files :: "'w sdk_board \<Rightarrow> 'w fs_view \<Rightarrow> bool" where
  "version_keeps_files B V \<longleftrightarrow> (\<forall>w n. contents V (snd (dev_version B w)) n = contents V w n)"

lemma restarted:
  assumes fs: "working_fs (files B) V" "version_keeps_files B V" and c: "client_ok c"
    and app: "NUL \<notin> set appId" "c_string (applicationId c) = take APPLICATION_ID_MAX_LEN appId"
  shows "\<exists>c' bw'. parseInitialize (cc3200_client B) True (Some appId) (Some key) (saveClientState (cc3200_client B) c bw) = Inr (Some c', bw') \<and>
    client_ok c' \<and> c_string (applicationId c') = c_string (applicationId c) \<and> c_string (installationObjectId c') = [] \<and>
    installationId c' = installationId c \<and> sessionToken c' = sessionToken c \<and> lastPushTime c' = lastPushTime c"
proof -
  obtain w d r where bw: "bw = ((w, d), r)" by (metis prod.collapse)
  obtain s w1 where s: "save_state (files B) c w = (s, w1)"
    "contents V w1 (clientStateFileName c) = Some (installationId c @ sessionToken c @ lastPushTime c)"
    using saved_contents [OF fs(1)] by blast
  obtain c0 where c0: "client_ok c0" "c_string (applicationId c0) = take APPLICATION_ID_MAX_LEN appId"
    "installationObjectId c0 = zeros (OBJECT_ID_MAX_LEN + 1)"
    "parseInitialize (cc3200_client B) True (Some appId) (Some key) ((w1, d), r) =
      bindE (loadClientState (cc3200_client B) c0 ((snd (dev_version B w1), d), r)) (\<lambda>(c, bw). Inr (Some c, bw))"
    by (rule initialized [OF app(1), of B key w1 d r])
  have "clientStateFileName c0 = clientStateFileName c" using c0(2) app(2) by (simp add: clientStateFileName_def)
  with s(2) fs(2) have "contents V (snd (dev_version B w1)) (clientStateFileName c0) = Some (installationId c @ sessionToken c @ lastPushTime c)"
    by (simp add: version_keeps_files_def)
  from loaded_state [OF fs(1) c c0(1) this] obtain t w2 where
    l: "load_state (files B) c0 (snd (dev_version B w1)) =
      Inr (t, c0\<lparr>installationId := installationId c, sessionToken := sessionToken c, lastPushTime := lastPushTime c\<rparr>, w2)" by blast
  let ?c = "c0\<lparr>installationId := installationId c, sessionToken := sessionToken c, lastPushTime := lastPushTime c\<rparr>"
  have "loadClientState (cc3200_client B) c0 ((snd (dev_version B w1), d), r) = Inr (?c, ((w2, d), r))"
    using l by (simp add: cc3200_client_def)
  then have "parseInitialize (cc3200_client B) True (Some appId) (Some key) ((w1, d), r) = Inr (Some ?c, ((w2, d), r))"
    using c0(4) by simp
  moreover have "saveClientState (cc3200_client B) c bw = ((w1, d), r)" using s(1) by (simp add: cc3200_client_def on_board_def bw)
  moreover have "client_ok ?c" using c c0(1) by (simp add: client_ok_def)
  ultimately show ?thesis using c0(2,3) app(2) by auto
qed

end
