(* ===== verification/Cc3200_Restart.thy ===== *)
theory Cc3200_Restart
  imports Cc3200_Device
begin

text \<open>
  What the device of the CC3200 promises: the types of its client, the safety of registering and of a push
  session from its start on, what survives a restart and what does not, and the ids that it makes up.
\<close>

section \<open>A device for examples\<close>

text \<open>
  A disk with one open file, and a board on it whose connections succeed but whose server is silent; its random
  numbers are the bits of a counter that \<open>srand\<close> sets.
\<close>

type_synonym disk = "(string \<Rightarrow> char list option) \<times> string option"

definition disk_fs :: "(disk \<times> nat) fs_api" where
  "disk_fs =
     \<lparr>fs_open = (\<lambda>n mode h ((f, cur), r). case (mode, f n) of
        (OpenRead, Some d) \<Rightarrow> (0, 1, ((f, Some n), r))
      | (OpenCreate, None) \<Rightarrow> (0, 1, ((f(n := Some []), Some n), r))
      | (OpenWrite, Some d) \<Rightarrow> (0, 1, ((f(n := Some []), Some n), r))
      | _ \<Rightarrow> (-11, h, ((f, cur), r))),
      fs_read = (\<lambda>h k sz ((f, cur), r). let x = take sz (drop (nat k) (the (f (the cur)))) in ((int (length x), x), ((f, cur), r))),
      fs_write = (\<lambda>h k xs ((f, cur), r). (int (length xs), ((f(the cur := Some (take (nat k) (the (f (the cur))) @ xs)), cur), r))),
      fs_close = (\<lambda>h ((f, cur), r). ((f, None), r)), fs_del = (\<lambda>n ((f, cur), r). ((f(n := None), cur), r)), unset = 0\<rparr>"

definition disk_view :: "(disk \<times> nat) fs_view" where
  "disk_view = \<lparr>contents = (\<lambda>((f, cur), r). f), opened = (\<lambda>((f, cur), r) h. cur)\<rparr>"

lemma disk_works: "working_fs disk_fs disk_view" "missing_fails disk_fs disk_view"
  by (auto simp: working_fs_def missing_fails_def disk_fs_def disk_view_def Let_def)

definition disk_board :: "(disk \<times> nat) sdk_board" where
  "disk_board =
     \<lparr>driver = \<lparr>select_call = (\<lambda>t w. (0, w)), recv_call = (\<lambda>n w. (Inl (-11), w)), eagain = -11, task = id\<rparr>,
      send_call = (\<lambda>h s w. (int (length s), w)), clock = (\<lambda>w. \<lparr>sl_tm_sec = 7, sl_tm_min = 0, sl_tm_hour = 0\<rparr>),
      ssl = \<lparr>gethostbyname_call = (\<lambda>s w. ((0, 1), w)), socket_call = (\<lambda>w. (3, w)), setsockopt_call = (\<lambda>h x w. (0, w)),
        connect_call = (\<lambda>h i p w. (0, w)), wait_connect = (\<lambda>h n w. (1, w)), close_call = (\<lambda>h w. w)\<rparr>,
      files = disk_fs, dev_version = (\<lambda>w. ((0, 2, 0, 7, 34), w)), srand_call = (\<lambda>s (d, r). (d, s)), rand_call = (\<lambda>(d, r). (r, (d, Suc r)))\<rparr>"

lemma disk_board_recv: "recv_ok (driver disk_board)"
  by (simp add: disk_board_def recv_ok_def)

lemma disk_board_version: "version_keeps_files disk_board disk_view" and disk_board_files: "files disk_board = disk_fs"
  by (simp_all add: version_keeps_files_def disk_board_def)

type_synonym disk_world = "(disk \<times> nat) board_world"

definition blank_disk :: disk_world where
  "blank_disk = ((((\<lambda>n. None, None), 0), demo_time), False)"

definition disk_device :: "string \<Rightarrow> string \<Rightarrow> string \<Rightarrow> disk_world \<Rightarrow> disk_world device" where
  "disk_device objectId instId token w =
     \<lparr>dataBuffer = zeros 1024, network = w, events = [], client = client (demo_device objectId instId token), requests = []\<rparr>"

lemma disk_device_ok: "length ob \<le> 16 \<Longrightarrow> length i \<le> 36 \<Longrightarrow> length t \<le> 40 \<Longrightarrow> device_ok (disk_device ob i t w)"
  using demo_device_ok [of ob i t] by (simp add: disk_device_def device_ok_def zeros_def)

lemma disk_device_simps [simp]:
  "client (disk_device ob i t w) = client (demo_device ob i t)" "network (disk_device ob i t w) = w"
  by (simp_all add: disk_device_def)

lemma demo_application [simp]: "applicationId (client (demo_device ob i t)) = zeros 41"
  by (simp add: demo_device_def blank_client_def max_lens)

text \<open>The board reads nothing.\<close>

lemma disk_read: "0 \<le> h \<Longrightarrow> 0 < n \<Longrightarrow> net_read (cc3200_client disk_board) h n t bw = Inr ((0, [NUL]), bw)"
  by (simp add: cc3200_client_def disk_board_def socketRead_def read_loop.simps split: prod.split)

section \<open>Types and safety\<close>

text \<open>
  C12. The type of the client is kept: whatever the server answers, after every sequence of calls of the application
  (setting and clearing ids and tokens, sending requests) every array of the client has its size and holds a
  terminated string, and the request buffer has its 1024 bytes.
\<close>

theorem client_types_kept:
  assumes "recv_ok (driver B)" "device_ok st" "client_steps (cc3200_client B) calls st = Inr st'"
  shows "device_ok st'"
  using cc_client.client_steps_typed [OF assms(1,2), of calls] assms(3) by simp

text \<open>
  C27. Registering is memory safe as long as answers do not fill the request buffer: \<open>createInstallation\<close> waits
  for an answer that never comes, or it returns with a typed client; no call reads or writes outside of an array.
\<close>

theorem createInstallation_safe:
  assumes "recv_ok (driver B)" "short_answers (cc3200_client B)" "device_ok st"
  shows "createInstallation (cc3200_client B) st = Inl NoReturn \<or>
    (\<exists>st'. createInstallation (cc3200_client B) st = Inr st' \<and> device_ok st')"
  using cc_client.create_returns [OF assms] by (simp add: returns_def)

lemma disk_board_short: "short_answers (cc3200_client disk_board)"
  unfolding short_answers_def
proof (intro allI impI)
  fix h w r written w'
  assume "net_read (cc3200_client disk_board) h 1024 5000 w = Inr ((r, written), w')"
  then show "length written \<le> 1023"
    using disk_read [of h 1024 5000 w] by (cases "0 \<le> h") (auto simp: cc3200_client_def socketRead_def split: prod.splits)
qed

theorem createInstallation_safe_witness:
  "createInstallation (cc3200_client disk_board) (disk_device [] [] [] blank_disk) = Inl NoReturn \<or>
    (\<exists>st'. createInstallation (cc3200_client disk_board) (disk_device [] [] [] blank_disk) = Inr st' \<and> device_ok st')"
  by (rule createInstallation_safe [OF disk_board_recv disk_board_short disk_device_ok]) simp_all

text \<open>
  What starting the push service does: when \<open>parseStartPushService\<close> returns, either it failed, the error is
  returned and reported exactly once to the callback if there is one, and the old socket is kept; or it
  succeeded, the client has the new socket, nothing was reported, and the handshake with the ids of the client
  stands at the start of the receive buffer. In both cases the buffers keep their sizes.
\<close>

theorem parseStartPushService_outcome:
  assumes "recv_ok (driver B)" "push_device_ok st" "parseStartPushService (cc3200_client B) st = Inr (status, st')"
  shows "\<exists>d. getInstallation (cc3200_client B) (dev st) = Inr d \<and> push_device_ok st' \<and>
    ((\<exists>closed. status < 0 \<and> set closed \<subseteq> range Closed \<and> socketHandle (client (dev st')) = socketHandle (client d) \<and>
        pushed st' = pushed st @ closed @ (if callback (client d) then [Callback status None] else [])) \<or>
     (0 \<le> status \<and> 0 \<le> socketHandle (client (dev st')) \<and> pushed st' = pushed st \<and>
        (\<exists>rest. pushDataBuffer st' = handshake (client d) @ CRLF @ NUL # rest)))"
proof -
  from assms(3) obtain d where d: "getInstallation (cc3200_client B) (dev st) = Inr d"
    by (cases "getInstallation (cc3200_client B) (dev st)") (simp_all add: parseStartPushService_def)
  have "device_ok d"
    using cc_client.getInstallation_typed [OF assms(1), of "dev st"] assms(2) d by (simp add: push_device_ok_def)
  from start_outcome [OF d this assms(2,3)] d show ?thesis by blast
qed

definition disk_push_device :: "disk_world push_device" where
  "disk_push_device = \<lparr>dev = disk_device ''o7'' ''ab'' [] blank_disk, pushDataBuffer = zeros 1024, pushDataBufferUsed = 0, pushed = []\<rparr>"

lemma disk_push_device_ok: "push_device_ok disk_push_device"
  using disk_device_ok [of "''o7''" "''ab''" "[]" blank_disk]
  by (simp add: push_device_ok_def disk_push_device_def RECEIVE_BUFFER_SIZE_def zeros_def)

lemma disk_starts: "\<exists>status st'. parseStartPushService (cc3200_client disk_board) disk_push_device = Inr (status, st')"
proof -
  have d: "getInstallation (cc3200_client disk_board) (dev disk_push_device) = Inr (dev disk_push_device)"
    by (simp add: getInstallation_def disk_push_device_def text_field_string max_lens)
  have ok: "device_ok (dev disk_push_device)" "length (pushDataBuffer disk_push_device) = RECEIVE_BUFFER_SIZE"
    using disk_push_device_ok by (simp_all add: push_device_ok_def)
  show ?thesis by (rule started [OF d ok]) (auto simp: start_failed_def)
qed

theorem parseStartPushService_outcome_witness:
  "\<exists>status st'. parseStartPushService (cc3200_client disk_board) disk_push_device = Inr (status, st') \<and> push_device_ok st'"
  using disk_starts parseStartPushService_outcome [OF disk_board_recv disk_push_device_ok] by blast

text \<open>
  C18. A push session is memory safe from its start on. On a device of the right type that is registered or new (it has an object id,
  or no ids at all) and whose requests have answers that do not fill the request buffer, \<open>parseStartPushService\<close> waits for an answer that
  never comes, or it returns, without an access outside of an array on the way: with the error of the connection or of the writing,
  which the callback gets once, after the socket that was opened was closed; or with the new socket in the client and the handshake of the
  ids at the start of the buffer. After that every number of calls of \<open>parseRunPushLoop\<close> waits
  for a read that never returns or ends with buffers of the right sizes.
\<close>

theorem push_session_safe:
  assumes "recv_ok (driver B)" "short_answers (cc3200_client B)" "push_device_ok st"
    and "c_string (installationObjectId (client (dev st))) = [] \<longrightarrow> c_string (installationId (client (dev st))) = []"
  shows "parseStartPushService (cc3200_client B) st = Inl NoReturn \<or>
    (\<exists>d h w k w' st'. getInstallation (cc3200_client B) (dev st) = Inr d \<and>
      ssl_connect (cc3200_client B) ''push.parse.com'' 443 (network d) = (h, w) \<and>
      net_write (cc3200_client B) h (handshake (client d) @ CRLF) w = (k, w') \<and>
      parseStartPushService (cc3200_client B) st = Inr (if h < 0 then h else k, st') \<and>
      socketHandle (client (dev st')) = (if h < 0 \<or> k < 0 then socketHandle (client d) else h) \<and>
      (0 \<le> h \<longrightarrow> take (length (handshake (client d)) + 3) (pushDataBuffer st') = handshake (client d) @ CRLF @ [NUL]) \<and>
      pushed st' = pushed st @ (if 0 \<le> h \<and> k < 0 then [Closed h] else []) @
        (if (h < 0 \<or> k < 0) \<and> callback (client d) then [Callback (if h < 0 then h else k) None] else []) \<and>
      (parseRunPushLoop n (cc3200_push B) (service_of st') = Inl NoReturn \<or>
        (\<exists>s. parseRunPushLoop n (cc3200_push B) (service_of st') = Inr s \<and> service_inv s)))"
proof -
  let ?P = "cc3200_client B"
  have ok: "device_ok (dev st)" and buf: "length (pushDataBuffer st) = RECEIVE_BUFFER_SIZE"
    using assms(3) by (simp_all add: push_device_ok_def)
  from cc_client.getInstallation_returns [OF assms(1,2) ok assms(4)] consider
      "getInstallation ?P (dev st) = Inl NoReturn" | d where "getInstallation ?P (dev st) = Inr d" "device_ok d"
    by (auto simp: returns_def)
  then show ?thesis
  proof cases
    case (2 d)
    obtain h w where con: "ssl_connect ?P ''push.parse.com'' 443 (network d) = (h, w)" by (meson surj_pair)
    obtain k w' where wr: "net_write ?P h (handshake (client d) @ CRLF) w = (k, w')" by (meson surj_pair)
    obtain status st' where s: "parseStartPushService ?P st = Inr (status, st')"
      by (rule started [OF 2 buf]) (auto simp: start_failed_def)
    have "push_device_ok st'" using start_outcome [OF 2 assms(3) s] by blast
    note safe = cc_push.loop_safe [OF assms(1) service_of_inv [OF this], of n]
    have "status = (if h < 0 then h else k) \<and>
      socketHandle (client (dev st')) = (if h < 0 \<or> k < 0 then socketHandle (client d) else h) \<and>
      (0 \<le> h \<longrightarrow> take (length (handshake (client d)) + 3) (pushDataBuffer st') = handshake (client d) @ CRLF @ [NUL]) \<and>
      pushed st' = pushed st @ (if 0 \<le> h \<and> k < 0 then [Closed h] else []) @
        (if (h < 0 \<or> k < 0) \<and> callback (client d) then [Callback (if h < 0 then h else k) None] else [])"
      by (rule started [OF 2 buf]) (use s con wr in \<open>auto simp: start_failed_def log_push_def\<close>)
    with 2 con wr s safe show ?thesis by blast
  qed (simp add: parseStartPushService_def)
qed

theorem push_session_safe_witness:
  "\<exists>d h w k w' st'. getInstallation (cc3200_client disk_board) (dev disk_push_device) = Inr d \<and>
      ssl_connect (cc3200_client disk_board) ''push.parse.com'' 443 (network d) = (h, w) \<and>
      net_write (cc3200_client disk_board) h (handshake (client d) @ CRLF) w = (k, w') \<and>
      parseStartPushService (cc3200_client disk_board) disk_push_device = Inr (if h < 0 then h else k, st') \<and>
      (parseRunPushLoop 3 (cc3200_push disk_board) (service_of st') = Inl NoReturn \<or>
        (\<exists>s. parseRunPushLoop 3 (cc3200_push disk_board) (service_of st') = Inr s \<and> service_inv s))"
proof -
  have "c_string (installationObjectId (client (dev disk_push_device))) \<noteq> []"
    by (simp add: disk_push_device_def text_field_string max_lens)
  then show ?thesis
    using disk_starts push_session_safe [OF disk_board_recv disk_board_short disk_push_device_ok, of 3] by auto
qed

section \<open>Restarts\<close>

lemma uuid_string:
  assumes "length ds = 32" "\<forall>d \<in> set ds. d < 16"
  shows "c_string (uuid_text ds @ [NUL]) = uuid_text ds"
  using uuid_plain [OF assms(2)] by (auto simp: c_string_def takeWhile_tail)

lemma saved_name: "applicationId c' = applicationId c \<Longrightarrow> clientStateFileName c' = clientStateFileName c"
  by (simp add: clientStateFileName_def)

text \<open>
  C11. A session survives a restart: when the file system works and \<open>parseSetSessionToken\<close> returns on a device for
  a new token, then \<open>parseInitialize\<close> with the same application id finds a typed client with that token, cut off to
  40 characters, and with the installation id and the time of the last push from before; only the object id of the
  installation is asked for again.
\<close>

theorem session_survives_restart:
  assumes "recv_ok (driver B)" "working_fs (files B) V" "version_keeps_files B V"
    and "device_ok st" "t \<noteq> []" "NUL \<notin> set t" "\<not> strncasecmp_eq (c_string (sessionToken (client st))) t SESSION_TOKEN_MAX_LEN"
    and "parseSetSessionToken (cc3200_client B) (Some t) st = Inr st'"
    and "NUL \<notin> set appId" "c_string (applicationId (client st)) = take APPLICATION_ID_MAX_LEN appId"
  shows "\<exists>c bw. parseInitialize (cc3200_client B) True (Some appId) (Some key) (network st') = Inr (Some c, bw) \<and> client_ok c \<and>
    c_string (sessionToken c) = take SESSION_TOKEN_MAX_LEN t \<and> installationId c = installationId (client st') \<and>
    lastPushTime c = lastPushTime (client st') \<and> c_string (installationObjectId c) = []"
proof -
  obtain w where w: "network st' = saveClientState (cc3200_client B) (client st') w" "client_ok (client st')"
    "applicationId (client st') = applicationId (client st)" "c_string (sessionToken (client st')) = take SESSION_TOKEN_MAX_LEN t"
    using cc_client.token_saved [OF assms(1,4-8)] by blast
  with restarted [OF assms(2,3) w(2) assms(9), of key w] assms(10) show ?thesis by auto
qed

text \<open>On the board for examples every request runs into the silence of the server.\<close>

lemma disk_connects: "\<exists>w'. ssl_connect (cc3200_client disk_board) s p w = (3, w')"
proof -
  have "fst (ssl_connect (cc3200_client disk_board) s p w) = 3"
    by (simp add: cc3200_client_def on_board_def socketSslConnect_def if_ok_def connect_steps_def disk_board_def case_prod_beta)
  then show ?thesis by (metis prod.collapse)
qed

lemma disk_writes:
  assumes "0 \<le> h"
  shows "\<exists>w'. net_write (cc3200_client disk_board) h s w = (int (length s), w')"
proof -
  have "fst (net_write (cc3200_client disk_board) h s w) = int (length s)"
    using assms by (simp add: cc3200_client_def on_board_def socketWrite_def disk_board_def case_prod_beta)
  then show ?thesis by (metis prod.collapse)
qed

lemma disk_send_silent:
  assumes "client_ok (client st)" "length httpVerb + length httpPath + text_len body \<le> 500"
  shows "\<exists>st'. send (cc3200_client disk_board) httpVerb httpPath body cb add st =
      (case cb of None \<Rightarrow> Inr st' | Some f \<Rightarrow> f 0 0 None st') \<and> client st' = client st \<and> length (dataBuffer st') = 1024"
proof -
  let ?st = "st\<lparr>requests := requests st @ [(httpVerb, httpPath, body, add)]\<rparr>"
  let ?t = "request_text (request_fields (client st)) httpPath httpVerb body add"
  obtain w where w: "ssl_connect (cc3200_client disk_board) ''api.parse.com'' 443 (network ?st) = (3, w)" using disk_connects by metis
  obtain w' where w': "net_write (cc3200_client disk_board) 3 ?t w = (int (length ?t), w')"
    using disk_writes [of 3 ?t w] by force
  have r: "net_read (cc3200_client disk_board) 3 1024 5000 w' = Inr ((0, [] @ [NUL]), w')" by (simp add: disk_read)
  let ?st' = "?st\<lparr>dataBuffer := [] @ NUL # replicate 1023 NUL, network := w', events := events ?st @ [OpenedSocket 3, ClosedSocket 3]\<rparr>"
  have s: "sendRequest (cc3200_client disk_board) (request_fields (client st)) httpPath httpVerb body add ?st = Inr (0, ?st')"
    using sendRequest_answered [OF w _ request_fits [OF assms] w' _ r] by simp
  have h: "getHttpResponseStatus (dataBuffer ?st') = Inr 0"
    by (simp add: getHttpResponseStatus_def peek_def atoi_def eval_nat_numeral digits_value_def)
  have b: "getHttpResponseBody (dataBuffer ?st') = Inr None"
  proof -
    have "holds (dataBuffer ?st') 0 []" by (simp add: holds_def)
    from strlen_holds [OF this] show ?thesis by (simp add: getHttpResponseBody_def)
  qed
  have "send (cc3200_client disk_board) httpVerb httpPath body cb add st = (case cb of None \<Rightarrow> Inr ?st' | Some f \<Rightarrow> f 0 0 None ?st')"
    unfolding send_def parseSendRequestInternal_def s using h b by (cases cb) simp_all
  moreover have "client ?st' = client st" "length (dataBuffer ?st') = 1024" by simp_all
  ultimately show ?thesis by blast
qed

lemma disk_session:
  assumes "client_ok (client st)" "c_string (installationObjectId (client st)) \<noteq> []" "c_string (installationId (client st)) \<noteq> []"
  shows "\<exists>st'. getSession (cc3200_client disk_board) st = Inr st'"
proof -
  have "getInstallation (cc3200_client disk_board) st = Inr st" using assms by (simp add: getInstallation_def)
  moreover obtain st1 where "send (cc3200_client disk_board) ''GET'' ''/1/sessions/me'' None (Some (getSessionCallback (cc3200_client disk_board))) True st =
      getSessionCallback (cc3200_client disk_board) 0 0 None st1"
    using disk_send_silent [OF assms(1), of "''GET''" "''/1/sessions/me''" None "Some (getSessionCallback (cc3200_client disk_board))" True]
    by (auto simp: text_len_def)
  ultimately show ?thesis by (simp add: getSession_def getSessionCallback_def is_success_def)
qed

lemma disk_sets_token:
  "\<exists>st'. parseSetSessionToken (cc3200_client disk_board) (Some ''tok'') (disk_device ''o7'' ''ab'' [] blank_disk) = Inr st'"
proof -
  let ?st = "disk_device ''o7'' ''ab'' [] blank_disk"
  have ok: "device_ok ?st" by (rule disk_device_ok) simp_all
  have new: "\<not> strncasecmp_eq (c_string (sessionToken (client ?st))) ''tok'' SESSION_TOKEN_MAX_LEN"
    by (simp add: text_field_string strncasecmp_eq_def SESSION_TOKEN_MAX_LEN_def)
  obtain m where m: "strncpy (sessionToken (client ?st)) ''tok'' SESSION_TOKEN_MAX_LEN = Inr m" "str_field SESSION_TOKEN_MAX_LEN m"
    using strncpy_field [OF client_ok_fields(3) [OF device_okD(1) [OF ok]]] by metis
  let ?st1 = "?st\<lparr>client := (client ?st)\<lparr>sessionToken := m\<rparr>\<rparr>"
  have "client_ok (client ?st1)" using client_ok_updates(3) [OF device_okD(1) [OF ok] m(2)] by simp
  moreover have "c_string (installationObjectId (client ?st1)) \<noteq> []" "c_string (installationId (client ?st1)) \<noteq> []"
    by (simp_all add: text_field_string max_lens)
  ultimately obtain st2 where "getSession (cc3200_client disk_board) ?st1 = Inr st2" using disk_session by blast
  with m(1) new show ?thesis by (simp add: parseSetSessionToken_def)
qed

theorem client_types_kept_witness:
  "\<exists>st'. client_steps (cc3200_client disk_board) [SetSessionToken (Some ''tok'')] (disk_device ''o7'' ''ab'' [] blank_disk) = Inr st' \<and>
    device_ok st'"
proof -
  have ok: "device_ok (disk_device ''o7'' ''ab'' [] blank_disk)" by (rule disk_device_ok) simp_all
  have "\<exists>st'. client_steps (cc3200_client disk_board) [SetSessionToken (Some ''tok'')] (disk_device ''o7'' ''ab'' [] blank_disk) = Inr st'"
    using disk_sets_token by auto
  with client_types_kept [OF disk_board_recv ok, of "[SetSessionToken (Some ''tok'')]"] show ?thesis by blast
qed

theorem session_survives_restart_witness:
  "\<exists>st' c bw. parseSetSessionToken (cc3200_client disk_board) (Some ''tok'') (disk_device ''o7'' ''ab'' [] blank_disk) = Inr st' \<and>
    parseInitialize (cc3200_client disk_board) True (Some []) (Some ''key'') (network st') = Inr (Some c, bw) \<and>
    c_string (sessionToken c) = ''tok''"
proof -
  let ?st = "disk_device ''o7'' ''ab'' [] blank_disk"
  have ok: "device_ok ?st" by (rule disk_device_ok) simp_all
  have new: "\<not> strncasecmp_eq (c_string (sessionToken (client ?st))) ''tok'' SESSION_TOKEN_MAX_LEN"
    by (simp add: text_field_string strncasecmp_eq_def SESSION_TOKEN_MAX_LEN_def)
  obtain st' where st': "parseSetSessionToken (cc3200_client disk_board) (Some ''tok'') ?st = Inr st'" using disk_sets_token by blast
  have "working_fs (files disk_board) disk_view" using disk_works(1) disk_board_files by simp
  from session_survives_restart [OF disk_board_recv this disk_board_version ok _ _ new st', of "[]" "''key''"] st'
  show ?thesis by (auto simp: SESSION_TOKEN_MAX_LEN_def)
qed

text \<open>
  C36. An installation id that the device made up is lost with a restart. When a device without ids and without
  a saved state sends a request, it makes up an installation id and registers it, but the id is not saved: the
  file of the state is still missing, and \<open>parseInitialize\<close> returns a client without an installation id, which
  registers the device again as another one.
\<close>

theorem made_up_id_lost:
  assumes "recv_ok (driver B)" "working_fs (files B) V" "missing_fails (files B) V" "version_keeps_files B V"
    and "keeps (\<lambda>bw. contents V (fst (fst bw)) (clientStateFileName (client st)) = None) (cc3200_client B)"
    and "device_ok st" "c_string (installationObjectId (client st)) = []" "c_string (installationId (client st)) = []"
    and "contents V (fst (fst (network st))) (clientStateFileName (client st)) = None"
    and "parseSendRequest (cc3200_client B) httpVerb httpPath body cb st = Inr st'"
    and "NUL \<notin> set appId" "c_string (applicationId (client st)) = take APPLICATION_ID_MAX_LEN appId"
  shows "parseGetInstallationId st' \<noteq> None \<and>
    (\<exists>c bw. parseInitialize (cc3200_client B) True (Some appId) (Some key) (network st') = Inr (Some c, bw) \<and>
      c_string (installationId c) = [])"
proof -
  let ?Q = "\<lambda>bw. contents V (fst (fst bw)) (clientStateFileName (client st)) = None"
  have new: "\<exists>i w'. client_platform.createNewInstallationId (cc3200_client B) m w = (Inr i, w') \<and> str_field INSTALLATION_ID_MAX_LEN i \<and> c_string i \<noteq> []"
    if m: "str_field INSTALLATION_ID_MAX_LEN m" for m w
  proof -
    from new_id [OF m, of B w] obtain ds w' where n: "length ds = 32" "\<forall>d \<in> set ds. d < 16"
      "createNewInstallationId B m w = (Inr (uuid_text ds @ [NUL]), w')" by blast
    have "uuid_text ds \<noteq> []" using uuid_length [OF n(1)] by auto
    with n uuid_length [OF n(1)] uuid_string [OF n(1,2)] show ?thesis
      by (simp add: cc3200_client_def str_field_def INSTALLATION_ID_MAX_LEN_def nth_append)
  qed
  have 1: "?Q (network st')" "applicationId (client st') = applicationId (client st)" "c_string (installationId (client st')) \<noteq> []"
    using first_id [where Q = ?Q, OF assms(5,9,6) new assms(7,8,10)] by blast+
  obtain w d r where w: "network st' = ((w, d), r)" by (metis prod.collapse)
  obtain c0 where c0: "c_string (applicationId c0) = take APPLICATION_ID_MAX_LEN appId"
    "installationId c0 = zeros (INSTALLATION_ID_MAX_LEN + 1)"
    "parseInitialize (cc3200_client B) True (Some appId) (Some key) ((w, d), r) =
      bindE (loadClientState (cc3200_client B) c0 ((snd (dev_version B w), d), r)) (\<lambda>(c, bw). Inr (Some c, bw))"
    by (rule initialized [OF assms(11), of B key w d r])
  have "clientStateFileName c0 = clientStateFileName (client st)" using c0(1) assms(12) by (simp add: clientStateFileName_def)
  with 1(1) assms(4) have "contents V (snd (dev_version B w)) (clientStateFileName c0) = None"
    by (simp add: version_keeps_files_def w)
  from fs_missing_law [OF assms(3) this, of "unset (files B)"] obtain s h w' where
    "fs_open (files B) (clientStateFileName c0) OpenRead (unset (files B)) (snd (dev_version B w)) = (s, h, w')" "s < 0" by blast
  then have "loadClientState (cc3200_client B) c0 ((snd (dev_version B w), d), r) = Inr (c0, ((fs_close (files B) h w', d), r))"
    by (simp add: cc3200_client_def load_state_def)
  with c0 1(3) w show ?thesis by (simp add: parseGetInstallationId_def)
qed

lemma disk_keeps:
  assumes n: "n \<noteq> SSL_CA_CERT_FILE_NAME"
  shows "keeps (\<lambda>bw. contents disk_view (fst (fst bw)) n = None) (cc3200_client disk_board)"
proof -
  have cert: "contents disk_view (ensureCertificate disk_fs w) n = contents disk_view w n" for w
    using n by (auto simp: ensureCertificate_def ensureCertificateFile_def disk_fs_def disk_view_def split: option.split prod.split)
  have draw: "contents disk_view (snd (draw (rand_call disk_board) k w)) n = contents disk_view w n" for k w
    by (induction k arbitrary: w) (auto simp: disk_board_def disk_view_def case_prod_beta)
  have srand: "contents disk_view (srand_call disk_board s w) n = contents disk_view w n" for s w
    by (simp add: disk_board_def disk_view_def case_prod_beta)
  show ?thesis
    unfolding keeps_def
  proof (intro conjI allI impI)
    fix s p and w :: disk_world
    assume "contents disk_view (fst (fst w)) n = None"
    then show "contents disk_view (fst (fst (snd (ssl_connect (cc3200_client disk_board) s p w)))) n = None"
      by (simp add: cc3200_client_def on_board_def socketSslConnect_def if_ok_def connect_steps_def disk_board_def case_prod_beta cert)
  next
    fix h s and w :: disk_world
    assume "contents disk_view (fst (fst w)) n = None"
    then show "contents disk_view (fst (fst (snd (net_write (cc3200_client disk_board) h s w)))) n = None"
      by (simp add: cc3200_client_def on_board_def socketWrite_def disk_board_def case_prod_beta)
  next
    fix h k t x and w w' :: disk_world
    assume "contents disk_view (fst (fst w)) n = None" "net_read (cc3200_client disk_board) h k t w = Inr (x, w')"
    then show "contents disk_view (fst (fst w')) n = None"
      by (auto simp: cc3200_client_def disk_board_def socketRead_def read_loop.simps split: prod.splits if_splits)
  next
    fix m and w :: disk_world
    assume "contents disk_view (fst (fst w)) n = None"
    then show "contents disk_view (fst (fst (snd (client_platform.createNewInstallationId (cc3200_client disk_board) m w)))) n = None"
      by (simp add: cc3200_client_def createNewInstallationId_def Let_def case_prod_beta draw srand)
  qed
qed

lemma disk_name: "clientStateFileName (client (demo_device ob i t)) \<noteq> SSL_CA_CERT_FILE_NAME"
  by (simp add: clientStateFileName_def SSL_CA_CERT_FILE_NAME_def CLIENT_STATE_FILENAME_LEN_def APPLICATION_ID_MAX_LEN_def)

lemma disk_request: "\<exists>st'. parseSendRequest (cc3200_client disk_board) ''GET'' ''/1/x'' None False (disk_device [] [] [] w) = Inr st'"
proof -
  let ?st = "disk_device [] [] [] w"
  have ok: "device_ok ?st" by (rule disk_device_ok) simp_all
  obtain ds m w1 where n: "length ds = 32" "m = uuid_text ds @ [NUL]"
    "createNewInstallationId disk_board (installationId (client ?st)) (network ?st) = (Inr m, w1)"
    using new_id [OF client_ok_fields(2) [OF device_okD(1) [OF ok]]] by blast
  let ?st1 = "?st\<lparr>client := (client ?st)\<lparr>installationId := m\<rparr>, network := w1\<rparr>"
  have "str_field INSTALLATION_ID_MAX_LEN m"
    using n(2) uuid_length [OF n(1)] by (simp add: str_field_def INSTALLATION_ID_MAX_LEN_def nth_append)
  then have c1: "client_ok (client ?st1)" using client_ok_updates(2) [OF device_okD(1) [OF ok]] by simp
  obtain st2 where 2: "send (cc3200_client disk_board) ''POST'' ''/1/installations'' (Some (create_body (c_string m))) (Some createInstallationCallback) False ?st1 =
      createInstallationCallback 0 0 None st2" "client st2 = client ?st1"
    using disk_send_silent [OF c1, of "''POST''" "''/1/installations''" "Some (create_body (c_string m))" "Some createInstallationCallback" False]
      create_body_length [OF c1] by (auto simp: text_len_def)
  let ?st3 = "clear_objectId st2"
  have "client_ok (client ?st3)" using c1 2(2) by (simp add: clear_objectId_def client_ok_def)
  then obtain st4 where "send (cc3200_client disk_board) ''GET'' ''/1/x'' None None True ?st3 = Inr st4"
    using disk_send_silent [of ?st3 "''GET''" "''/1/x''" None None True] by (auto simp: text_len_def)
  moreover have "getInstallation (cc3200_client disk_board) ?st = Inr ?st3"
    using 2 n(3) by (simp add: getInstallation_def createInstallation_def new_installation_id_def cc3200_client_def
        text_field_string max_lens createInstallationCallback_def is_success_def)
  ultimately show ?thesis by (simp add: parseSendRequest_def)
qed

theorem made_up_id_lost_witness:
  "\<exists>st' c bw. parseSendRequest (cc3200_client disk_board) ''GET'' ''/1/x'' None False (disk_device [] [] [] blank_disk) = Inr st' \<and>
    parseGetInstallationId st' \<noteq> None \<and>
    parseInitialize (cc3200_client disk_board) True (Some []) (Some ''key'') (network st') = Inr (Some c, bw) \<and>
    c_string (installationId c) = []"
proof -
  let ?st = "disk_device [] [] [] blank_disk"
  obtain st' where st': "parseSendRequest (cc3200_client disk_board) ''GET'' ''/1/x'' None False ?st = Inr st'"
    using disk_request by blast
  have "parseGetInstallationId st' \<noteq> None \<and>
      (\<exists>c bw. parseInitialize (cc3200_client disk_board) True (Some []) (Some ''key'') (network st') = Inr (Some c, bw) \<and> c_string (installationId c) = [])"
  proof (rule made_up_id_lost [OF disk_board_recv _ _ disk_board_version _ _ _ _ _ st'])
    show "working_fs (files disk_board) disk_view" "missing_fails (files disk_board) disk_view"
      using disk_works disk_board_files by simp_all
    show "keeps (\<lambda>bw. contents disk_view (fst (fst bw)) (clientStateFileName (client ?st)) = None) (cc3200_client disk_board)"
      by (rule disk_keeps) (simp add: disk_name)
    show "device_ok ?st" by (rule disk_device_ok) simp_all
  qed (simp_all add: text_field_string blank_disk_def disk_view_def)
  with st' show ?thesis by blast
qed

section \<open>Made-up ids\<close>

text \<open>
  A device makes up its installation id from the seconds of its clock alone: with a \<open>rand\<close> that its seed
  determines and a clock that counts seconds below 60, the id that a freshly started device makes up is a function
  of the second in which it does so; there are at most 60 of them, each of 36 characters and without upper case letters.
\<close>

definition made_up_ids :: "'w sdk_board \<Rightarrow> string set" where
  "made_up_ids B = {c_string i | i m w d bw. str_field INSTALLATION_ID_MAX_LEN m \<and>
     createNewInstallationId B m ((w, d), False) = (Inr i, bw)}"

theorem made_up_ids_few:
  assumes "\<And>w. unat (sl_tm_sec (clock B w)) < 60"
    and "\<And>s w. fst (draw (rand_call B) 32 (srand_call B s w)) = stream s"
  shows "(\<forall>m w d. str_field INSTALLATION_ID_MAX_LEN m \<longrightarrow>
      fst (createNewInstallationId B m ((w, d), False)) = Inr (uuid_text (stream (unat (sl_tm_sec (clock B w)))) @ [NUL])) \<and>
    finite (made_up_ids B) \<and> card (made_up_ids B) \<le> 60 \<and>
    (\<forall>i \<in> made_up_ids B. length i = 36 \<and> (\<forall>c \<in> set i. \<not> isupper c))"
proof -
  let ?id = "\<lambda>w. uuid_text (stream (unat (sl_tm_sec (clock B w))))"
  have id: "fst (createNewInstallationId B m ((w, d), False)) = Inr (?id w @ [NUL])"
    if "str_field INSTALLATION_ID_MAX_LEN m" for m w d
    using new_id_stream [OF that, of B w d] by (simp add: assms(2))
  have shape: "c_string (?id w @ [NUL]) = ?id w \<and> length (?id w) = 36 \<and> (\<forall>c \<in> set (?id w). \<not> isupper c)" for w
  proof -
    let ?ds = "fst (draw (rand_call B) 32 (srand_call B (unat (sl_tm_sec (clock B w))) w))"
    have "length ?ds = 32" "\<forall>d \<in> set ?ds. d < 16" by (simp add: draw_length) (blast intro: draw_less)
    from uuid_string [OF this] uuid_length [OF this(1)] uuid_plain [OF this(2)] show ?thesis by (simp add: assms(2))
  qed
  have ids: "\<exists>w. i = ?id w" if "i \<in> made_up_ids B" for i
  proof -
    from that obtain k m w d bw where k: "i = c_string k" "str_field INSTALLATION_ID_MAX_LEN m"
      "createNewInstallationId B m ((w, d), False) = (Inr k, bw)" unfolding made_up_ids_def by blast
    from id [OF k(2), of w d] k(1,3) shape [of w] have "i = ?id w" by simp
    then show ?thesis by blast
  qed
  then have sub: "made_up_ids B \<subseteq> (\<lambda>s. uuid_text (stream s)) ` {..< 60}" using assms(1) by blast
  have fin: "finite (made_up_ids B)" by (rule finite_subset [OF sub]) simp
  have "card (made_up_ids B) \<le> card ((\<lambda>s. uuid_text (stream s)) ` {..< 60 :: nat})" by (rule card_mono [OF _ sub]) simp
  also have "\<dots> \<le> 60" using card_image_le [of "{..< 60 :: nat}" "\<lambda>s. uuid_text (stream s)"] by simp
  finally show ?thesis using fin id ids shape by blast
qed

lemma disk_stream: "fst (draw (rand_call disk_board) n (x, r)) = map (\<lambda>k. k mod 16) [r ..< r + n]"
proof (induction n arbitrary: r)
  case (Suc n)
  show ?case using Suc [of "Suc r"] by (simp add: disk_board_def case_prod_beta upt_conv_Cons del: upt_Suc)
qed simp

theorem made_up_ids_few_witness: "finite (made_up_ids disk_board) \<and> card (made_up_ids disk_board) \<le> 60"
proof -
  have clock: "unat (sl_tm_sec (clock disk_board w)) < 60" for w by (simp add: disk_board_def)
  have rand: "fst (draw (rand_call disk_board) 32 (srand_call disk_board s w)) = map (\<lambda>k. k mod 16) [s ..< s + 32]" for s w
    using disk_stream [of 32 "fst w" s] by (simp add: disk_board_def case_prod_beta)
  from made_up_ids_few [OF clock rand] show ?thesis by blast
qed

end
