(* ===== verification/Unix_Os.thy ===== *)
theory Unix_Os
  imports Json_Padded
begin

text \<open>
  \<^verbatim>\<open>unix/src/parse_os.c\<close>: the keys of a client as files of the local store, a directory that is looked up once
  in a process. The operating system is a record of functions over its state. Buffers are lists of bytes; a string
  without a terminator is one that reading runs out of.
\<close>

section \<open>Definitions\<close>

text \<open>
  \<open>available n w\<close> says whether a block of \<open>n\<close> bytes can be allocated. \<open>read_file\<close> opens the file and reads at most
  so many bytes; \<open>write_file\<close> creates or empties it and writes. \<open>package_name\<close> is the name in the generated
  \<^verbatim>\<open>config.h\<close>, if there is one. \<open>list_dir\<close> are the names of the entries of a directory that can be opened, and \<open>lstat_dir\<close> says whether a
  path is a directory.
\<close>

record 'w os_api =
  getenv_HOME :: "'w \<Rightarrow> string option"
  pw_dir :: "'w \<Rightarrow> string"
  package_name :: "string option"
  mkdir :: "string \<Rightarrow> 'w \<Rightarrow> int \<times> 'w"
  chmod :: "string \<Rightarrow> 'w \<Rightarrow> 'w"
  read_file :: "string \<Rightarrow> nat \<Rightarrow> 'w \<Rightarrow> char list option"
  write_file :: "string \<Rightarrow> char list \<Rightarrow> 'w \<Rightarrow> 'w"
  remove_file :: "string \<Rightarrow> 'w \<Rightarrow> 'w"
  list_dir :: "string \<Rightarrow> 'w \<Rightarrow> string list option"
  lstat_dir :: "string \<Rightarrow> 'w \<Rightarrow> bool option"
  uname :: "'w \<Rightarrow> (string \<times> string \<times> string) option"
  available :: "nat \<Rightarrow> 'w \<Rightarrow> bool"

definition EEXIST :: int where "EEXIST = 17"

definition PATH_MAX :: nat where
  "PATH_MAX = 4096"

text \<open>\<open>strncat(buffer, s, PATH_MAX - strlen(buffer) - 1)\<close> on a string of less than \<open>PATH_MAX\<close> bytes.\<close>

definition append_path :: "string \<Rightarrow> string \<Rightarrow> string" where
  "append_path buffer s = buffer @ take (PATH_MAX - length buffer - 1) s"

text \<open>The state that the functions work on: the string in \<open>parse_local_store\<close>, and the world.\<close>

type_synonym 'w store = "string \<times> 'w"

text \<open>\<open>mkdir\<close> returns the number of its error, or 0. A failure of \<open>chmod\<close> is only logged.\<close>

definition parseCreateDir :: "('w, 'p) os_api_scheme \<Rightarrow> string \<Rightarrow> 'w \<Rightarrow> int \<times> 'w" where
  "parseCreateDir P dir w =
     (case mkdir P dir w of (e, w) \<Rightarrow> if e \<noteq> 0 \<and> e \<noteq> EEXIST then (1, w) else (0, chmod P dir w))"

definition parseGetLocalStore :: "('w, 'p) os_api_scheme \<Rightarrow> string option \<Rightarrow> 'w \<Rightarrow> mem_error + 'w store" where
  "parseGetLocalStore P applicationId w =
     (let homedir = (case getenv_HOME P w of Some d \<Rightarrow> d | None \<Rightarrow> pw_dir P w) in
      if length homedir \<ge> PATH_MAX then Inl OutOfBounds
      else
        let buffer = (case package_name P of
              Some p \<Rightarrow> append_path (append_path (append_path homedir ''/.'') p) ''/''
            | None \<Rightarrow> append_path homedir ''/.parse-embedded-local-store/'');
            w = snd (parseCreateDir P buffer w) in
        case applicationId of
          None \<Rightarrow> Inl NullPointer
        | Some a \<Rightarrow>
            let buffer = append_path (append_path buffer a) ''/'' in
            Inr (buffer, snd (parseCreateDir P buffer w)))"

definition parseOsSetLocalStorageIfNeeded :: "('w, 'p) os_api_scheme \<Rightarrow> string option \<Rightarrow> 'w store \<Rightarrow> mem_error + (bool \<times> 'w store)" where
  "parseOsSetLocalStorageIfNeeded P applicationId s =
     (if fst s = [] then
        bindE (parseGetLocalStore P applicationId (snd s)) (\<lambda>s. Inr (fst s = [], s))
      else Inr (False, s))"

definition key_file :: "string \<Rightarrow> string \<Rightarrow> string" where
  "key_file store key = append_path (append_path [] store) key"

definition parseOsStoreKey :: "('w, 'p) os_api_scheme \<Rightarrow> string option \<Rightarrow> string \<Rightarrow> string \<Rightarrow> 'w store \<Rightarrow> mem_error + 'w store" where
  "parseOsStoreKey P applicationId key v s =
     bindE (parseOsSetLocalStorageIfNeeded P applicationId s) (\<lambda>(failed, (store, w)).
       if failed then Inr (store, w)
       else Inr (store, write_file P (key_file store key) (v @ [NUL]) w))"

text \<open>The old contents of the buffer are an argument; no terminator is added to what is read.\<close>

definition parseOsLoadKey ::
  "('w, 'p) os_api_scheme \<Rightarrow> string option \<Rightarrow> string \<Rightarrow> char list \<Rightarrow> nat \<Rightarrow> 'w store \<Rightarrow> mem_error + (char list \<times> 'w store)" where
  "parseOsLoadKey P applicationId key m sz s =
     (if sz \<le> 0 then Inr (m, s)
      else bindE (parseOsSetLocalStorageIfNeeded P applicationId s) (\<lambda>(failed, (store, w)).
        if failed then Inr (m, (store, w))
        else
          let bytes = (case read_file P (key_file store key) sz w of Some bs \<Rightarrow> bs | None \<Rightarrow> [NUL]) in
          bindE (poke m 0 bytes) (\<lambda>m. Inr (m, (store, w)))))"

definition parseOsClearKey :: "('w, 'p) os_api_scheme \<Rightarrow> string option \<Rightarrow> string \<Rightarrow> 'w store \<Rightarrow> mem_error + 'w store" where
  "parseOsClearKey P applicationId key s =
     bindE (parseOsSetLocalStorageIfNeeded P applicationId s) (\<lambda>(failed, (store, w)).
       if failed then Inr (store, w) else Inr (store, remove_file P (key_file store key) w))"

text \<open>
  The recursion through the directories below the store is cut off at a depth; \<open>None\<close> is to be deeper. A path is cut
  off to its array.
\<close>

definition FILENAME_MAX :: nat where
  "FILENAME_MAX = 4096"

fun remove_entries ::
  "(string \<Rightarrow> 'w \<Rightarrow> (int \<times> 'w) option) \<Rightarrow> ('w, 'p) os_api_scheme \<Rightarrow> string \<Rightarrow> string list \<Rightarrow> 'w \<Rightarrow> (bool \<times> 'w) option" where
  "remove_entries rm P dir [] w = Some (True, w)"
| "remove_entries rm P dir (e # es) w =
     (let filename = take (FILENAME_MAX - 1) (dir @ ''/'' @ e) in
      case lstat_dir P filename w of
        None \<Rightarrow> Some (False, w)
      | Some True \<Rightarrow>
          if e \<noteq> ''.'' \<and> e \<noteq> ''..'' then Option.bind (rm filename w) (\<lambda>(_, w). remove_entries rm P dir es w)
          else remove_entries rm P dir es w
      | Some False \<Rightarrow> remove_entries rm P dir es (remove_file P filename w))"

fun parseOsRemoveDir :: "nat \<Rightarrow> ('w, 'p) os_api_scheme \<Rightarrow> string \<Rightarrow> 'w \<Rightarrow> (int \<times> 'w) option" where
  "parseOsRemoveDir 0 P dir w = None"
| "parseOsRemoveDir (Suc n) P dir w =
     (case list_dir P dir w of
        None \<Rightarrow> Some (0, remove_file P dir w)
      | Some es \<Rightarrow> Option.bind (remove_entries (parseOsRemoveDir n P) P dir es w) (\<lambda>(done, w).
          if done then Some (0, remove_file P dir w) else Some (1, w)))"

definition parseOsClearAll :: "nat \<Rightarrow> ('w, 'p) os_api_scheme \<Rightarrow> string option \<Rightarrow> 'w store \<Rightarrow> (mem_error + 'w store) option" where
  "parseOsClearAll n P applicationId s =
     (case parseOsSetLocalStorageIfNeeded P applicationId s of
        Inl e \<Rightarrow> Some (Inl e)
      | Inr (failed, (store, w)) \<Rightarrow>
          if failed then Some (Inr (store, w))
          else Option.bind (parseOsRemoveDir n P store w) (\<lambda>(_, w). Some (Inr (store, w))))"

text \<open>The text that \<open>snprintf\<close> leaves in a buffer of \<open>sz\<close> bytes.\<close>

definition parseOsGetVersion :: "('w, 'p) os_api_scheme \<Rightarrow> nat \<Rightarrow> 'w \<Rightarrow> string" where
  "parseOsGetVersion P sz w =
     take (sz - 1) (case uname P w of
       None \<Rightarrow> ''unknown''
     | Some (sysname, release, machine) \<Rightarrow> sysname @ ''-'' @ release @ ''-'' @ machine)"

text \<open>A pointer to the string in a buffer is used up to its terminator.\<close>

definition c_text :: "char list \<Rightarrow> mem_error + string" where
  "c_text m = bindE (strlen_from m 0) (\<lambda>n. Inr (take n m))"

definition strdup :: "('w, 'p) os_api_scheme \<Rightarrow> string \<Rightarrow> 'w \<Rightarrow> string option" where
  "strdup P s w = (if available P (length s + 1) w then Some s else None)"

section \<open>Strings in buffers\<close>

lemma strlen_no_nul: "d \<le> length m \<Longrightarrow> NUL \<notin> set (drop d m) \<Longrightarrow> strlen_from m d = Inl OutOfBounds"
proof (induction "length m - d" arbitrary: d)
  case 0
  then show ?case by (simp add: strlen_from.simps [of m d] rd_def)
next
  case (Suc n)
  then have d: "d < length m" by simp
  then have "drop d m = m ! d # drop (Suc d) m" by (simp add: Cons_nth_drop_Suc)
  with Suc.prems(2) have "m ! d \<noteq> NUL" "NUL \<notin> set (drop (Suc d) m)" by auto
  moreover have "n = length m - Suc d" using Suc.hyps(2) by simp
  ultimately show ?case using Suc.hyps(1) [of "Suc d"] d by (simp add: strlen_from.simps [of m d] rd_def)
qed

lemma c_text_string: "NUL \<notin> set s \<Longrightarrow> c_text (s @ NUL # rest) = Inr s"
proof -
  assume s: "NUL \<notin> set s"
  then have "holds (s @ NUL # rest) 0 s" by (simp add: holds_def)
  then show ?thesis by (simp add: c_text_def strlen_holds)
qed

lemma c_text_unterminated: "NUL \<notin> set m \<Longrightarrow> c_text m = Inl OutOfBounds"
  using strlen_no_nul [of 0 m] by (simp add: c_text_def)

section \<open>Keys\<close>

text \<open>A file system that keeps what is written, and in which a missing file cannot be read.\<close>

definition files_ok :: "('w, 'p) os_api_scheme \<Rightarrow> bool" where
  "files_ok P \<longleftrightarrow>
     (\<forall>n bs w k. read_file P n k (write_file P n bs w) = Some (take k bs)) \<and>
     (\<forall>n w k. read_file P n k (remove_file P n w) = None) \<and>
     (\<forall>n n' bs w k. n' \<noteq> n \<longrightarrow> read_file P n' k (write_file P n bs w) = read_file P n' k w) \<and>
     (\<forall>n n' w k. n' \<noteq> n \<longrightarrow> read_file P n' k (remove_file P n w) = read_file P n' k w)"

lemma files_okD:
  assumes "files_ok P"
  shows "read_file P n k (write_file P n bs w) = Some (take k bs)" "read_file P n k (remove_file P n w) = None"
    "n' \<noteq> n \<Longrightarrow> read_file P n' k (write_file P n bs w) = read_file P n' k w"
    "n' \<noteq> n \<Longrightarrow> read_file P n' k (remove_file P n w) = read_file P n' k w"
  using assms by (simp_all add: files_ok_def)

lemma storage_known: "store \<noteq> [] \<Longrightarrow> parseOsSetLocalStorageIfNeeded P a (store, w) = Inr (False, (store, w))"
  by (simp add: parseOsSetLocalStorageIfNeeded_def)

lemma store_key: "store \<noteq> [] \<Longrightarrow> parseOsStoreKey P a key v (store, w) = Inr (store, write_file P (key_file store key) (v @ [NUL]) w)"
  by (simp add: parseOsStoreKey_def storage_known)

lemma clear_key: "store \<noteq> [] \<Longrightarrow> parseOsClearKey P a key (store, w) = Inr (store, remove_file P (key_file store key) w)"
  by (simp add: parseOsClearKey_def storage_known)

lemma load_key:
  assumes "store \<noteq> []" "0 < sz"
  shows "parseOsLoadKey P a key m sz (store, w) =
    bindE (poke m 0 (case read_file P (key_file store key) sz w of Some bs \<Rightarrow> bs | None \<Rightarrow> [NUL])) (\<lambda>m. Inr (m, (store, w)))"
  using assms by (simp add: parseOsLoadKey_def storage_known)

text \<open>
  The first application id that a process uses decides the store: a second client of the process reads and
  writes the keys of the first.
\<close>

lemma store_shared:
  assumes "store \<noteq> []"
  shows "parseOsStoreKey P a key v (store, w) = parseOsStoreKey P b key v (store, w)"
    and "parseOsLoadKey P a key m sz (store, w) = parseOsLoadKey P b key m sz (store, w)"
    and "parseOsClearKey P a key (store, w) = parseOsClearKey P b key (store, w)"
  using assms by (simp_all add: parseOsStoreKey_def parseOsLoadKey_def parseOsClearKey_def storage_known)

text \<open>What is loaded after it was stored: the whole string with its terminator, or the first \<open>sz\<close> characters without one.\<close>

lemma load_stored:
  assumes P: "files_ok P" and s: "store \<noteq> []" "0 < sz" "length m = sz"
    and w: "read_file P (key_file store key) sz w = Some (take sz (v @ [NUL]))"
  shows "parseOsLoadKey P a key m sz (store, w) = Inr (take sz (v @ [NUL]) @ drop (length v + 1) m, (store, w))"
proof -
  have "poke m 0 (take sz (v @ [NUL])) = Inr (take sz (v @ [NUL]) @ drop (length v + 1) m)"
    using s(3) by (cases "length v + 1 \<le> sz") (auto simp: poke_def)
  then show ?thesis using s(1,2) w by (simp add: load_key)
qed

text \<open>A bound that is enough stays enough.\<close>

lemma remove_entries_mono:
  assumes "\<And>d w r. rm d w = Some r \<Longrightarrow> rm' d w = Some r"
  shows "remove_entries rm P dir es w = Some r \<Longrightarrow> remove_entries rm' P dir es w = Some r"
proof (induction es arbitrary: w)
  case (Cons e es)
  let ?f = "take (FILENAME_MAX - 1) (dir @ ''/'' @ e)"
  show ?case
  proof (cases "lstat_dir P ?f w = Some True \<and> e \<noteq> ''.'' \<and> e \<noteq> ''..''")
    case True
    with Cons.prems obtain q where "rm ?f w = Some q" "remove_entries rm P dir es (snd q) = Some r"
      by (cases "rm ?f w") (auto simp: Let_def)
    with assms [of ?f w q] Cons.IH True show ?thesis by (cases q) (simp add: Let_def)
  next
    case False
    with Cons show ?thesis by (auto simp: Let_def split: option.splits bool.splits if_splits)
  qed
qed simp

lemma parseOsRemoveDir_mono:
  "parseOsRemoveDir n P dir w = Some r \<Longrightarrow> n \<le> n' \<Longrightarrow> parseOsRemoveDir n' P dir w = Some r"
proof (induction n arbitrary: n' dir w r)
  case (Suc n)
  then obtain k where k: "n' = Suc k" "n \<le> k" by (cases n') auto
  have up: "parseOsRemoveDir n P d w = Some r \<Longrightarrow> parseOsRemoveDir k P d w = Some r" for d w r
    using Suc.IH k(2) by blast
  show ?case
  proof (cases "list_dir P dir w")
    case (Some es)
    with Suc.prems obtain q where "remove_entries (parseOsRemoveDir n P) P dir es w = Some q"
      by (cases "remove_entries (parseOsRemoveDir n P) P dir es w") auto
    moreover from this have "remove_entries (parseOsRemoveDir k P) P dir es w = Some q" using remove_entries_mono [of "parseOsRemoveDir n P" "parseOsRemoveDir k P"] up by metis
    ultimately show ?thesis using Suc.prems(1) Some k(1) by simp
  qed (use Suc.prems k in simp)
qed simp

text \<open>The store is removed, but its path stays known: the keys that are stored next have no directory to go to.\<close>

lemma clear_all_keeps_store:
  assumes "store \<noteq> []" "parseOsClearAll n P a (store, w) = Some (Inr s)"
  shows "fst s = store"
  using assms by (auto simp: parseOsClearAll_def storage_known bind_eq_Some_conv)

end
