(* ===== verification/Unix_Client.thy ===== *)
theory Unix_Client
  imports Unix_Os "HOL-Library.Word"
begin

text \<open>
  \<^verbatim>\<open>unix/src/parse.c\<close>, the requests: the client of the Unix SDK and what \<open>parseSendRequestInternal\<close> does with
  libcurl. The library is a record of functions over the world; while it performs a transfer it calls back, for
  every piece of the answer and to report progress, and a transfer is the list of these events with its result.
\<close>

section \<open>Definitions\<close>

definition CURLE_OK :: int where "CURLE_OK = 0"
definition CURLE_FAILED_INIT :: int where "CURLE_FAILED_INIT = 2"
definition CURLE_WRITE_ERROR :: int where "CURLE_WRITE_ERROR = 23"
definition CURLE_OPERATION_TIMEDOUT :: int where "CURLE_OPERATION_TIMEDOUT = 28"
definition CURLE_ABORTED_BY_CALLBACK :: int where "CURLE_ABORTED_BY_CALLBACK = 42"
definition ENOMEM :: int where "ENOMEM = 12"

lemmas curl_codes = CURLE_OK_def CURLE_FAILED_INIT_def CURLE_WRITE_ERROR_def CURLE_OPERATION_TIMEDOUT_def
  CURLE_ABORTED_BY_CALLBACK_def ENOMEM_def

definition PARSE_REQUEST_TIMEOUT_SECONDS :: "64 word" where
  "PARSE_REQUEST_TIMEOUT_SECONDS = 1 * 60"

definition PARSE_DEFAULT_SERVER_URL :: string where
  "PARSE_DEFAULT_SERVER_URL = ''https://api.parse.com/1''"

datatype curl_option =
  CustomRequest string | PostFields string | PostFieldSize nat | Url string | HttpHeader "string list"
  | WriteFunction | WriteData | NoProgress | XferInfoData "32 word" | XferInfoFunction
  | ConnectOnly | UseSsl

text \<open>A piece of the answer with the status of the response, and a call of the progress function at a time.\<close>

datatype curl_event = Data int string | Progress "32 word"

datatype recv_result = Received string | Again | Failed

record 'w unix_platform = "'w os_api" +
  easy_init :: "'w \<Rightarrow> nat option \<times> 'w"
  easy_setopt :: "nat \<Rightarrow> curl_option \<Rightarrow> 'w \<Rightarrow> int \<times> 'w"
  easy_perform :: "nat \<Rightarrow> 'w \<Rightarrow> (curl_event list \<times> int) \<times> 'w"
  easy_cleanup :: "nat \<Rightarrow> 'w \<Rightarrow> 'w"
  easy_send :: "nat \<Rightarrow> string \<Rightarrow> 'w \<Rightarrow> 'w"
  easy_recv :: "nat \<Rightarrow> nat \<Rightarrow> 'w \<Rightarrow> recv_result \<times> 'w"
  lastsocket :: "nat \<Rightarrow> 'w \<Rightarrow> int \<times> int"
  select_socket :: "int \<Rightarrow> 'w \<Rightarrow> (int \<times> bool) \<times> 'w"
  secondsSinceBoot :: "'w \<Rightarrow> 32 word"
  uuid_unparse :: "'w \<Rightarrow> string \<times> 'w"
  sdk_version :: string

record unix_client =
  applicationId :: "string option"
  clientKey :: "string option"
  installationId :: "string option"
  objectId :: "string option"
  sessionToken :: "string option"
  osVersion :: "string option"
  lastPushTime :: "string option"
  serverURL :: "string option"
  pushCallback :: bool
  pushCurlHandle :: "nat option"
  lastHearbeat :: "64 word"

text \<open>What the outside sees: requests, calls of the application, and handles that are opened and cleaned up.\<close>

datatype unix_effect =
  Requested string string "string option" "string list"
  | Answered int int "string option"
  | Pushed int "string option"
  | Opened nat
  | Cleaned nat

record 'w unix_state =
  client :: unix_client
  local_store :: string
  world :: 'w
  effects :: "unix_effect list"

type_synonym 'w unix_callback = "int \<Rightarrow> int \<Rightarrow> char list option \<Rightarrow> 'w unix_state \<Rightarrow> mem_error + 'w unix_state"

definition log :: "unix_effect \<Rightarrow> 'w unix_state \<Rightarrow> 'w unix_state" where
  "log e st = st\<lparr>effects := effects st @ [e]\<rparr>"

definition call :: "'w unix_callback option \<Rightarrow> int \<Rightarrow> int \<Rightarrow> char list option \<Rightarrow> 'w unix_state \<Rightarrow> mem_error + 'w unix_state" where
  "call cb error httpStatus body st = (case cb of None \<Rightarrow> Inr st | Some f \<Rightarrow> f error httpStatus body st)"

text \<open>The result of \<open>curlDataCallback\<close> is the number of bytes it took.\<close>

definition curlDataCallback ::
  "'w unix_platform \<Rightarrow> 'w unix_callback option \<Rightarrow> int \<Rightarrow> string \<Rightarrow> 'w unix_state \<Rightarrow> mem_error + (nat \<times> 'w unix_state)" where
  "curlDataCallback P cb code contents st =
     (if \<not> available P (length contents + 1) (world st) then
        bindE (call cb ENOMEM 0 None st) (\<lambda>st. Inr (0, st))
      else
        bindE (call cb 0 code (Some (contents @ [NUL])) st) (\<lambda>st. Inr (length contents, st)))"

definition parseProgressInternal :: "32 word \<Rightarrow> 32 word \<Rightarrow> int" where
  "parseProgressInternal clientp now =
     (let startTime = ucast clientp :: 64 word; nowTime = ucast now in
      if nowTime - startTime > PARSE_REQUEST_TIMEOUT_SECONDS then 1 else 0)"

text \<open>
  How libcurl runs a transfer: a data callback that takes less than it was given and a progress function that does
  not return 0 end it.
\<close>

fun transfer ::
  "'w unix_platform \<Rightarrow> 32 word \<Rightarrow> 'w unix_callback option \<Rightarrow> curl_event list \<Rightarrow> int \<Rightarrow> 'w unix_state \<Rightarrow> mem_error + (int \<times> 'w unix_state)" where
  "transfer P start cb [] result st = Inr (result, st)"
| "transfer P start cb (Data code contents # es) result st =
     bindE (curlDataCallback P cb code contents st) (\<lambda>(n, st).
       if n \<noteq> length contents then Inr (CURLE_WRITE_ERROR, st) else transfer P start cb es result st)"
| "transfer P start cb (Progress now # es) result st =
     (if parseProgressInternal start now \<noteq> 0 then Inr (CURLE_ABORTED_BY_CALLBACK, st) else transfer P start cb es result st)"

fun set_options :: "'w unix_platform \<Rightarrow> nat \<Rightarrow> curl_option list \<Rightarrow> 'w \<Rightarrow> int \<times> 'w" where
  "set_options P h [] w = (CURLE_OK, w)"
| "set_options P h (x # xs) w =
     (case easy_setopt P h x w of (result, w) \<Rightarrow> if result \<noteq> CURLE_OK then (result, w) else set_options P h xs w)"

definition strncat :: "string \<Rightarrow> string \<Rightarrow> nat \<Rightarrow> string" where
  "strncat b s n = b @ take n s"

definition is_get :: "string \<Rightarrow> bool" where
  "is_get httpVerb \<longleftrightarrow> httpVerb = ''GET''"

text \<open>The size of the URL and the URL.\<close>

definition url_size :: "string \<Rightarrow> string \<Rightarrow> string option \<Rightarrow> nat" where
  "url_size server httpPath query =
     length server + (length httpPath + 1) + (case query of None \<Rightarrow> 0 | Some q \<Rightarrow> length q + 1)"

definition full_url :: "string \<Rightarrow> string \<Rightarrow> string option \<Rightarrow> string" where
  "full_url server httpPath query =
     (let urlSize = url_size server httpPath query;
          u = strncat [] server urlSize;
          u = strncat u httpPath (urlSize - length u) in
      case query of
        None \<Rightarrow> u
      | Some q \<Rightarrow>
          let u = strncat u ''?'' (urlSize - length u) in strncat u q (urlSize - length u))"

definition header :: "string \<Rightarrow> string \<Rightarrow> string" where
  "header name v = take (128 - 1) (name @ '': '' @ v)"

definition opt_header :: "string \<Rightarrow> string option \<Rightarrow> string list" where
  "opt_header name v = (case v of None \<Rightarrow> [] | Some v \<Rightarrow> [header name v])"

definition request_headers :: "'w unix_platform \<Rightarrow> unix_client \<Rightarrow> bool \<Rightarrow> string list option" where
  "request_headers P c useInstallationIdHeader =
     (case (applicationId c, osVersion c) of
        (Some a, Some v) \<Rightarrow> Some
          ([header ''X-Parse-Application-Id'' a,
            header ''X-Parse-Client-Version'' (''c-embedded-'' @ sdk_version P),
            header ''X-Parse-OS-Version'' v] @
           opt_header ''X-Parse-Client-Key'' (clientKey c) @
           (if useInstallationIdHeader then opt_header ''X-Parse-Installation-Id'' (installationId c) else []) @
           opt_header ''X-Parse-Session-Token'' (sessionToken c) @
           [''Content-Type: application/json; charset=utf-8'', ''Connection: close'', ''Accept:''])
      | _ \<Rightarrow> None)"

definition verb_options :: "string \<Rightarrow> string option \<Rightarrow> curl_option list" where
  "verb_options httpVerb requestBody =
     CustomRequest httpVerb #
       (case requestBody of
          Some b \<Rightarrow> if \<not> is_get httpVerb then [PostFields b, PostFieldSize (length b)] else []
        | None \<Rightarrow> [])"

definition query_of :: "string \<Rightarrow> string option \<Rightarrow> string option" where
  "query_of httpVerb requestBody = (if is_get httpVerb then requestBody else None)"

definition transfer_options :: "32 word \<Rightarrow> string list \<Rightarrow> curl_option list" where
  "transfer_options start headers =
     [HttpHeader headers, WriteFunction, WriteData, NoProgress, XferInfoData start, XferInfoFunction]"

text \<open>The options are set one after the other; the first that fails is reported, and its result returned.\<close>

definition try_options ::
  "'w unix_platform \<Rightarrow> 'w unix_callback option \<Rightarrow> nat \<Rightarrow> curl_option list \<Rightarrow> 'w unix_state \<Rightarrow>
     ('w unix_state \<Rightarrow> mem_error + 'w unix_state) \<Rightarrow> mem_error + 'w unix_state" where
  "try_options P cb h xs st k =
     (case set_options P h xs (world st) of (result, w) \<Rightarrow>
        let st = st\<lparr>world := w\<rparr> in
        if result \<noteq> CURLE_OK then call cb result 0 None st else k st)"

definition perform ::
  "'w unix_platform \<Rightarrow> 'w unix_callback option \<Rightarrow> nat \<Rightarrow> 32 word \<Rightarrow> 'w unix_state \<Rightarrow> mem_error + 'w unix_state" where
  "perform P cb h start st =
     (case easy_perform P h (world st) of ((es, result), w) \<Rightarrow>
        bindE (transfer P start cb es result (st\<lparr>world := w\<rparr>)) (\<lambda>(result, st).
          if result \<noteq> CURLE_OK then
            let result = (if result = CURLE_ABORTED_BY_CALLBACK then CURLE_OPERATION_TIMEDOUT else result) in
            call cb result 0 None st
          else Inr (log (Cleaned h) (st\<lparr>world := easy_cleanup P h (world st)\<rparr>))))"

definition parseSendRequestInternal ::
  "'w unix_platform \<Rightarrow> string \<Rightarrow> string \<Rightarrow> string option \<Rightarrow> 'w unix_callback option \<Rightarrow> bool \<Rightarrow> 'w unix_state \<Rightarrow> mem_error + 'w unix_state" where
  "parseSendRequestInternal P httpVerb httpPath requestBody cb useInstallationIdHeader st =
     (case easy_init P (world st) of
        (None, w) \<Rightarrow> call cb CURLE_FAILED_INIT 0 None (st\<lparr>world := w\<rparr>)
      | (Some h, w) \<Rightarrow>
          try_options P cb h (verb_options httpVerb requestBody) (log (Opened h) (st\<lparr>world := w\<rparr>)) (\<lambda>st.
            case serverURL (client st) of
              None \<Rightarrow> Inl NullPointer
            | Some server \<Rightarrow>
                let query = query_of httpVerb requestBody; url = full_url server httpPath query in
                if \<not> available P (url_size server httpPath query + 1) (world st) then call cb ENOMEM 0 None st
                else try_options P cb h [Url url] st (\<lambda>st.
                  case request_headers P (client st) useInstallationIdHeader of
                    None \<Rightarrow> Inl NullPointer
                  | Some headers \<Rightarrow>
                      let start = secondsSinceBoot P (world st) in
                      try_options P cb h (transfer_options start headers) st (\<lambda>st.
                        perform P cb h start
                          (log (Requested httpVerb url (if is_get httpVerb then None else requestBody) headers) st)))))"

text \<open>A callback of the application is logged with the text of the body.\<close>

definition application_callback :: "'w unix_callback" where
  "application_callback error httpStatus body st =
     (case body of
        None \<Rightarrow> Inr (log (Answered error httpStatus None) st)
      | Some m \<Rightarrow> bindE (c_text m) (\<lambda>s. Inr (log (Answered error httpStatus (Some s)) st)))"

section \<open>What is sent\<close>

lemma full_url_text:
  "full_url server httpPath query = server @ httpPath @ (case query of None \<Rightarrow> [] | Some q \<Rightarrow> ''?'' @ q)"
  by (simp add: full_url_def url_size_def strncat_def Let_def split: option.split)

lemma header_whole: "length name + length v \<le> 125 \<Longrightarrow> header name v = name @ '': '' @ v"
  by (simp add: header_def)

lemma progress_in_time: "start \<le> now \<Longrightarrow> now - start \<le> 60 \<Longrightarrow> parseProgressInternal start now = 0"
proof -
  assume le: "start \<le> now" and d: "now - start \<le> 60"
  have "unat (ucast now - ucast start :: 64 word) = unat (now - start)"
  proof -
    have u: "unat (ucast now :: 64 word) = unat now" "unat (ucast start :: 64 word) = unat start"
      using unsigned_less [where 'a = nat, of now] unsigned_less [where 'a = nat, of start]
      by (simp_all add: unsigned_ucast_eq take_bit_nat_eq_self_iff)
    with le have "unat (ucast now - ucast start :: 64 word) = unat now - unat start"
      by (subst unat_sub) (simp_all add: word_le_nat_alt)
    then show ?thesis using le by (simp add: unat_sub)
  qed
  moreover have "unat (now - start) \<le> 60" using d by (simp add: word_le_nat_alt)
  ultimately show ?thesis
    by (simp add: parseProgressInternal_def PARSE_REQUEST_TIMEOUT_SECONDS_def word_less_nat_alt)
qed

end
