(* ===== verification/Unix_Request.thy ===== *)
theory Unix_Request
  imports Unix_Client
begin

text \<open>
  What a request of the Unix SDK does: every step of \<open>parseSendRequestInternal\<close> as seen from the outside, and what
  it keeps. The callback runs once for every piece of the answer, and once more for an error.
\<close>

section \<open>The calls of the application\<close>

lemma c_text_body: "c_text (s @ [NUL]) = Inr (takeWhile (\<lambda>c. c \<noteq> NUL) s)"
proof (cases "NUL \<in> set s")
  case True
  then obtain us vs where s: "s = us @ NUL # vs" "NUL \<notin> set us" using split_list_first by metis
  then have "takeWhile (\<lambda>c. c \<noteq> NUL) s = us" by (auto simp: takeWhile_tail takeWhile_eq_all_conv)
  with c_text_string [OF s(2), of "vs @ [NUL]"] s(1) show ?thesis by simp
next
  case False
  then have "takeWhile (\<lambda>c. c \<noteq> NUL) s = s" by (auto simp: takeWhile_eq_all_conv)
  with c_text_string [OF False, of "[]"] show ?thesis by (simp only:)
qed

text \<open>What a transfer tells the application, and its result: it ends early when it takes too long.\<close>

fun transfer_outcome :: "32 word \<Rightarrow> curl_event list \<Rightarrow> int \<Rightarrow> unix_effect list \<times> int" where
  "transfer_outcome start [] result = ([], result)"
| "transfer_outcome start (Data code contents # es) result =
     (case transfer_outcome start es result of (as, r) \<Rightarrow> (Answered 0 code (Some (takeWhile (\<lambda>c. c \<noteq> NUL) contents)) # as, r))"
| "transfer_outcome start (Progress now # es) result =
     (if parseProgressInternal start now \<noteq> 0 then ([], CURLE_ABORTED_BY_CALLBACK) else transfer_outcome start es result)"

lemma call_application:
  "call (Some application_callback) error httpStatus None st = Inr (log (Answered error httpStatus None) st)"
  "call (Some application_callback) error httpStatus (Some (s @ [NUL])) st =
     Inr (log (Answered error httpStatus (Some (takeWhile (\<lambda>c. c \<noteq> NUL) s))) st)"
  by (simp_all add: call_def application_callback_def c_text_body)

lemma log_simps [simp]: "effects (log e st) = effects st @ [e]" "world (log e st) = world st" "client (log e st) = client st"
  "local_store (log e st) = local_store st"
  by (simp_all add: log_def)

lemma transfer_application:
  assumes "\<And>n w. available P n w"
  shows "transfer P start (Some application_callback) es result st =
    Inr (snd (transfer_outcome start es result), st\<lparr>effects := effects st @ fst (transfer_outcome start es result)\<rparr>)"
proof (induction es arbitrary: st)
  case (Cons e es)
  show ?case
  proof (cases e)
    case (Data code contents)
    then show ?thesis
      using Cons.IH [of "log (Answered 0 code (Some (takeWhile (\<lambda>c. c \<noteq> NUL) contents))) st"] assms
      by (simp add: curlDataCallback_def call_application case_prod_beta log_def)
  next
    case (Progress now)
    with Cons.IH [of st] show ?thesis by simp
  qed
qed simp

definition curl_accepts :: "'w unix_platform \<Rightarrow> bool" where
  "curl_accepts P \<longleftrightarrow> (\<forall>h x w. fst (easy_setopt P h x w) = CURLE_OK)"

lemma set_options_accepted: "curl_accepts P \<Longrightarrow> \<exists>w'. set_options P h xs w = (CURLE_OK, w')"
proof (induction xs arbitrary: w)
  case (Cons x xs)
  obtain r w' where r: "easy_setopt P h x w = (r, w')" by fastforce
  with Cons.prems have "r = CURLE_OK" unfolding curl_accepts_def by (metis fst_conv)
  with r Cons.IH [OF Cons.prems, of w'] show ?case by simp
qed simp

lemma try_options_accepted:
  assumes "curl_accepts P"
  shows "\<exists>w. try_options P cb h xs st k = k (st\<lparr>world := w\<rparr>)"
  using set_options_accepted [OF assms, of h xs "world st"] by (auto simp: try_options_def)

lemma error_code: "(if r = CURLE_ABORTED_BY_CALLBACK then CURLE_OPERATION_TIMEDOUT else r) = CURLE_OK \<longleftrightarrow> r = CURLE_OK"
  by (simp add: curl_codes)

text \<open>The state in which the transfer starts.\<close>

lemma request_performed:
  assumes P: "curl_accepts P" "\<And>n w. available P n w" and init: "easy_init P (world st) = (Some h, w0)"
    and c: "serverURL (client st) = Some server" "request_headers P (client st) add = Some headers"
  shows "\<exists>start w. parseSendRequestInternal P httpVerb httpPath requestBody cb add st =
    perform P cb h start (st\<lparr>world := w, effects := effects st @ [Opened h,
      Requested httpVerb (full_url server httpPath (query_of httpVerb requestBody)) (if is_get httpVerb then None else requestBody) headers]\<rparr>)"
proof -
  let ?url = "full_url server httpPath (query_of httpVerb requestBody)"
  let ?req = "Requested httpVerb ?url (if is_get httpVerb then None else requestBody) headers"
  obtain w1 where w1: "set_options P h (verb_options httpVerb requestBody) w0 = (CURLE_OK, w1)"
    using set_options_accepted [OF P(1)] by blast
  obtain w2 where w2: "set_options P h [Url ?url] w1 = (CURLE_OK, w2)" using set_options_accepted [OF P(1)] by blast
  let ?start = "secondsSinceBoot P w2"
  obtain w3 where w3: "set_options P h (transfer_options ?start headers) w2 = (CURLE_OK, w3)"
    using set_options_accepted [OF P(1)] by blast
  have "parseSendRequestInternal P httpVerb httpPath requestBody cb add st =
      perform P cb h ?start (st\<lparr>world := w3, effects := effects st @ [Opened h, ?req]\<rparr>)"
    using init c w1 w2 w3 P(2)
    by (simp add: parseSendRequestInternal_def try_options_def Let_def log_def del: set_options.simps)
  then show ?thesis by blast
qed

section \<open>Correctness\<close>

text \<open>
  C15. A request of the Unix SDK: when libcurl accepts the options and memory is there, the request is made on a
  new handle with the URL \<open>server path?query\<close> and the headers of the client, and the callback of the application is
  called once for every piece of the answer that arrives, with the text of that piece alone: not at all for an
  empty answer, more than once for an answer in pieces. When the transfer fails, it is called once more with
  the error, a timeout for a transfer that took too long, and the handle is not cleaned up.
\<close>

theorem unix_request_answers:
  assumes "curl_accepts P" "\<And>n w. available P n w" "easy_init P (world st) = (Some h, w0)"
    and "serverURL (client st) = Some server" "request_headers P (client st) add = Some headers"
  shows "\<exists>start w es r w' st'. easy_perform P h w = ((es, r), w') \<and>
    parseSendRequestInternal P httpVerb httpPath requestBody (Some application_callback) add st = Inr st' \<and>
    effects st' = effects st @ [Opened h,
      Requested httpVerb (server @ httpPath @ (case query_of httpVerb requestBody of None \<Rightarrow> [] | Some q \<Rightarrow> ''?'' @ q))
        (if is_get httpVerb then None else requestBody) headers] @
      fst (transfer_outcome start es r) @
      (let r' = snd (transfer_outcome start es r) in
       if r' = CURLE_OK then [Cleaned h]
       else [Answered (if r' = CURLE_ABORTED_BY_CALLBACK then CURLE_OPERATION_TIMEDOUT else r') 0 None])"
proof -
  obtain start w where s: "parseSendRequestInternal P httpVerb httpPath requestBody (Some application_callback) add st =
    perform P (Some application_callback) h start (st\<lparr>world := w, effects := effects st @ [Opened h,
      Requested httpVerb (full_url server httpPath (query_of httpVerb requestBody)) (if is_get httpVerb then None else requestBody) headers]\<rparr>)"
    using request_performed [OF assms] by blast
  obtain es r w' where p: "easy_perform P h w = ((es, r), w')" by (metis prod.collapse)
  show ?thesis
    by (rule exI [of _ start], rule exI [of _ w], rule exI [of _ es], rule exI [of _ r], rule exI [of _ w'])
      (simp add: s p perform_def transfer_application [OF assms(2)] call_application full_url_text Let_def)
qed

text \<open>A library for examples: every transfer brings the same events.\<close>

definition demo_curl :: "curl_event list \<Rightarrow> int \<Rightarrow> unit unix_platform" where
  "demo_curl es r = \<lparr>getenv_HOME = (\<lambda>w. Some ''/root''), pw_dir = (\<lambda>w. ''/root''), package_name = None, mkdir = (\<lambda>d w. (0, w)), chmod = (\<lambda>d w. w),
     read_file = (\<lambda>n k w. None), write_file = (\<lambda>n bs w. w), remove_file = (\<lambda>n w. w), list_dir = (\<lambda>d w. None), lstat_dir = (\<lambda>d w. None), uname = (\<lambda>w. None), available = (\<lambda>n w. True),
     easy_init = (\<lambda>w. (Some 1, w)), easy_setopt = (\<lambda>h x w. (0, w)), easy_perform = (\<lambda>h w. ((es, r), w)), easy_cleanup = (\<lambda>h w. w),
     easy_send = (\<lambda>h s w. w), easy_recv = (\<lambda>h n w. (Again, w)), lastsocket = (\<lambda>h w. (0, 5)), select_socket = (\<lambda>s w. ((0, False), w)), secondsSinceBoot = (\<lambda>w. 0),
     uuid_unparse = (\<lambda>w. (''0f'', w)), sdk_version = ''1.0''\<rparr>"

definition demo_unix_client :: unix_client where
  "demo_unix_client = \<lparr>applicationId = Some ''app'', clientKey = None, installationId = Some ''0f'', objectId = None, sessionToken = None,
     osVersion = Some ''os'', lastPushTime = None, serverURL = Some ''https://s'', pushCallback = True, pushCurlHandle = None, lastHearbeat = 0\<rparr>"

definition demo_unix_state :: "unit unix_state" where
  "demo_unix_state = \<lparr>client = demo_unix_client, local_store = ''/s/'', world = (), effects = []\<rparr>"

theorem unix_request_answers_witness:
  "\<exists>st'. parseSendRequestInternal (demo_curl [Data 200 ''{'', Data 200 ''}''] 0) ''GET'' ''/x'' (Some ''q'') (Some application_callback) True demo_unix_state = Inr st' \<and>
    drop 2 (effects st') = [Answered 0 200 (Some ''{''), Answered 0 200 (Some ''}''), Cleaned 1]"
proof -
  let ?P = "demo_curl [Data 200 ''{'', Data 200 ''}''] 0"
  have "curl_accepts ?P" "\<And>n w. available ?P n w" "easy_init ?P (world demo_unix_state) = (Some 1, ())"
    "serverURL (client demo_unix_state) = Some ''https://s''" "\<exists>hs. request_headers ?P (client demo_unix_state) True = Some hs"
    by (simp_all add: curl_accepts_def demo_curl_def curl_codes demo_unix_state_def demo_unix_client_def request_headers_def)
  then show ?thesis
    using unix_request_answers [of ?P demo_unix_state 1 "()" "''https://s''" True _ "''GET''" "''/x''" "Some ''q''"]
    by (auto simp: demo_curl_def demo_unix_state_def curl_codes)
qed

end
