(* ===== verification/Unix_Session.thy ===== *)
theory Unix_Session
  imports Unix_Request
begin

text \<open>
  \<^verbatim>\<open>unix/src/parse.c\<close>, the installation and the session of a client, and its initialization from the local store;
  \<^verbatim>\<open>unix/src/parse_uuid.c\<close>. The callbacks of the requests run on the pieces of the answers.
\<close>

section \<open>Definitions\<close>

definition PARSE_INSTALLATION_ID :: string where "PARSE_INSTALLATION_ID = ''installationID''"
definition PARSE_SESSION_TOKEN :: string where "PARSE_SESSION_TOKEN = ''sessionToken''"
definition PARSE_LAST_PUSH_TIME :: string where "PARSE_LAST_PUSH_TIME = ''lastPushTime''"

lemmas key_names = PARSE_INSTALLATION_ID_def PARSE_SESSION_TOKEN_def PARSE_LAST_PUSH_TIME_def

definition parseGetUUID :: "'w unix_platform \<Rightarrow> char list \<Rightarrow> nat \<Rightarrow> 'w \<Rightarrow> (mem_error + char list) \<times> 'w" where
  "parseGetUUID P m id_size w =
     (case uuid_unparse P w of (s, w) \<Rightarrow>
        (bindE (poke m 0 (take id_size s @ replicate (id_size - length s) NUL)) (\<lambda>m.
         bindE (strlen_from m 0) (\<lambda>n.
           Inr (map (\<lambda>c. char_of (nat (tolower c))) (take n m) @ drop n m))), w))"

text \<open>An operation on the local store.\<close>

definition on_store :: "('w store \<Rightarrow> mem_error + 'w store) \<Rightarrow> 'w unix_state \<Rightarrow> mem_error + 'w unix_state" where
  "on_store f st = bindE (f (local_store st, world st)) (\<lambda>(s, w). Inr (st\<lparr>local_store := s, world := w\<rparr>))"

definition setInstallationCallback :: "'w unix_platform \<Rightarrow> 'w unix_callback" where
  "setInstallationCallback P error httpStatus httpResponseBody st =
     (if error \<noteq> 0 then Inr st
      else bindE (simpleJsonProcessor httpResponseBody (Some ''objectId'') True 64) (\<lambda>(found, val).
        if found then bindE (c_text val) (\<lambda>s. Inr (st\<lparr>client := (client st)\<lparr>objectId := strdup P s (world st)\<rparr>\<rparr>))
        else Inr st))"

definition installation_payload :: "string \<Rightarrow> string" where
  "installation_payload i =
     (let a = ''{'' @ [CHR 0x22] @ ''installationId'' @ [CHR 0x22] @ '':'' @ [CHR 0x22];
          b = [CHR 0x22] @ '','' @ [CHR 0x22] @ ''deviceType'' @ [CHR 0x22] @ '':'' @ [CHR 0x22] @ ''embedded'' @ [CHR 0x22] @ ''}'';
          payloadLength = length a + length i + (length b + 1);
          p = strncat [] a payloadLength;
          p = strncat p i (payloadLength - length p) in
      strncat p b (payloadLength - length p))"

definition payload_length :: "string \<Rightarrow> nat" where
  "payload_length i = 19 + length i + 27"

definition parseSetInstallationId :: "'w unix_platform \<Rightarrow> string option \<Rightarrow> 'w unix_state \<Rightarrow> mem_error + 'w unix_state" where
  "parseSetInstallationId P newId st =
     (case newId of
        Some i \<Rightarrow>
          bindE (on_store (parseOsStoreKey P (applicationId (client st)) PARSE_INSTALLATION_ID i) st) (\<lambda>st.
            let st = st\<lparr>client := (client st)\<lparr>installationId := strdup P i (world st)\<rparr>\<rparr> in
            (case installationId (client st) of
               None \<Rightarrow> Inl NullPointer
             | Some j \<Rightarrow>
                 if \<not> available P (payload_length j) (world st) then Inr st
                 else parseSendRequestInternal P ''POST'' ''/installations/'' (Some (installation_payload j)) (Some (setInstallationCallback P)) False st))
      | None \<Rightarrow>
          bindE (on_store (parseOsClearKey P (applicationId (client st)) PARSE_INSTALLATION_ID) st) (\<lambda>st.
            Inr (st\<lparr>client := (client st)\<lparr>installationId := None\<rparr>\<rparr>)))"

definition parseGetInstallationId :: "'w unix_state \<Rightarrow> string option" where
  "parseGetInstallationId st = installationId (client st)"

definition parseCreateInstallationIdIfNeeded :: "'w unix_platform \<Rightarrow> 'w unix_state \<Rightarrow> mem_error + 'w unix_state" where
  "parseCreateInstallationIdIfNeeded P st =
     (if installationId (client st) = None then
        bindE (parseOsLoadKey P (applicationId (client st)) PARSE_INSTALLATION_ID (replicate 37 NUL) 37 (local_store st, world st)) (\<lambda>(m, (s, w)).
          if m ! 0 = NUL then
            (case parseGetUUID P m 37 w of (m, w) \<Rightarrow>
               bindE m (\<lambda>m. bindE (c_text m) (\<lambda>i. parseSetInstallationId P (Some i) (st\<lparr>local_store := s, world := w\<rparr>))))
          else bindE (c_text m) (\<lambda>i. parseSetInstallationId P (Some i) (st\<lparr>local_store := s, world := w\<rparr>)))
      else Inr st)"

definition parseSendRequest ::
  "'w unix_platform \<Rightarrow> string \<Rightarrow> string \<Rightarrow> string option \<Rightarrow> 'w unix_callback option \<Rightarrow> 'w unix_state \<Rightarrow> mem_error + 'w unix_state" where
  "parseSendRequest P httpVerb httpPath requestBody cb st =
     bindE (parseCreateInstallationIdIfNeeded P st) (parseSendRequestInternal P httpVerb httpPath requestBody cb True)"

text \<open>An installation id that does not match is only logged; both ends of that branch are the same.\<close>

definition getSessionObjectCallback :: "'w unix_platform \<Rightarrow> 'w unix_callback" where
  "getSessionObjectCallback P error httpStatus httpResponseBody st =
     (if error = 0 \<and> httpResponseBody \<noteq> None then
        bindE (simpleJsonProcessor httpResponseBody (Some ''objectId'') True 16) (\<lambda>(found, _).
          if found then
            bindE (simpleJsonProcessor httpResponseBody (Some ''installationId'') True 40) (\<lambda>(found, _).
              if found then (case installationId (client st) of None \<Rightarrow> Inl NullPointer | Some i \<Rightarrow> Inr st)
              else parseSendRequest P ''PUT'' ''/sessions/me'' (Some ''{}'') None st)
          else Inr st)
      else Inr st)"

definition parseSetSessionToken :: "'w unix_platform \<Rightarrow> string option \<Rightarrow> 'w unix_state \<Rightarrow> mem_error + 'w unix_state" where
  "parseSetSessionToken P token st =
     (case token of
        Some t \<Rightarrow>
          bindE (parseCreateInstallationIdIfNeeded P st) (\<lambda>st.
          bindE (on_store (parseOsStoreKey P (applicationId (client st)) PARSE_SESSION_TOKEN t) st) (\<lambda>st.
            parseSendRequest P ''GET'' ''/sessions/me'' None (Some (getSessionObjectCallback P))
              (st\<lparr>client := (client st)\<lparr>sessionToken := strdup P t (world st)\<rparr>\<rparr>)))
      | None \<Rightarrow>
          bindE (on_store (parseOsClearKey P (applicationId (client st)) PARSE_SESSION_TOKEN) st) (\<lambda>st.
            Inr (st\<lparr>client := (client st)\<lparr>sessionToken := None\<rparr>\<rparr>)))"

definition parseClearSessionToken :: "'w unix_platform \<Rightarrow> 'w unix_state \<Rightarrow> mem_error + 'w unix_state" where
  "parseClearSessionToken P st = parseSetSessionToken P None st"

definition parseGetSessionToken :: "'w unix_state \<Rightarrow> string option" where
  "parseGetSessionToken st = sessionToken (client st)"

text \<open>
  The initialization: \<open>temp\<close> are the bytes of the array before it is first written. A key is loaded into it,
  and used when its first byte is not the terminator.
\<close>

definition load_temp ::
  "'w unix_platform \<Rightarrow> string \<Rightarrow> char list \<Rightarrow> 'w unix_state \<Rightarrow> (string \<Rightarrow> 'w unix_state \<Rightarrow> mem_error + 'w unix_state) \<Rightarrow>
     mem_error + (char list \<times> 'w unix_state)" where
  "load_temp P key temp st k =
     bindE (parseOsLoadKey P (applicationId (client st)) key temp 40 (local_store st, world st)) (\<lambda>(temp, (s, w)).
       let st = st\<lparr>local_store := s, world := w\<rparr> in
       if temp ! 0 \<noteq> NUL then bindE (c_text temp) (\<lambda>v. bindE (k v st) (\<lambda>st. Inr (temp, st)))
       else Inr (temp, st))"

definition new_client :: "'w unix_platform \<Rightarrow> string option \<Rightarrow> string option \<Rightarrow> string option \<Rightarrow> 'w \<Rightarrow> unix_client" where
  "new_client P appId key url w =
     \<lparr>applicationId = Option.bind appId (\<lambda>s. strdup P s w), clientKey = Option.bind key (\<lambda>s. strdup P s w),
      installationId = None, objectId = None, sessionToken = None, osVersion = strdup P (parseOsGetVersion P 256 w) w, lastPushTime = None,
      serverURL = strdup P (case url of Some u \<Rightarrow> u | None \<Rightarrow> PARSE_DEFAULT_SERVER_URL) w,
      pushCallback = False, pushCurlHandle = None, lastHearbeat = 0\<rparr>"

definition parseInitializeWithServerURL ::
  "'w unix_platform \<Rightarrow> bool \<Rightarrow> char list \<Rightarrow> string option \<Rightarrow> string option \<Rightarrow> string option \<Rightarrow> 'w store \<Rightarrow> mem_error + 'w unix_state option" where
  "parseInitializeWithServerURL P memory temp appId key url s =
     (if \<not> memory then Inr None
      else
        let st = \<lparr>client = new_client P appId key url (snd s), local_store = fst s, world = snd s, effects = []\<rparr> in
        bindE (load_temp P PARSE_INSTALLATION_ID temp st (\<lambda>v. parseSetInstallationId P (Some v))) (\<lambda>(temp, st).
        bindE (load_temp P PARSE_SESSION_TOKEN temp st (\<lambda>v. parseSetSessionToken P (Some v))) (\<lambda>(temp, st).
        bindE (load_temp P PARSE_LAST_PUSH_TIME temp st (\<lambda>v st.
          Inr (st\<lparr>client := (client st)\<lparr>lastPushTime := strdup P v (world st)\<rparr>\<rparr>))) (\<lambda>(_, st). Inr (Some st)))))"

definition parseInitialize ::
  "'w unix_platform \<Rightarrow> bool \<Rightarrow> char list \<Rightarrow> string option \<Rightarrow> string option \<Rightarrow> 'w store \<Rightarrow> mem_error + 'w unix_state option" where
  "parseInitialize P memory temp appId key s = parseInitializeWithServerURL P memory temp appId key None s"

text \<open>The code of an error, read as an unsigned number and returned as an \<open>int\<close> of 32 bits.\<close>

definition parseGetErrorCode :: "char list option \<Rightarrow> mem_error + int" where
  "parseGetErrorCode httpResponseBody =
     bindE (simpleJsonProcessor httpResponseBody (Some ''code'') True 16) (\<lambda>(found, val).
       if found then bindE (c_text val) (\<lambda>s. Inr (sint (word_of_int (atoi s) :: 32 word))) else Inr 0)"

lemma payload_text:
  "installation_payload i = ''{'' @ [CHR 0x22] @ ''installationId'' @ [CHR 0x22] @ '':'' @ [CHR 0x22] @ i @ [CHR 0x22] @ '','' @ [CHR 0x22] @
     ''deviceType'' @ [CHR 0x22] @ '':'' @ [CHR 0x22] @ ''embedded'' @ [CHR 0x22] @ ''}''"
  and payload_fits: "length (installation_payload i) + 1 = payload_length i"
  by (simp_all add: installation_payload_def strncat_def payload_length_def)

end
