(* ===== verification/Unix_Restart.thy ===== *)
theory Unix_Restart
  imports Unix_Session Json_Safe
begin

text \<open>
  What the requests of the Unix SDK leave alone, and from this that a session of the Unix SDK survives a restart:
  the files of the local store belong to the keys, and libcurl and the callbacks do not touch them.
\<close>

section \<open>Results that are states\<close>

definition good :: "('w unix_state \<Rightarrow> bool) \<Rightarrow> mem_error + 'w unix_state \<Rightarrow> bool" where
  "good R r \<longleftrightarrow> (\<exists>st. r = Inr st \<and> R st)"

lemma good_Inr [simp]: "good R (Inr st) \<longleftrightarrow> R st" and good_Inl [simp]: "\<not> good R (Inl e)"
  by (simp_all add: good_def)

lemma good_bind: "good R r \<Longrightarrow> (\<And>st. R st \<Longrightarrow> good R' (f st)) \<Longrightarrow> good R' (bindE r f)"
  by (auto simp: good_def)

text \<open>The files as they can be read, and what writing a string into one makes of them.\<close>

type_synonym files = "string \<Rightarrow> nat \<Rightarrow> char list option"

definition files_of :: "('w, 'p) os_api_scheme \<Rightarrow> 'w \<Rightarrow> files" where
  "files_of P w = (\<lambda>n k. read_file P n k w)"

definition wrote :: "files \<Rightarrow> string \<Rightarrow> string \<Rightarrow> files" where
  "wrote F n v = F(n := \<lambda>k. Some (take k (v @ [NUL])))"

lemma wrote_simps [simp]: "wrote F n v n k = Some (take k (v @ [NUL]))" "n' \<noteq> n \<Longrightarrow> wrote F n v n' = F n'"
  by (simp_all add: wrote_def)

lemma files_of_write: "files_ok P \<Longrightarrow> files_of P (write_file P n (v @ [NUL]) w) = wrote (files_of P w) n v"
  by (rule ext, rule ext) (auto simp: files_of_def wrote_def files_okD)

definition curl_leaves_files :: "'w unix_platform \<Rightarrow> bool" where
  "curl_leaves_files P \<longleftrightarrow>
     (\<forall>w. files_of P (snd (easy_init P w)) = files_of P w) \<and>
     (\<forall>h x w. files_of P (snd (easy_setopt P h x w)) = files_of P w) \<and>
     (\<forall>h w. files_of P (snd (easy_perform P h w)) = files_of P w) \<and>
     (\<forall>h w. files_of P (easy_cleanup P h w) = files_of P w)"

lemma curl_files:
  assumes "curl_leaves_files P"
  shows "easy_init P w = (x, w') \<Longrightarrow> files_of P w' = files_of P w"
    and "easy_setopt P h y w = (r, w') \<Longrightarrow> files_of P w' = files_of P w"
    and "easy_perform P h w = (es, w') \<Longrightarrow> files_of P w' = files_of P w"
    and "files_of P (easy_cleanup P h w) = files_of P w"
  using assms unfolding curl_leaves_files_def by (metis snd_conv)+

text \<open>An answer in which the scanner finds its way to the ids or to the end.\<close>

definition answer_scans :: "string \<Rightarrow> bool" where
  "answer_scans s \<longleftrightarrow>
     (\<forall>key sz. key = ''objectId'' \<or> key = ''installationId'' \<longrightarrow> (\<exists>b out. simpleJsonProcessor (Some (s @ [NUL])) (Some key) True sz = Inr (b, out)))"

lemma closed_answer_scans: "NUL \<notin> set s \<Longrightarrow> closed_text s \<Longrightarrow> answer_scans s"
  unfolding answer_scans_def by (intro allI impI processor_total [OF holds_cstring]) auto

definition answers_scan :: "'w unix_platform \<Rightarrow> bool" where
  "answers_scan P \<longleftrightarrow> (\<forall>h w code s. Data code s \<in> set (fst (fst (easy_perform P h w))) \<longrightarrow> answer_scans s)"

section \<open>A request keeps what is known\<close>

text \<open>A client with its ids, on a store with its files.\<close>

definition at ::
  "'w unix_platform \<Rightarrow> string \<Rightarrow> string option \<Rightarrow> string option \<Rightarrow> string option \<Rightarrow> string \<Rightarrow> files \<Rightarrow> 'w unix_state \<Rightarrow> bool" where
  "at P a i t p store F st \<longleftrightarrow>
     applicationId (client st) = Some a \<and> serverURL (client st) \<noteq> None \<and> osVersion (client st) \<noteq> None \<and>
     installationId (client st) = i \<and> sessionToken (client st) = t \<and> lastPushTime (client st) = p \<and>
     local_store st = store \<and> files_of P (world st) = F"

lemma at_log [simp]: "at P a i t p store F (log e st) = at P a i t p store F st"
  by (simp add: at_def)

lemma at_world: "at P a i t p store F st \<Longrightarrow> files_of P w = files_of P (world st) \<Longrightarrow> at P a i t p store F (st\<lparr>world := w\<rparr>)"
  by (simp add: at_def)

lemma at_objectId: "at P a i t p store F st \<Longrightarrow> at P a i t p store F (st\<lparr>client := (client st)\<lparr>objectId := x\<rparr>\<rparr>)"
  by (simp add: at_def)

text \<open>A callback that keeps a property of the state: for an error without a body, and for the pieces of an answer.\<close>

definition cb_keeps :: "('w unix_state \<Rightarrow> bool) \<Rightarrow> 'w unix_callback option \<Rightarrow> bool" where
  "cb_keeps R cb \<longleftrightarrow>
     (\<forall>st e. R st \<and> e \<noteq> 0 \<longrightarrow> good R (call cb e 0 None st)) \<and>
     (\<forall>st code s. R st \<and> answer_scans s \<longrightarrow> good R (call cb 0 code (Some (s @ [NUL])) st))"

lemma cb_keepsD:
  assumes "cb_keeps R cb" "R st"
  shows "e \<noteq> 0 \<Longrightarrow> good R (call cb e 0 None st)" "answer_scans s \<Longrightarrow> good R (call cb 0 code (Some (s @ [NUL])) st)"
  using assms by (simp_all add: cb_keeps_def)

lemma cb_keeps_None: "cb_keeps R None"
  by (simp add: cb_keeps_def call_def)

lemma transfer_keeps:
  assumes cb: "cb_keeps R cb" and av: "\<And>n w. available P n w"
    and es: "\<forall>code s. Data code s \<in> set es \<longrightarrow> answer_scans s" and st: "R st"
  shows "\<exists>r' st'. transfer P start cb es r st = Inr (r', st') \<and> R st'"
  using es st
proof (induction es arbitrary: st)
  case (Cons e es)
  have IH: "R st \<Longrightarrow> \<exists>r' st'. transfer P start cb es r st = Inr (r', st') \<and> R st'" for st
    using Cons.prems(1) by (intro Cons.IH) auto
  show ?case
  proof (cases e)
    case (Data code s)
    with Cons.prems(1) have "answer_scans s" by auto
    with cb_keepsD(2) [OF cb Cons.prems(2)] obtain st1 where "call cb 0 code (Some (s @ [NUL])) st = Inr st1" "R st1"
      unfolding good_def by blast
    with IH [of st1] Data av show ?thesis by (simp add: curlDataCallback_def)
  next
    case (Progress now)
    with IH [OF Cons.prems(2)] Cons.prems(2) show ?thesis by simp
  qed
qed simp

lemma set_options_files:
  "curl_leaves_files P \<Longrightarrow> set_options P h xs w = (r, w') \<Longrightarrow> files_of P w' = files_of P w"
  by (induction xs arbitrary: w) (auto simp: curl_files(2) split: prod.splits if_splits)

lemma try_options_keeps:
  assumes P: "curl_leaves_files P" and cb: "cb_keeps (at P a i t p store F) cb" and st: "at P a i t p store F st"
    and k: "\<And>st. at P a i t p store F st \<Longrightarrow> good (at P a i t p store F) (k st)"
  shows "good (at P a i t p store F) (try_options P cb h xs st k)"
proof -
  obtain r w where w: "set_options P h xs (world st) = (r, w)" by fastforce
  note st' = at_world [OF st set_options_files [OF P w]]
  from w k [OF st'] cb_keepsD(1) [OF cb st'] show ?thesis
    by (cases "r = CURLE_OK") (simp_all add: try_options_def curl_codes)
qed

lemma perform_keeps:
  assumes P: "curl_leaves_files P" "answers_scan P" "\<And>n w. available P n w"
    and cb: "cb_keeps (at P a i t p store F) cb" and st: "at P a i t p store F st"
  shows "good (at P a i t p store F) (perform P cb h start st)"
proof -
  let ?R = "at P a i t p store F"
  obtain es r w where w: "easy_perform P h (world st) = ((es, r), w)" by (metis prod.collapse)
  have es: "\<forall>code s. Data code s \<in> set es \<longrightarrow> answer_scans s"
    using P(2) w unfolding answers_scan_def by (metis fst_conv)
  obtain r' st' where tr: "transfer P start cb es r (st\<lparr>world := w\<rparr>) = Inr (r', st')" "?R st'"
    using transfer_keeps [where es = es and r = r, OF cb P(3) es at_world [OF st curl_files(3) [OF P(1) w]]] by blast
  have e: "(if r' = CURLE_ABORTED_BY_CALLBACK then CURLE_OPERATION_TIMEDOUT else r') \<noteq> 0" if "r' \<noteq> CURLE_OK"
    using that by (simp add: curl_codes)
  from tr(1) w at_world [OF tr(2) curl_files(4) [OF P(1), of h]] cb_keepsD(1) [OF cb tr(2)] e show ?thesis
    by (cases "r' = CURLE_OK") (simp_all add: perform_def Let_def del: if_split)
qed

lemma request_keeps:
  assumes P: "curl_leaves_files P" "answers_scan P" "\<And>n w. available P n w"
    and cb: "cb_keeps (at P a i t p store F) cb" and st: "at P a i t p store F st"
  shows "good (at P a i t p store F) (parseSendRequestInternal P httpVerb httpPath requestBody cb add st)"
proof -
  let ?R = "at P a i t p store F"
  obtain x w where w: "easy_init P (world st) = (x, w)" by fastforce
  note st' = at_world [OF st curl_files(1) [OF P(1) w]]
  show ?thesis
  proof (cases x)
    case None
    with w cb_keepsD(1) [OF cb st', of CURLE_FAILED_INIT] show ?thesis by (simp add: parseSendRequestInternal_def curl_codes)
  next
    case (Some h)
    have url: "\<exists>s. serverURL (client st) = Some s" if "?R st" for st using that by (auto simp: at_def)
    have hs: "\<exists>hs. request_headers P (client st) add = Some hs" if "?R st" for st
      using that by (auto simp: at_def request_headers_def)
    show ?thesis
      unfolding parseSendRequestInternal_def w Some prod.case option.case
    proof (rule try_options_keeps [OF P(1) cb], simp add: st', goal_cases)
      case (1 st1)
      from url [OF this] obtain s where s: "serverURL (client st1) = Some s" by blast
      show ?case
        unfolding s option.case Let_def if_not_P [of "\<not> available P _ _", OF not_not [THEN iffD2, OF P(3)]]
      proof (rule try_options_keeps [OF P(1) cb 1], goal_cases)
        case (1 st2)
        from hs [OF this] obtain hs where hs: "request_headers P (client st2) add = Some hs" by blast
        show ?case unfolding hs option.case
          by (rule try_options_keeps [OF P(1) cb 1], rule perform_keeps [OF P cb]) simp
      qed
    qed
  qed
qed

section \<open>The operations\<close>

lemma c_text_total: "NUL \<in> set m \<Longrightarrow> \<exists>s. c_text m = Inr s"
  by (metis split_list_first c_text_string)

lemma answer_value:
  assumes "answer_scans s" "key = ''objectId'' \<or> key = ''installationId''"
  obtains b out where "simpleJsonProcessor (Some (s @ [NUL])) (Some key) True sz = Inr (b, out)"
    and "b \<Longrightarrow> \<exists>v. c_text out = Inr v"
proof -
  from assms obtain b out where r: "simpleJsonProcessor (Some (s @ [NUL])) (Some key) True sz = Inr (b, out)"
    unfolding answer_scans_def by blast
  moreover have "\<exists>v. c_text out = Inr v" if b
    using processor_true [of _ _ _ out] r that c_text_total [of out] by (metis last_in_set)
  ultimately show ?thesis using that by blast
qed

lemma setInstallationCallback_keeps:
  "cb_keeps (at P a i t p store F) (Some (setInstallationCallback P))"
  unfolding cb_keeps_def call_def option.case
proof (intro conjI allI impI, goal_cases)
  case (1 st e)
  then show ?case by (simp add: setInstallationCallback_def)
next
  case (2 st code s)
  obtain b out where "simpleJsonProcessor (Some (s @ [NUL])) (Some ''objectId'') True 64 = Inr (b, out)"
    and "b \<Longrightarrow> \<exists>v. c_text out = Inr v"
    using answer_value [of s "''objectId''" 64] 2 by blast
  with 2 show ?case by (cases b) (auto simp: setInstallationCallback_def at_objectId)
qed

lemma created_already:
  "at P a (Some i) t p store F st \<Longrightarrow> parseSendRequest P v path body cb st = parseSendRequestInternal P v path body cb True st"
  by (simp add: parseSendRequest_def parseCreateInstallationIdIfNeeded_def at_def)

lemma getSessionObjectCallback_keeps:
  assumes P: "curl_leaves_files P" "answers_scan P" "\<And>n w. available P n w"
  shows "cb_keeps (at P a (Some i) t p store F) (Some (getSessionObjectCallback P))"
  unfolding cb_keeps_def call_def option.case
proof (intro conjI allI impI, goal_cases)
  case (1 st e)
  then show ?case by (simp add: getSessionObjectCallback_def)
next
  case (2 st code s)
  obtain b out where o: "simpleJsonProcessor (Some (s @ [NUL])) (Some ''objectId'') True 16 = Inr (b, out)"
    using answer_value [of s "''objectId''" 16] 2 by blast
  obtain b' out' where o': "simpleJsonProcessor (Some (s @ [NUL])) (Some ''installationId'') True 40 = Inr (b', out')"
    using answer_value [of s "''installationId''" 40] 2 by blast
  have i: "installationId (client st) = Some i" using 2 by (simp add: at_def)
  from 2 have st: "at P a (Some i) t p store F st" by simp
  show ?case
    using o o' i st request_keeps [OF P cb_keeps_None st] created_already [OF st]
    by (cases b; cases b') (simp_all add: getSessionObjectCallback_def)
qed

lemma on_store_keeps:
  assumes st: "at P a i t p store F st" and f: "f (store, world st) = Inr (store, w)" "files_of P w = F'"
  shows "good (at P a i t p store F') (on_store f st)"
  using assms by (simp add: on_store_def at_def)

lemma stored:
  assumes "at P a i t p store F st" "store \<noteq> []" "files_ok P"
  shows "good (at P a i t p store (wrote F (key_file store key) v)) (on_store (parseOsStoreKey P b key v) st)"
  using assms by (intro on_store_keeps [where f = "parseOsStoreKey P b key v", OF assms(1) store_key]) (simp_all add: files_of_write at_def)

lemma parseSetInstallationId_keeps:
  assumes P: "curl_leaves_files P" "answers_scan P" "\<And>n w. available P n w" "files_ok P"
    and st: "at P a i0 t p store F st" "store \<noteq> []"
  shows "good (at P a (Some i) t p store (wrote F (key_file store PARSE_INSTALLATION_ID) i)) (parseSetInstallationId P (Some i) st)"
  unfolding parseSetInstallationId_def option.case
proof (rule good_bind [OF stored [OF st P(4)]], goal_cases)
  case (1 st1)
  let ?st = "st1\<lparr>client := (client st1)\<lparr>installationId := Some i\<rparr>\<rparr>"
  have "at P a (Some i) t p store (wrote F (key_file store PARSE_INSTALLATION_ID) i) ?st" using 1 by (simp add: at_def)
  from request_keeps [OF P(1-3) setInstallationCallback_keeps this] P(3) show ?case by (simp add: strdup_def)
qed

lemma parseSetSessionToken_keeps:
  assumes P: "curl_leaves_files P" "answers_scan P" "\<And>n w. available P n w" "files_ok P"
    and st: "at P a (Some i) t0 p store F st" "store \<noteq> []"
  shows "good (at P a (Some i) (Some t) p store (wrote F (key_file store PARSE_SESSION_TOKEN) t)) (parseSetSessionToken P (Some t) st)"
proof -
  have "parseCreateInstallationIdIfNeeded P st = Inr st"
    using st(1) by (simp add: parseCreateInstallationIdIfNeeded_def at_def)
  then have "parseSetSessionToken P (Some t) st =
      bindE (on_store (parseOsStoreKey P (applicationId (client st)) PARSE_SESSION_TOKEN t) st) (\<lambda>st.
        parseSendRequest P ''GET'' ''/sessions/me'' None (Some (getSessionObjectCallback P))
          (st\<lparr>client := (client st)\<lparr>sessionToken := strdup P t (world st)\<rparr>\<rparr>))"
    by (simp add: parseSetSessionToken_def)
  then show ?thesis
  proof (simp only:, intro good_bind [OF stored [OF st P(4)]], goal_cases)
    case (1 st1)
    let ?st = "st1\<lparr>client := (client st1)\<lparr>sessionToken := Some t\<rparr>\<rparr>"
    have "at P a (Some i) (Some t) p store (wrote F (key_file store PARSE_SESSION_TOKEN) t) ?st" using 1 by (simp add: at_def)
    from created_already [OF this] request_keeps [OF P(1-3) getSessionObjectCallback_keeps [OF P(1-3)] this] P(3)
    show ?case by (simp add: strdup_def)
  qed
qed

section \<open>The local store\<close>

lemma key_file_text: "length store + length key < PATH_MAX \<Longrightarrow> key_file store key = store @ key"
  by (simp add: key_file_def append_path_def)

text \<open>A home directory that stays, and directories that are created without touching files.\<close>

definition stable_home :: "('w, 'p) os_api_scheme \<Rightarrow> string \<Rightarrow> bool" where
  "stable_home P h \<longleftrightarrow> length h < PATH_MAX \<and> (\<forall>w. getenv_HOME P w = Some h) \<and>
     (\<forall>d w. files_of P (snd (mkdir P d w)) = files_of P w \<and> files_of P (chmod P d w) = files_of P w)"

definition store_dir :: "('w, 'p) os_api_scheme \<Rightarrow> string \<Rightarrow> string \<Rightarrow> string" where
  "store_dir P h a = append_path (append_path (case package_name P of
       Some p \<Rightarrow> append_path (append_path (append_path h ''/.'') p) ''/''
     | None \<Rightarrow> append_path h ''/.parse-embedded-local-store/'') a) ''/''"

lemma append_path_Nil: "append_path b s = [] \<longleftrightarrow> b = [] \<and> s = []"
  by (auto simp: append_path_def PATH_MAX_def)

lemma store_dir_not_empty: "store_dir P h a \<noteq> []"
  by (simp add: store_dir_def append_path_Nil)

lemma parseGetLocalStore_home:
  assumes "stable_home P h"
  shows "\<exists>w'. parseGetLocalStore P (Some a) w = Inr (store_dir P h a, w') \<and> files_of P w' = files_of P w"
proof -
  have keep: "files_of P (snd (parseCreateDir P d w)) = files_of P w" for d w
  proof -
    obtain e w' where m: "mkdir P d w = (e, w')" by fastforce
    have "files_of P w' = files_of P w" "files_of P (chmod P d w') = files_of P w'"
      using assms m unfolding stable_home_def by (metis snd_conv)+
    with m show ?thesis by (simp add: parseCreateDir_def)
  qed
  have "getenv_HOME P w = Some h" "\<not> length h \<ge> PATH_MAX" using assms by (simp_all add: stable_home_def)
  then show ?thesis by (simp add: parseGetLocalStore_def store_dir_def Let_def keep)
qed

text \<open>The first access of a process finds the store.\<close>

lemma load_first:
  assumes "stable_home P h" "0 < sz"
  shows "\<exists>w'. files_of P w' = files_of P w \<and>
    parseOsLoadKey P (Some a) key m sz ([], w) = parseOsLoadKey P (Some a) key m sz (store_dir P h a, w')"
proof -
  obtain w' where w': "parseGetLocalStore P (Some a) w = Inr (store_dir P h a, w')" "files_of P w' = files_of P w"
    using parseGetLocalStore_home [OF assms(1)] by blast
  then have "parseOsLoadKey P (Some a) key m sz ([], w) = parseOsLoadKey P (Some a) key m sz (store_dir P h a, w')"
    using assms(2) store_dir_not_empty [of P h a]
    by (simp add: parseOsLoadKey_def parseOsSetLocalStorageIfNeeded_def)
  with w'(2) show ?thesis by blast
qed

text \<open>A key as its file holds it, and a value that fits into the array of the initialization.\<close>

definition held :: "files \<Rightarrow> string \<Rightarrow> string \<Rightarrow> string option \<Rightarrow> bool" where
  "held F store key v \<longleftrightarrow> (\<forall>k. F (key_file store key) k = map_option (\<lambda>s. take k (s @ [NUL])) v)"

definition short :: "string \<Rightarrow> bool" where
  "short v \<longleftrightarrow> v \<noteq> [] \<and> NUL \<notin> set v \<and> length v < 40"

lemma held_wrote: "held (wrote F (key_file store key) v) store key (Some v)"
  "key_file store key' \<noteq> key_file store key \<Longrightarrow> held (wrote F (key_file store key) v) store key' x = held F store key' x"
  by (simp_all add: held_def)

lemma load_temp_missing:
  assumes "at P a i t p store F st" "store \<noteq> []" "held F store key None" "length temp = 40"
  shows "load_temp P key temp st k = Inr (NUL # tl temp, st)"
proof -
  have "read_file P (key_file store key) 40 (world st) = None"
    using assms(1,3) by (auto simp: at_def held_def files_of_def)
  moreover have "poke temp 0 [NUL] = Inr (NUL # tl temp)" using assms(4) by (simp add: poke_def drop_Suc)
  ultimately show ?thesis using assms(1,2) by (simp add: load_temp_def at_def load_key)
qed

lemma load_temp_short:
  assumes "at P a i t p store F st" "store \<noteq> []" "held F store key (Some v)" "length temp = 40" "short v"
  shows "load_temp P key temp st k = bindE (k v st) (\<lambda>st. Inr (v @ NUL # drop (length v + 1) temp, st))"
proof -
  have "read_file P (key_file store key) 40 (world st) = Some (v @ [NUL])"
    using assms(1,3,5) by (auto simp: at_def held_def files_of_def short_def)
  moreover have "poke temp 0 (v @ [NUL]) = Inr (v @ NUL # drop (length v + 1) temp)"
    using assms(4,5) by (simp add: poke_def short_def)
  moreover have "(v @ NUL # drop (length v + 1) temp) ! 0 \<noteq> NUL" "c_text (v @ NUL # drop (length v + 1) temp) = Inr v"
    using assms(5) by (cases v, auto simp: short_def c_text_string)
  moreover have s: "store = local_store st" using assms(1) by (simp add: at_def)
  ultimately show ?thesis
    using assms(2) unfolding s by (simp add: load_temp_def load_key)
qed

text \<open>A value of 40 characters or more leaves the array without a terminator.\<close>

lemma load_temp_long:
  assumes "at P a i t p store F st" "store \<noteq> []" "held F store key (Some v)" "length temp = 40" "NUL \<notin> set v" "40 \<le> length v"
  shows "load_temp P key temp st k = Inl OutOfBounds"
proof -
  have "read_file P (key_file store key) 40 (world st) = Some (take 40 v)"
    using assms(1,3,6) by (auto simp: at_def held_def files_of_def)
  moreover have "poke temp 0 (take 40 v) = Inr (take 40 v)" using assms(4,6) by (simp add: poke_def)
  moreover have "NUL \<notin> set (take 40 v)" using assms(5) by (meson in_set_takeD)
  moreover from this have "take 40 v ! 0 \<noteq> NUL" using assms(6) nth_mem [of 0 "take 40 v"] by (metis (no_types) length_take min.absorb2 zero_less_numeral)
  ultimately show ?thesis
    using assms(1,2) c_text_unterminated [of "take 40 v"] by (simp add: load_temp_def at_def load_key del: nth_take)
qed

lemma load_temp_first:
  assumes "stable_home P h" "applicationId (client st) = Some a" "local_store st = []"
  shows "\<exists>w'. files_of P w' = files_of P (world st) \<and>
    load_temp P key temp st k = load_temp P key temp (st\<lparr>local_store := store_dir P h a, world := w'\<rparr>) k"
proof -
  obtain w' where "files_of P w' = files_of P (world st)"
    "parseOsLoadKey P (Some a) key temp 40 ([], world st) = parseOsLoadKey P (Some a) key temp 40 (store_dir P h a, w')"
    using load_first [where sz = 40 and key = key and m = temp and a = a and w = "world st", OF assms(1)] by auto
  then show ?thesis using assms(2,3) by (intro exI [of _ w']) (simp add: load_temp_def)
qed

lemma key_files_distinct:
  assumes "length store + 14 < PATH_MAX"
  shows "key_file store PARSE_SESSION_TOKEN \<noteq> key_file store PARSE_INSTALLATION_ID"
    "key_file store PARSE_LAST_PUSH_TIME \<noteq> key_file store PARSE_INSTALLATION_ID"
    "key_file store PARSE_INSTALLATION_ID \<noteq> key_file store PARSE_SESSION_TOKEN"
    "key_file store PARSE_LAST_PUSH_TIME \<noteq> key_file store PARSE_SESSION_TOKEN"
proof -
  have "length PARSE_INSTALLATION_ID \<le> 14" "length PARSE_SESSION_TOKEN \<le> 14" "length PARSE_LAST_PUSH_TIME \<le> 14"
    by (simp_all add: key_names)
  with assms have "key_file store PARSE_INSTALLATION_ID = store @ PARSE_INSTALLATION_ID"
    "key_file store PARSE_SESSION_TOKEN = store @ PARSE_SESSION_TOKEN" "key_file store PARSE_LAST_PUSH_TIME = store @ PARSE_LAST_PUSH_TIME"
    by (auto intro!: key_file_text)
  moreover have "PARSE_SESSION_TOKEN \<noteq> PARSE_INSTALLATION_ID" "PARSE_LAST_PUSH_TIME \<noteq> PARSE_INSTALLATION_ID"
    "PARSE_LAST_PUSH_TIME \<noteq> PARSE_SESSION_TOKEN" by (simp_all add: key_names)
  ultimately show "key_file store PARSE_SESSION_TOKEN \<noteq> key_file store PARSE_INSTALLATION_ID"
    "key_file store PARSE_LAST_PUSH_TIME \<noteq> key_file store PARSE_INSTALLATION_ID"
    "key_file store PARSE_INSTALLATION_ID \<noteq> key_file store PARSE_SESSION_TOKEN"
    "key_file store PARSE_LAST_PUSH_TIME \<noteq> key_file store PARSE_SESSION_TOKEN" by auto
qed

lemmas held_other = held_wrote(2) [OF key_files_distinct(1)] held_wrote(2) [OF key_files_distinct(2)]
  held_wrote(2) [OF key_files_distinct(3)] held_wrote(2) [OF key_files_distinct(4)]

definition starting_client :: "'w unix_platform \<Rightarrow> string \<Rightarrow> string option \<Rightarrow> string option \<Rightarrow> 'w \<Rightarrow> 'w unix_state" where
  "starting_client P a key url w = \<lparr>client = new_client P (Some a) key url w, local_store = [], world = w, effects = []\<rparr>"

lemma starting_client_at:
  assumes "\<And>n w. available P n w" "files_of P w' = files_of P w"
  shows "at P a None None None store (files_of P w) ((starting_client P a key url w)\<lparr>local_store := store, world := w'\<rparr>)"
  using assms by (simp add: at_def starting_client_def new_client_def strdup_def)

lemma initialize_steps:
  "parseInitializeWithServerURL P True temp (Some a) key url ([], w) =
     bindE (load_temp P PARSE_INSTALLATION_ID temp (starting_client P a key url w) (\<lambda>v. parseSetInstallationId P (Some v))) (\<lambda>(temp, st).
     bindE (load_temp P PARSE_SESSION_TOKEN temp st (\<lambda>v. parseSetSessionToken P (Some v))) (\<lambda>(temp, st).
     bindE (load_temp P PARSE_LAST_PUSH_TIME temp st (\<lambda>v st.
       Inr (st\<lparr>client := (client st)\<lparr>lastPushTime := strdup P v (world st)\<rparr>\<rparr>))) (\<lambda>(_, st). Inr (Some st))))"
  by (simp add: parseInitializeWithServerURL_def starting_client_def)

text \<open>The first key: whatever comes after it starts with the installation id loaded and stored again.\<close>

lemma initialize_installation:
  assumes P: "curl_leaves_files P" "answers_scan P" "\<And>n w. available P n w" "files_ok P"
    and h: "stable_home P h" "store = store_dir P h a"
    and F: "held (files_of P w) store PARSE_INSTALLATION_ID (Some i)" "short i" "length temp = 40"
  shows "\<exists>temp' st. length temp' = 40 \<and>
    load_temp P PARSE_INSTALLATION_ID temp (starting_client P a key url w) (\<lambda>v. parseSetInstallationId P (Some v)) = Inr (temp', st) \<and>
    at P a (Some i) None None store (wrote (files_of P w) (key_file store PARSE_INSTALLATION_ID) i) st"
proof -
  note ne = store_dir_not_empty [of P h a, folded h(2)]
  have "applicationId (client (starting_client P a key url w)) = Some a" "local_store (starting_client P a key url w) = []"
    "world (starting_client P a key url w) = w"
    using P(3) by (simp_all add: starting_client_def new_client_def strdup_def)
  then obtain w' where w': "files_of P w' = files_of P w"
    and l: "load_temp P PARSE_INSTALLATION_ID temp (starting_client P a key url w) (\<lambda>v. parseSetInstallationId P (Some v)) =
      load_temp P PARSE_INSTALLATION_ID temp ((starting_client P a key url w)\<lparr>local_store := store, world := w'\<rparr>) (\<lambda>v. parseSetInstallationId P (Some v))"
    using load_temp_first [OF h(1), of "starting_client P a key url w" a PARSE_INSTALLATION_ID temp "\<lambda>v. parseSetInstallationId P (Some v)"]
    unfolding h(2) by metis
  note st0 = starting_client_at [where a = a and key = key and url = url and store = store, OF P(3) w']
  obtain st where "parseSetInstallationId P (Some i) ((starting_client P a key url w)\<lparr>local_store := store, world := w'\<rparr>) = Inr st"
    and "at P a (Some i) None None store (wrote (files_of P w) (key_file store PARSE_INSTALLATION_ID) i) st"
    using parseSetInstallationId_keeps [OF P st0 ne, of i] unfolding good_def by blast
  with l load_temp_short [OF st0 ne F(1,3,2)] F(2,3) show ?thesis by (simp add: short_def)
qed

lemma initialize_session:
  assumes P: "curl_leaves_files P" "answers_scan P" "\<And>n w. available P n w" "files_ok P"
    and h: "stable_home P h" "store = store_dir P h a" "length store + 14 < PATH_MAX"
    and F: "held (files_of P w) store PARSE_INSTALLATION_ID (Some i)" "held (files_of P w) store PARSE_SESSION_TOKEN (Some t)"
      "held (files_of P w) store PARSE_LAST_PUSH_TIME p" "short i" "short t" "pred_option short p" "length temp = 40"
  shows "\<exists>st F'. parseInitializeWithServerURL P True temp (Some a) key url ([], w) = Inr (Some st) \<and> at P a (Some i) (Some t) p store F' st"
proof -
  note ne = store_dir_not_empty [of P h a, folded h(2)]
  let ?F1 = "wrote (files_of P w) (key_file store PARSE_INSTALLATION_ID) i"
  let ?F2 = "wrote ?F1 (key_file store PARSE_SESSION_TOKEN) t"
  obtain temp1 st1 where 1: "length temp1 = 40" "at P a (Some i) None None store ?F1 st1"
    "load_temp P PARSE_INSTALLATION_ID temp (starting_client P a key url w) (\<lambda>v. parseSetInstallationId P (Some v)) = Inr (temp1, st1)"
    using initialize_installation [OF P h(1,2) F(1,4,7)] by blast
  obtain st2 where 2: "parseSetSessionToken P (Some t) st1 = Inr st2" "at P a (Some i) (Some t) None store ?F2 st2"
    using parseSetSessionToken_keeps [OF P 1(2) ne, of t] unfolding good_def by blast
  have t1: "held ?F1 store PARSE_SESSION_TOKEN (Some t)" using F(2) h(3) by (simp add: held_other)
  let ?temp2 = "t @ NUL # drop (length t + 1) temp1"
  have l2: "load_temp P PARSE_SESSION_TOKEN temp1 st1 (\<lambda>v. parseSetSessionToken P (Some v)) = Inr (?temp2, st2)"
    using load_temp_short [OF 1(2) ne t1 1(1) F(5)] 2(1) by simp
  have p2: "held ?F2 store PARSE_LAST_PUSH_TIME p" using F(3) h(3) by (simp add: held_other)
  have len: "length ?temp2 = 40" using 1(1) F(5) by (simp add: short_def)
  show ?thesis
  proof (cases p)
    case None
    with load_temp_missing [OF 2(2) ne _ len, of PARSE_LAST_PUSH_TIME] p2 1(3) l2 2(2) show ?thesis
      by (auto simp: initialize_steps)
  next
    case (Some x)
    let ?st = "st2\<lparr>client := (client st2)\<lparr>lastPushTime := Some x\<rparr>\<rparr>"
    have "at P a (Some i) (Some t) p store ?F2 ?st" using 2(2) Some by (simp add: at_def)
    moreover have "parseInitializeWithServerURL P True temp (Some a) key url ([], w) = Inr (Some ?st)"
      using load_temp_short [OF 2(2) ne _ len, of PARSE_LAST_PUSH_TIME x] p2 F(6) 1(3) l2 Some P(3)
      by (simp add: initialize_steps strdup_def)
    ultimately show ?thesis by blast
  qed
qed

text \<open>A token that was set, and the files after it.\<close>

lemma token_on_disk:
  assumes "curl_leaves_files P" "answers_scan P" "\<And>n w. available P n w" "files_ok P"
    and h: "stable_home P h" "store = store_dir P h a" "length store + 14 < PATH_MAX"
    and st: "at P a (Some i) t0 p store F st" "held F store PARSE_INSTALLATION_ID (Some i)" "held F store PARSE_LAST_PUSH_TIME p"
  shows "\<exists>st1. parseSetSessionToken P (Some t) st = Inr st1 \<and> sessionToken (client st1) = Some t \<and>
    held (files_of P (world st1)) store PARSE_INSTALLATION_ID (Some i) \<and> held (files_of P (world st1)) store PARSE_SESSION_TOKEN (Some t) \<and>
    held (files_of P (world st1)) store PARSE_LAST_PUSH_TIME p"
proof -
  let ?F = "wrote F (key_file store PARSE_SESSION_TOKEN) t"
  obtain st1 where 1: "parseSetSessionToken P (Some t) st = Inr st1" "at P a (Some i) (Some t) p store ?F st1"
    using parseSetSessionToken_keeps [OF assms(1-4) st(1)] store_dir_not_empty [of P h a] h(2) unfolding good_def by blast
  moreover have "files_of P (world st1) = ?F" "sessionToken (client st1) = Some t" using 1(2) by (simp_all add: at_def)
  ultimately show ?thesis using st(2,3) h(3) by (auto simp: held_other held_wrote(1))
qed

section \<open>Correctness\<close>

text \<open>A disk for examples: every request is answered with the same pieces.\<close>

definition demo_disk :: "curl_event list \<Rightarrow> (string \<Rightarrow> char list option) unix_platform" where
  "demo_disk es = \<lparr>getenv_HOME = (\<lambda>w. Some ''/h''), pw_dir = (\<lambda>w. ''/h''), package_name = None, mkdir = (\<lambda>d w. (0, w)), chmod = (\<lambda>d w. w),
     read_file = (\<lambda>n k w. map_option (take k) (w n)), write_file = (\<lambda>n bs w. w(n \<mapsto> bs)), remove_file = (\<lambda>n w. w(n := None)),
     list_dir = (\<lambda>d w. None), lstat_dir = (\<lambda>d w. None), uname = (\<lambda>w. None), available = (\<lambda>n w. True),
     easy_init = (\<lambda>w. (Some 1, w)), easy_setopt = (\<lambda>h x w. (0, w)), easy_perform = (\<lambda>h w. ((es, 0), w)), easy_cleanup = (\<lambda>h w. w),
     easy_send = (\<lambda>h s w. w), easy_recv = (\<lambda>h n w. (Again, w)), lastsocket = (\<lambda>h w. (0, 5)), select_socket = (\<lambda>s w. ((0, False), w)), secondsSinceBoot = (\<lambda>w. 0),
     uuid_unparse = (\<lambda>w. (''0f'', w)), sdk_version = ''1.0''\<rparr>"

definition demo_store :: string where
  "demo_store = ''/h/.parse-embedded-local-store/app/''"

definition demo_disk_state :: "(string \<Rightarrow> char list option) unix_state" where
  "demo_disk_state = \<lparr>client = demo_unix_client, local_store = demo_store,
     world = [key_file demo_store PARSE_INSTALLATION_ID \<mapsto> ''0f'' @ [NUL]], effects = []\<rparr>"

lemma demo_store_dir: "demo_store = store_dir (demo_disk es) ''/h'' ''app''" "length demo_store + 14 < PATH_MAX"
  by (simp_all add: demo_store_def store_dir_def demo_disk_def append_path_def PATH_MAX_def)

lemma demo_disk_laws:
  assumes "\<forall>code s. Data code s \<in> set es \<longrightarrow> answer_scans s"
  shows "curl_leaves_files (demo_disk es)" "answers_scan (demo_disk es)" "\<And>n w. available (demo_disk es) n w"
    "files_ok (demo_disk es)" "stable_home (demo_disk es) ''/h''"
  using assms by (simp_all add: curl_leaves_files_def answers_scan_def files_ok_def stable_home_def files_of_def demo_disk_def PATH_MAX_def)

lemma demo_disk_at:
  "at (demo_disk es) ''app'' (Some ''0f'') None None demo_store (files_of (demo_disk es) (world demo_disk_state)) demo_disk_state"
  "held (files_of (demo_disk es) (world demo_disk_state)) demo_store PARSE_INSTALLATION_ID (Some ''0f'')"
  "held (files_of (demo_disk es) (world demo_disk_state)) demo_store PARSE_LAST_PUSH_TIME None"
  using key_files_distinct [OF demo_store_dir(2)]
  by (simp_all add: at_def demo_disk_state_def demo_unix_client_def held_def files_of_def demo_disk_def del: take_append)

text \<open>
  C14. A session of the Unix SDK survives a restart: a token of at most 39 characters that \<open>parseSetSessionToken\<close> took,
  on a client whose installation id is in its file, is the session token of the client that the
  initialization of the next process creates for the same application, whatever the array on its stack held, beside the
  installation id and the time of the last push, as long as the file system keeps the files and the answers can be scanned.
\<close>

theorem unix_session_survives:
  assumes "curl_leaves_files P" "answers_scan P" "\<And>n w. available P n w" "files_ok P"
    and h: "stable_home P h" "store = store_dir P h a" "length store + 14 < PATH_MAX"
    and st: "at P a (Some i) t0 p store F st" "held F store PARSE_INSTALLATION_ID (Some i)" "held F store PARSE_LAST_PUSH_TIME p"
    and ids: "short i" "short t" "pred_option short p" "length temp = 40"
  shows "\<exists>st1 st2. parseSetSessionToken P (Some t) st = Inr st1 \<and> parseGetSessionToken st1 = Some t \<and>
    parseInitializeWithServerURL P True temp (Some a) key url ([], world st1) = Inr (Some st2) \<and>
    parseGetSessionToken st2 = Some t \<and> parseGetInstallationId st2 = Some i \<and> lastPushTime (client st2) = p"
proof -
  obtain st1 where 1: "parseSetSessionToken P (Some t) st = Inr st1" "sessionToken (client st1) = Some t"
    and f: "held (files_of P (world st1)) store PARSE_INSTALLATION_ID (Some i)" "held (files_of P (world st1)) store PARSE_SESSION_TOKEN (Some t)"
    "held (files_of P (world st1)) store PARSE_LAST_PUSH_TIME p"
    using token_on_disk [OF assms(1-10), of t] by blast
  obtain st2 F' where "parseInitializeWithServerURL P True temp (Some a) key url ([], world st1) = Inr (Some st2)"
    "at P a (Some i) (Some t) p store F' st2"
    using initialize_session [OF assms(1-4) h f ids] by blast
  with 1 show ?thesis by (auto simp: at_def parseGetSessionToken_def parseGetInstallationId_def)
qed

theorem unix_session_survives_witness:
  "\<exists>st1 st2. parseSetSessionToken (demo_disk [Data 200 ''{}'']) (Some ''r:1'') demo_disk_state = Inr st1 \<and> parseGetSessionToken st1 = Some ''r:1'' \<and>
    parseInitializeWithServerURL (demo_disk [Data 200 ''{}'']) True (replicate 40 CHR ''x'') (Some ''app'') None None ([], world st1) = Inr (Some st2) \<and>
    parseGetSessionToken st2 = Some ''r:1'' \<and> parseGetInstallationId st2 = Some ''0f'' \<and> lastPushTime (client st2) = None"
proof -
  have es: "\<forall>code s. Data code s \<in> set [Data 200 ''{}''] \<longrightarrow> answer_scans s"
    by (simp add: closed_answer_scans closed_text_def)
  show ?thesis
    by (rule unix_session_survives [OF demo_disk_laws [OF es] demo_store_dir demo_disk_at]) (simp_all add: short_def)
qed

text \<open>
  C31. A session token of 40 characters (the length that \<^verbatim>\<open>parse.h\<close> gives) or more is stored, and used until the process
  ends; the initialization of the next process then reads outside of the array \<open>temp\<close>, into which the first 40
  bytes of the file were read without a terminator.
\<close>

theorem long_token_overrun:
  assumes "curl_leaves_files P" "answers_scan P" "\<And>n w. available P n w" "files_ok P"
    and h: "stable_home P h" "store = store_dir P h a" "length store + 14 < PATH_MAX"
    and st: "at P a (Some i) t0 p store F st" "held F store PARSE_INSTALLATION_ID (Some i)" "held F store PARSE_LAST_PUSH_TIME p"
    and ids: "short i" "NUL \<notin> set t" "40 \<le> length t" "length temp = 40"
  shows "\<exists>st1. parseSetSessionToken P (Some t) st = Inr st1 \<and> parseGetSessionToken st1 = Some t \<and>
    parseInitializeWithServerURL P True temp (Some a) key url ([], world st1) = Inl OutOfBounds"
proof -
  obtain st1 where 1: "parseSetSessionToken P (Some t) st = Inr st1" "sessionToken (client st1) = Some t"
    and f: "held (files_of P (world st1)) store PARSE_INSTALLATION_ID (Some i)" "held (files_of P (world st1)) store PARSE_SESSION_TOKEN (Some t)"
    using token_on_disk [OF assms(1-10), of t] by blast
  obtain temp1 st2 where 2: "length temp1 = 40"
    "at P a (Some i) None None store (wrote (files_of P (world st1)) (key_file store PARSE_INSTALLATION_ID) i) st2"
    "load_temp P PARSE_INSTALLATION_ID temp (starting_client P a key url (world st1)) (\<lambda>v. parseSetInstallationId P (Some v)) = Inr (temp1, st2)"
    using initialize_installation [OF assms(1-4) h(1,2) f(1) ids(1,4)] by blast
  have "held (wrote (files_of P (world st1)) (key_file store PARSE_INSTALLATION_ID) i) store PARSE_SESSION_TOKEN (Some t)"
    using f(2) h(3) by (simp add: held_other)
  from load_temp_long [OF 2(2) _ this 2(1) ids(2,3)] 1 2(3) store_dir_not_empty [of P h a] h(2)
  show ?thesis by (auto simp: initialize_steps parseGetSessionToken_def)
qed

theorem long_token_overrun_witness:
  "\<exists>st1. parseSetSessionToken (demo_disk []) (Some (replicate 40 CHR ''t'')) demo_disk_state = Inr st1 \<and>
    parseGetSessionToken st1 = Some (replicate 40 CHR ''t'') \<and>
    parseInitializeWithServerURL (demo_disk []) True (replicate 40 NUL) (Some ''app'') None None ([], world st1) = Inl OutOfBounds"
proof -
  have es: "\<forall>code s. Data code s \<in> set [] \<longrightarrow> answer_scans s" by simp
  show ?thesis
    by (rule long_token_overrun [OF demo_disk_laws [OF es] demo_store_dir demo_disk_at]) (simp_all add: short_def)
qed

end
