(* ===== verification/Unix_Push.thy ===== *)
theory Unix_Push
  imports Unix_Session Json_Safe
begin

text \<open>
  \<^verbatim>\<open>unix/src/parse.c\<close>, the push service: the handshake, the buffer of the process into which the connection is
  read, the delivery of messages, the heartbeat and the loop. A reading loop that never returns has the value \<open>None\<close>.
\<close>

section \<open>Definitions\<close>

definition PARSE_HEARTBIT_INTERVAL_SECONDS :: "64 word" where
  "PARSE_HEARTBIT_INTERVAL_SECONDS = 14 * 60"

definition ECONNRESET :: int where "ECONNRESET = 104"
definition CURLE_UNSUPPORTED_PROTOCOL :: int where "CURLE_UNSUPPORTED_PROTOCOL = 1"

text \<open>The size of \<open>parse_push_message_buffer\<close>, and the state of a process with one client.\<close>

definition PUSH_BUFFER_SIZE :: nat where
  "PUSH_BUFFER_SIZE = 2048"

record 'w push_process =
  parse_client :: "'w unix_state"
  parse_push_message_buffer :: "char list"
  parse_push_message_size :: int

definition parseSetPushCallback :: "bool \<Rightarrow> 'w unix_state \<Rightarrow> 'w unix_state" where
  "parseSetPushCallback cb st = st\<lparr>client := (client st)\<lparr>pushCallback := cb\<rparr>\<rparr>"

text \<open>The text that \<open>snprintf\<close> leaves in an array of 256 bytes.\<close>

definition handshake :: "string \<Rightarrow> string \<Rightarrow> string option \<Rightarrow> string" where
  "handshake i a p =
     (let q = [CHR 0x22] in
      take (256 - 1)
        (''{'' @ q @ ''installation_id'' @ q @ '':'' @ q @ i @ q @ '', '' @ q @ ''oauth_key'' @ q @ '':'' @ q @ a @ q @ '', '' @
         q @ ''v'' @ q @ '':'' @ q @ ''e1.0.0'' @ q @ '', '' @ q @ ''last'' @ q @ '':'' @
         (case p of Some t \<Rightarrow> q @ t @ q | None \<Rightarrow> ''null'') @ ''}'' @ [CHR 0x0A]))"

definition HEARTBEAT :: string where
  "HEARTBEAT = ''{}'' @ [CHR 0x0A]"

definition parseStartPushService :: "'w unix_platform \<Rightarrow> 'w unix_state \<Rightarrow> mem_error + (int \<times> 'w unix_state)" where
  "parseStartPushService P st =
     (if pushCurlHandle (client st) \<noteq> None then Inr (0, st)
      else bindE (parseCreateInstallationIdIfNeeded P st) (\<lambda>st.
        case easy_init P (world st) of
          (None, w) \<Rightarrow> Inr (CURLE_FAILED_INIT, st\<lparr>world := w\<rparr>)
        | (Some h, w) \<Rightarrow>
            let st = log (Opened h) st in
            (case set_options P h [ConnectOnly, UseSsl, Url ''https://push.parse.com''] w of (result, w) \<Rightarrow>
               if result \<noteq> CURLE_OK then Inr (result, st\<lparr>world := w\<rparr>)
               else (case easy_perform P h w of ((_, result), w) \<Rightarrow>
                 if result \<noteq> CURLE_OK then Inr (result, st\<lparr>world := w\<rparr>)
                 else
                   (case (installationId (client st), applicationId (client st)) of
                      (Some i, Some a) \<Rightarrow>
                        let w = easy_send P h (handshake i a (lastPushTime (client st))) w;
                            w = easy_send P h HEARTBEAT w in
                        Inr (0, st\<lparr>world := w,
                          client := (client st)\<lparr>pushCurlHandle := Some h, lastHearbeat := ucast (secondsSinceBoot P w)\<rparr>\<rparr>)
                    | _ \<Rightarrow> Inl NullPointer)))))"

definition parseStopPushService :: "'w unix_platform \<Rightarrow> 'w unix_state \<Rightarrow> 'w unix_state" where
  "parseStopPushService P st =
     (case pushCurlHandle (client st) of
        None \<Rightarrow> st
      | Some h \<Rightarrow> (log (Cleaned h) st)\<lparr>world := easy_cleanup P h (world st), client := (client st)\<lparr>pushCurlHandle := None\<rparr>\<rparr>)"

definition parseGetPushSocket :: "'w unix_platform \<Rightarrow> 'w unix_state \<Rightarrow> int" where
  "parseGetPushSocket P st =
     (case pushCurlHandle (client st) of
        None \<Rightarrow> -2
      | Some h \<Rightarrow> (case lastsocket P h (world st) of (result, socket) \<Rightarrow>
          if result \<noteq> CURLE_OK \<and> result \<noteq> CURLE_UNSUPPORTED_PROTOCOL then -3 else socket))"

definition set_world :: "'w \<Rightarrow> 'w push_process \<Rightarrow> 'w push_process" where
  "set_world w st = st\<lparr>parse_client := (parse_client st)\<lparr>world := w\<rparr>\<rparr>"

text \<open>Bytes that arrived are behind the data; the result is the message pointer and the length of \<open>getPushJson\<close>.\<close>

definition arrived :: "string \<Rightarrow> 'w push_process \<Rightarrow> mem_error + ((nat option \<times> int) \<times> 'w push_process)" where
  "arrived s st =
     bindE (poke (parse_push_message_buffer st) (nat (parse_push_message_size st)) s) (\<lambda>buf.
       let sz = parse_push_message_size st + int (length s) in
       bindE (getPushJson buf (nat sz)) (\<lambda>(message, start, length).
         Inr ((message, length), st\<lparr>parse_push_message_buffer := buf, parse_push_message_size := sz\<rparr>)))"

text \<open>
  The reading loop; the condition compares an \<open>int\<close> with a \<open>size_t\<close>, for which a negative number is a large
  one. The result is \<open>None\<close> after an error of the connection.
\<close>

partial_function (option) push_read ::
  "'w unix_platform \<Rightarrow> nat \<Rightarrow> 'w push_process \<Rightarrow> (mem_error + ((nat option \<times> int) option \<times> 'w push_process)) option" where
  "push_read N h st =
     (if 0 \<le> parse_push_message_size st \<and> parse_push_message_size st < int PUSH_BUFFER_SIZE then
        (case easy_recv N h (nat (int PUSH_BUFFER_SIZE - parse_push_message_size st)) (world (parse_client st)) of
           (Received s, w) \<Rightarrow>
             (case arrived s (set_world w st) of
                Inl e \<Rightarrow> Some (Inl e)
              | Inr (r, st') \<Rightarrow> if snd r = -1 then push_read N h st' else Some (Inr (Some r, st')))
         | (Again, w) \<Rightarrow> Some (Inr (Some (None, -1), set_world w st))
         | (Failed, w) \<Rightarrow> Some (Inr (None, set_world w st)))
      else Some (Inr (Some (None, -1), st)))"

definition call_push :: "int \<Rightarrow> string option \<Rightarrow> 'w unix_state \<Rightarrow> 'w unix_state" where
  "call_push error body st = (if pushCallback (client st) then log (Pushed error body) st else st)"

text \<open>The time of a push, in an array of 32 bytes, becomes the last push time and is stored.\<close>

definition store_time :: "'w unix_platform \<Rightarrow> char list \<Rightarrow> 'w unix_state \<Rightarrow> mem_error + 'w unix_state" where
  "store_time P m st =
     bindE (simpleJsonProcessor (Some m) (Some ''time'') True 32) (\<lambda>(found, val).
     bindE (poke (replicate 32 NUL) 0 val) (\<lambda>time.
       if found then
         bindE (c_text time) (\<lambda>t.
           on_store (parseOsStoreKey P (applicationId (client st)) PARSE_LAST_PUSH_TIME t)
             (st\<lparr>client := (client st)\<lparr>lastPushTime := strdup P t (world st)\<rparr>\<rparr>))
       else Inr st))"

definition push_message :: "'w unix_platform \<Rightarrow> nat \<Rightarrow> nat \<Rightarrow> 'w push_process \<Rightarrow> mem_error + (int \<times> 'w push_process)" where
  "push_message P message len st =
     bindE (poke (parse_push_message_buffer st) (message + len) [NUL]) (\<lambda>buf.
     bindE (store_time P (drop message buf) (parse_client st)) (\<lambda>c.
     bindE (strncmp_eq buf message ''{}'') (\<lambda>heartbeat.
     bindE (c_text (drop message buf)) (\<lambda>text.
       let c = (if heartbeat then c else call_push 0 (Some text) c);
           sz = parse_push_message_size st - (int len + 1);
           st = st\<lparr>parse_client := c, parse_push_message_buffer := buf, parse_push_message_size := sz\<rparr> in
       if sz > 0 then
         bindE (peek buf (len + 1) (nat sz)) (\<lambda>rest.
         bindE (poke buf 0 rest) (\<lambda>buf'. Inr (1, st\<lparr>parse_push_message_buffer := buf'\<rparr>)))
       else Inr (0, st)))))"

definition send_heartbeat :: "'w unix_platform \<Rightarrow> nat \<Rightarrow> 'w unix_state \<Rightarrow> 'w unix_state" where
  "send_heartbeat P h st =
     (let seconds = ucast (secondsSinceBoot P (world st)) in
      if seconds > lastHearbeat (client st) + PARSE_HEARTBIT_INTERVAL_SECONDS then
        st\<lparr>client := (client st)\<lparr>lastHearbeat := seconds\<rparr>, world := easy_send P h HEARTBEAT (world st)\<rparr>
      else st)"

definition parseProcessNextPushNotification ::
  "'w unix_platform \<Rightarrow> 'w push_process \<Rightarrow> (mem_error + (int \<times> 'w push_process)) option" where
  "parseProcessNextPushNotification P st =
     (case pushCurlHandle (client (parse_client st)) of
        None \<Rightarrow> Some (Inr (0, st))
      | Some h \<Rightarrow> Option.bind (push_read P h st) (\<lambda>r. Some (bindE r (\<lambda>(m, st).
          case m of
            None \<Rightarrow> Inr (0, st\<lparr>parse_client := call_push ECONNRESET None (parse_client st)\<rparr>)
          | Some (message, len) \<Rightarrow>
              if len = -1 \<and> parse_push_message_size st = int PUSH_BUFFER_SIZE then Inr (0, st\<lparr>parse_push_message_size := 0\<rparr>)
              else if len > 0 \<and> message \<noteq> None then push_message P (the message) (nat len) st
              else Inr (0, st\<lparr>parse_client := send_heartbeat P h (parse_client st)\<rparr>)))))"

text \<open>
  The first rounds of \<open>parseRunPushLoop\<close>. \<open>FD_SET\<close> is defined for the descriptors from 0 to 1023; any other one is
  outside of the set.
\<close>

definition FD_SETSIZE :: int where "FD_SETSIZE = 1024"

definition wait_socket :: "'w unix_platform \<Rightarrow> 'w unix_state \<Rightarrow> mem_error + 'w unix_state" where
  "wait_socket P st =
     (let socket = parseGetPushSocket P st in
      if \<not> (0 \<le> socket \<and> socket < FD_SETSIZE) then Inl OutOfBounds
      else (case select_socket P socket (world st) of ((n, problem), w) \<Rightarrow>
        let st = st\<lparr>world := w\<rparr> in
        Inr (if n > 0 \<and> problem then call_push ECONNRESET None (parseStopPushService P st) else st)))"

fun parseRunPushLoop :: "nat \<Rightarrow> 'w unix_platform \<Rightarrow> 'w push_process \<Rightarrow> (mem_error + 'w push_process) option" where
  "parseRunPushLoop 0 P st = Some (Inr st)"
| "parseRunPushLoop (Suc n) P st =
     (case wait_socket P (parse_client st) of
        Inl e \<Rightarrow> Some (Inl e)
      | Inr c \<Rightarrow>
          (case parseProcessNextPushNotification P (st\<lparr>parse_client := c\<rparr>) of
             None \<Rightarrow> None
           | Some (Inl e) \<Rightarrow> Some (Inl e)
           | Some (Inr (_, st')) \<Rightarrow> parseRunPushLoop n P st'))"

section \<open>A message\<close>

definition delivered :: "bool \<Rightarrow> string \<Rightarrow> unix_effect list" where
  "delivered cb msg = (if prefix ''{}'' msg \<or> \<not> cb then [] else [Pushed 0 (Some msg)])"

text \<open>What a call leaves alone in the client.\<close>

definition same_service :: "'w unix_state \<Rightarrow> 'w unix_state \<Rightarrow> bool" where
  "same_service st st' \<longleftrightarrow> local_store st' = local_store st \<and> pushCallback (client st') = pushCallback (client st) \<and>
     pushCurlHandle (client st') = pushCurlHandle (client st)"

lemma store_time_ok:
  assumes msg: "NUL \<notin> set msg" "closed_text msg" and store: "local_store st \<noteq> []"
  shows "\<exists>c. store_time P (msg @ NUL # rest) st = Inr c \<and> effects c = effects st \<and> same_service st c"
proof -
  let ?m = "msg @ NUL # rest"
  have h: "holds ?m 0 msg" using msg(1) by (simp add: holds_def)
  obtain found val where p: "simpleJsonProcessor (Some ?m) (Some ''time'') True 32 = Inr (found, val)"
    using processor_total [OF h msg(2), of "''time''"] by fastforce
  then have "length val \<le> 32" using processor_fits [OF p] by (auto simp: fits_def)
  then have k: "poke (replicate 32 NUL) 0 val = Inr (val @ drop (length val) (replicate 32 NUL))" by (simp add: poke_def)
  show ?thesis
  proof (cases found)
    case False
    with p k show ?thesis by (simp add: store_time_def same_service_def)
  next
    case True
    with processor_true [of _ _ 32 val] p have "NUL \<in> set val" by (metis last_in_set)
    then obtain us vs where v: "val = us @ NUL # vs" "NUL \<notin> set us" by (meson split_list_first)
    then have "c_text (val @ drop (length val) (replicate 32 NUL)) = Inr us"
      using c_text_string [of us "vs @ drop (length val) (replicate 32 NUL)"] by simp
    with True p k store show ?thesis by (simp add: store_time_def on_store_def store_key same_service_def)
  qed
qed

lemma unix_push_message_ok:
  assumes buf: "length (parse_push_message_buffer st) = PUSH_BUFFER_SIZE" and store: "local_store (parse_client st) \<noteq> []"
    and msg: "msg = take n (drop s (parse_push_message_buffer st))" "NUL \<notin> set msg" "last msg = CHR ''}''"
    and used: "s + n < PUSH_BUFFER_SIZE" "int (s + n) \<le> parse_push_message_size st" "parse_push_message_size st \<le> int PUSH_BUFFER_SIZE"
    and u: "u = parse_push_message_size st - (int n + 1)"
  shows "\<exists>c buf'. same_service (parse_client st) c \<and> length buf' = PUSH_BUFFER_SIZE \<and>
    effects c = effects (parse_client st) @ delivered (pushCallback (client (parse_client st))) msg \<and>
    push_message P s n st = Inr (if u > 0 then 1 else 0,
      st\<lparr>parse_client := c, parse_push_message_buffer := buf', parse_push_message_size := u\<rparr>) \<and>
    (0 < u \<longrightarrow> take (nat u) buf' = take (nat u) (drop (Suc n) ((parse_push_message_buffer st)[s + n := NUL])))"
proof -
  let ?m = "parse_push_message_buffer st"
  obtain buf1 where b1: "poke ?m (s + n) [NUL] = Inr buf1" using used(1) buf(1) by (simp add: poke_def)
  then have b1': "buf1 = ?m[s + n := NUL]" "length buf1 = PUSH_BUFFER_SIZE"
    using buf(1) by (auto simp: poke_def upd_conv_take_nth_drop split: if_splits)
  have d: "drop s buf1 = msg @ NUL # drop (Suc (s + n)) ?m" unfolding msg(1) by (rule poke_nul_drop [OF b1])
  have "holds buf1 s msg" unfolding holds_def
    using d msg(2) b1'(2) used(1) by (metis append_take_drop_id length_take min.absorb2 add_leD1 less_imp_le)
  then have hb: "strncmp_eq buf1 s ''{}'' = Inr (prefix ''{}'' msg)" by (rule strncmp_eq_holds) simp
  have cl: "closed_text msg" using msg(3) by (simp add: closed_text_def)
  obtain c where c: "store_time P (drop s buf1) (parse_client st) = Inr c" "effects c = effects (parse_client st)" "same_service (parse_client st) c"
    using store_time_ok [OF msg(2) cl store] unfolding d by blast
  have tx: "c_text (drop s buf1) = Inr msg" unfolding d by (rule c_text_string [OF msg(2)])
  define c' where "c' = (if prefix ''{}'' msg then c else call_push 0 (Some msg) c)"
  have c': "effects c' = effects (parse_client st) @ delivered (pushCallback (client (parse_client st))) msg" "same_service (parse_client st) c'"
    using c(2,3) by (simp_all add: c'_def call_push_def delivered_def same_service_def)
  have step: "push_message P s n st =
     (if u > 0 then bindE (peek buf1 (n + 1) (nat u)) (\<lambda>rest. bindE (poke buf1 0 rest) (\<lambda>buf'.
        Inr (1, st\<lparr>parse_client := c', parse_push_message_buffer := buf', parse_push_message_size := u\<rparr>)))
      else Inr (0, st\<lparr>parse_client := c', parse_push_message_buffer := buf1, parse_push_message_size := u\<rparr>))"
    using b1 c(1) hb tx u unfolding push_message_def c'_def by (cases st) (simp add: Let_def del: strncmp_eq.simps)
  show ?thesis
  proof (cases "u > 0")
    case True
    have le: "n + 1 + nat u \<le> length buf1" using u used(3) b1'(2) True by simp
    then have pk: "peek buf1 (n + 1) (nat u) = Inr (take (nat u) (drop (n + 1) buf1))"
      "length (take (nat u) (drop (n + 1) buf1)) = nat u" by (simp_all add: peek_def)
    obtain buf' where b2: "poke buf1 0 (take (nat u) (drop (n + 1) buf1)) = Inr buf'"
      using pk(2) b1'(2) le by (simp add: poke_def)
    then have "take (nat u) buf' = take (nat u) (drop (n + 1) buf1)" "length buf' = PUSH_BUFFER_SIZE"
      using pk(2) b1'(2) poke_length [OF b2] by (auto simp: poke_def split: if_splits)
    with c' step pk b2 True b1'(1) show ?thesis by (intro exI [of _ c'] exI [of _ buf']) simp
  next
    case False
    with c' step b1' show ?thesis by (intro exI [of _ c'] exI [of _ buf1]) simp
  qed
qed

section \<open>Staying within the buffer\<close>

text \<open>
  \<open>process_inv\<close> holds between two calls. While a call reads, the buffer may also be full (\<open>buffer_inv\<close>). What is assumed of
  the connection is what \<^verbatim>\<open>curl_easy_recv\<close> documents: it stores at most as many bytes as it is asked for.
\<close>

definition buffer_inv :: "'w push_process \<Rightarrow> bool" where
  "buffer_inv st \<longleftrightarrow> length (parse_push_message_buffer st) = PUSH_BUFFER_SIZE \<and> local_store (parse_client st) \<noteq> [] \<and>
     -1 \<le> parse_push_message_size st \<and> parse_push_message_size st \<le> int PUSH_BUFFER_SIZE"

definition process_inv :: "'w push_process \<Rightarrow> bool" where
  "process_inv st \<longleftrightarrow> buffer_inv st \<and> parse_push_message_size st < int PUSH_BUFFER_SIZE"

definition reads_at_most :: "'w unix_platform \<Rightarrow> bool" where
  "reads_at_most P \<longleftrightarrow> (\<forall>h n w s w'. easy_recv P h n w = (Received s, w') \<longrightarrow> length s \<le> n)"

lemma reads_at_mostD: "reads_at_most P \<Longrightarrow> easy_recv P h n w = (Received s, w') \<Longrightarrow> length s \<le> n"
  unfolding reads_at_most_def by blast

text \<open>
  The bytes that arrive have no terminator behind them, and the scans look at up to two bytes more. A call
  \<open>fills\<close> the buffer when one of its reads, after reads that brought no complete message, leaves less than two bytes of it free.
\<close>

inductive fills :: "'w unix_platform \<Rightarrow> nat \<Rightarrow> 'w push_process \<Rightarrow> bool" for P h where
  fills_now: "0 \<le> parse_push_message_size st \<Longrightarrow> parse_push_message_size st < int PUSH_BUFFER_SIZE \<Longrightarrow>
    easy_recv P h (nat (int PUSH_BUFFER_SIZE - parse_push_message_size st)) (world (parse_client st)) = (Received s, w) \<Longrightarrow>
    parse_push_message_size st + int (length s) + 2 > int PUSH_BUFFER_SIZE \<Longrightarrow> fills P h st"
| fills_later: "0 \<le> parse_push_message_size st \<Longrightarrow> parse_push_message_size st < int PUSH_BUFFER_SIZE \<Longrightarrow>
    easy_recv P h (nat (int PUSH_BUFFER_SIZE - parse_push_message_size st)) (world (parse_client st)) = (Received s, w) \<Longrightarrow>
    arrived s (set_world w st) = Inr (r, st') \<Longrightarrow> snd r = -1 \<Longrightarrow> fills P h st' \<Longrightarrow> fills P h st"

text \<open>A message that a read reports lies within the data, and has no terminator in it.\<close>

definition read_outcome :: "'w push_process \<Rightarrow> (nat option \<times> int) option \<times> 'w push_process \<Rightarrow> bool" where
  "read_outcome st r \<longleftrightarrow> (case r of (m, st') \<Rightarrow> buffer_inv st' \<and>
     same_service (parse_client st) (parse_client st') \<and> effects (parse_client st') = effects (parse_client st) \<and>
     (case m of None \<Rightarrow> parse_push_message_size st' < int PUSH_BUFFER_SIZE | Some (message, len) \<Rightarrow>
        len = -1 \<or> (\<exists>s n. message = Some s \<and> len = int n \<and> 0 < n \<and> int (s + n) \<le> parse_push_message_size st' \<and>
          no_nul (parse_push_message_buffer st') s (s + n) \<and> parse_push_message_buffer st' ! (s + n - 1) = CHR ''}'')))"

text \<open>A message that was found leaves room for its terminator.\<close>

definition room_after :: "(nat option \<times> int) option \<times> 'w push_process \<Rightarrow> bool" where
  "room_after r \<longleftrightarrow> (case r of (Some (_, len), st') \<Rightarrow> len = -1 \<or> parse_push_message_size st' + 2 \<le> int PUSH_BUFFER_SIZE | _ \<Rightarrow> True)"

lemma set_world_simps [simp]:
  "parse_push_message_buffer (set_world w st) = parse_push_message_buffer st"
  "parse_push_message_size (set_world w st) = parse_push_message_size st"
  "local_store (parse_client (set_world w st)) = local_store (parse_client st)"
  "client (parse_client (set_world w st)) = client (parse_client st)"
  "effects (parse_client (set_world w st)) = effects (parse_client st)"
  "world (parse_client (set_world w st)) = w"
  by (simp_all add: set_world_def)

lemma same_set_world [simp]: "same_service (parse_client st) (parse_client (set_world w st))"
  by (simp add: same_service_def)

lemma buffer_inv_set_world [simp]: "buffer_inv (set_world w st) = buffer_inv st"
  by (simp add: buffer_inv_def)

lemma arrived_ok:
  assumes inv: "buffer_inv st" "0 \<le> parse_push_message_size st" and fit: "parse_push_message_size st + int (length s) \<le> int PUSH_BUFFER_SIZE"
  shows "(arrived s st = Inl OutOfBounds \<and> parse_push_message_size st + int (length s) + 2 > int PUSH_BUFFER_SIZE) \<or>
    (\<exists>r st'. arrived s st = Inr (r, st') \<and> parse_client st' = parse_client st \<and> read_outcome st (Some r, st') \<and>
      parse_push_message_size st' = parse_push_message_size st + int (length s))"
proof -
  obtain k where k: "parse_push_message_size st = int k" "k + length s \<le> PUSH_BUFFER_SIZE"
    using inv(2) fit by (metis int_nat_eq of_nat_add of_nat_le_iff)
  then obtain buf where buf: "poke (parse_push_message_buffer st) k s = Inr buf"
    using poke_total [of k s "parse_push_message_buffer st"] inv(1) unfolding buffer_inv_def by auto
  then have len: "length buf = PUSH_BUFFER_SIZE" using poke_length [OF buf] inv(1) by (simp add: buffer_inv_def)
  let ?st = "st\<lparr>parse_push_message_buffer := buf, parse_push_message_size := int (k + length s)\<rparr>"
  show ?thesis
  proof (cases "getPushJson buf (k + length s)")
    case (Inl e)
    then have "e = OutOfBounds" by (rule getPushJson_error)
    moreover have "PUSH_BUFFER_SIZE < k + length s + 2"
      using getPushJson_room [of "k + length s" buf] len Inl by (cases "Suc (k + length s) < length buf") auto
    ultimately show ?thesis using buf Inl k(1) by (simp add: arrived_def Let_def nat_int_add)
  next
    case (Inr g')
    then obtain message start l where g: "getPushJson buf (k + length s) = Inr (message, start, l)" by (cases g') auto
    have "buffer_inv ?st" using inv k len by (simp add: buffer_inv_def)
    moreover have "l = -1 \<or> (\<exists>s' n. message = Some s' \<and> l = int n \<and> 0 < n \<and> int (s' + n) \<le> int (k + length s) \<and>
        no_nul buf s' (s' + n) \<and> buf ! (s' + n - 1) = CHR ''}'')"
    proof (cases "l = -1")
      case False
      with getPushJson_len [OF g] have "l > 0" by simp
      from getPushJson_span [OF g this] show ?thesis by (metis of_nat_le_iff)
    qed simp
    moreover have "arrived s st = Inr ((message, l), ?st)"
      using buf g k(1) by (simp add: arrived_def Let_def nat_int_add)
    ultimately show ?thesis using k(1)
      by (intro disjI2 exI [of _ "(message, l)"] exI [of _ ?st]) (simp add: read_outcome_def same_service_def)
  qed
qed

lemma read_outcome_trans:
  "read_outcome st1 r \<Longrightarrow> same_service (parse_client st) (parse_client st1) \<Longrightarrow> effects (parse_client st1) = effects (parse_client st) \<Longrightarrow>
   read_outcome st r"
  by (auto simp: read_outcome_def same_service_def)

lemma read_outcome_world: "read_outcome (set_world w st) r = read_outcome st r"
  by (simp add: read_outcome_def same_service_def)

lemma unix_push_read_safe:
  assumes "reads_at_most P" "buffer_inv st" and ret: "push_read P h st = Some q"
  shows "(q = Inl OutOfBounds \<and> fills P h st) \<or> (\<exists>r. q = Inr r \<and> read_outcome st r \<and> (fills P h st \<or> room_after r))"
proof -
  let ?Q = "\<lambda>P h st q. reads_at_most P \<longrightarrow> buffer_inv st \<longrightarrow>
    (q = Inl OutOfBounds \<and> fills P h st) \<or> (\<exists>r. q = Inr r \<and> read_outcome st r \<and> (fills P h st \<or> room_after r))"
  have "?Q P h st q"
  proof (rule push_read.raw_induct [where P = ?Q, OF _ ret])
    fix f P h st q
    assume IH: "\<And>P h st q. f P h st = Some q \<Longrightarrow> ?Q P h st q"
      and eq: "(if 0 \<le> parse_push_message_size st \<and> parse_push_message_size st < int PUSH_BUFFER_SIZE then
        (case easy_recv P h (nat (int PUSH_BUFFER_SIZE - parse_push_message_size st)) (world (parse_client st)) of
           (Received s, w) \<Rightarrow>
             (case arrived s (set_world w st) of
                Inl e \<Rightarrow> Some (Inl e)
              | Inr (r, st') \<Rightarrow> if snd r = -1 then f P h st' else Some (Inr (Some r, st')))
         | (Again, w) \<Rightarrow> Some (Inr (Some (None, -1), set_world w st))
         | (Failed, w) \<Rightarrow> Some (Inr (None, set_world w st)))
      else Some (Inr (Some (None, -1), st))) = Some q"
    show "?Q P h st q"
    proof (intro impI)
      assume P: "reads_at_most P" and inv: "buffer_inv st"
      show "(q = Inl OutOfBounds \<and> fills P h st) \<or> (\<exists>r. q = Inr r \<and> read_outcome st r \<and> (fills P h st \<or> room_after r))"
      proof (cases "0 \<le> parse_push_message_size st \<and> parse_push_message_size st < int PUSH_BUFFER_SIZE")
        case False
        with eq inv show ?thesis by (auto simp: read_outcome_def same_service_def room_after_def)
      next
        case True
        obtain x w where x: "easy_recv P h (nat (int PUSH_BUFFER_SIZE - parse_push_message_size st)) (world (parse_client st)) = (x, w)"
          by fastforce
        show ?thesis
        proof (cases x)
          case (Received s)
          note recv = x [unfolded Received]
          have fit: "parse_push_message_size st + int (length s) \<le> int PUSH_BUFFER_SIZE"
            using reads_at_mostD [OF P recv] True by linarith
          consider (bad) "arrived s (set_world w st) = Inl OutOfBounds" "parse_push_message_size st + int (length s) + 2 > int PUSH_BUFFER_SIZE"
            | (good) r st' where "arrived s (set_world w st) = Inr (r, st')" "parse_client st' = parse_client (set_world w st)"
                "read_outcome (set_world w st) (Some r, st')" "parse_push_message_size st' = parse_push_message_size st + int (length s)"
            using arrived_ok [of "set_world w st" s] inv True fit by auto
          then show ?thesis
          proof cases
            case bad
            with eq recv True fills_now [OF _ _ recv] show ?thesis by simp
          next
            case good
            show ?thesis
            proof (cases "snd r = -1")
              case minus: True
              with eq recv good(1) True have "f P h st' = Some q" by simp
              moreover have "buffer_inv st'" using good(3) by (simp add: read_outcome_def)
              moreover have "fills P h st' \<Longrightarrow> fills P h st" using fills_later [OF _ _ recv good(1) minus] True by blast
              moreover have "read_outcome st' r' \<Longrightarrow> read_outcome st r'" for r'
                using read_outcome_trans [of st' r' st] good(2) by simp
              ultimately show ?thesis using IH [of P h st' q] P by blast
            next
              case False
              have "fills P h st \<or> room_after (Some r, st')"
                using fills_now [OF _ _ recv] True good(4) by (cases r) (force simp: room_after_def)
              moreover have "q = Inr (Some r, st')" using False eq recv good(1) True by simp
              moreover have "read_outcome st (Some r, st')" using good(3) by (simp add: read_outcome_world)
              ultimately show ?thesis by blast
            qed
          qed
        qed (use eq x True inv in \<open>auto simp: read_outcome_def room_after_def\<close>)
      qed
    qed
  qed
  with assms(1,2) show ?thesis by simp
qed

lemma message_safe:
  assumes out: "read_outcome st (Some (Some s, int n), st1)" "0 < n" and room: "s + n < PUSH_BUFFER_SIZE"
  shows "\<exists>r st'. push_message P s n st1 = Inr (r, st') \<and> process_inv st'"
proof -
  have m: "int (s + n) \<le> parse_push_message_size st1" "no_nul (parse_push_message_buffer st1) s (s + n)"
    "parse_push_message_buffer st1 ! (s + n - 1) = CHR ''}''" and inv: "buffer_inv st1"
    using out by (auto simp: read_outcome_def)
  have msg: "NUL \<notin> set (take n (drop s (parse_push_message_buffer st1)))" "last (take n (drop s (parse_push_message_buffer st1))) = CHR ''}''"
  proof -
    show "NUL \<notin> set (take n (drop s (parse_push_message_buffer st1)))" using m(2) by (simp add: no_nul_def)
    have "length (take n (drop s (parse_push_message_buffer st1))) = n" using m(2) by (auto simp: no_nul_def)
    with m(2,3) out(2) show "last (take n (drop s (parse_push_message_buffer st1))) = CHR ''}''"
      by (subst last_conv_nth) (auto simp: no_nul_def)
  qed
  have b: "length (parse_push_message_buffer st1) = PUSH_BUFFER_SIZE" "local_store (parse_client st1) \<noteq> []"
    "parse_push_message_size st1 \<le> int PUSH_BUFFER_SIZE"
    using inv unfolding buffer_inv_def by linarith+
  obtain c buf' where "same_service (parse_client st1) c" "length buf' = PUSH_BUFFER_SIZE"
    "push_message P s n st1 = Inr (if parse_push_message_size st1 - (int n + 1) > 0 then 1 else 0,
      st1\<lparr>parse_client := c, parse_push_message_buffer := buf', parse_push_message_size := parse_push_message_size st1 - (int n + 1)\<rparr>)"
    using unix_push_message_ok [where P = P, OF b(1,2) refl msg room m(1) b(3) refl] by blast
  with m(1) b(2,3) out(2) show ?thesis by (simp add: process_inv_def buffer_inv_def same_service_def)
qed

text \<open>One call waits for ever, keeps the invariant, or fills the buffer and then reads or writes outside of it.\<close>

lemma unix_process_safe:
  assumes P: "reads_at_most P" and inv: "process_inv st"
  shows "parseProcessNextPushNotification P st = None \<or>
    (\<exists>r st'. parseProcessNextPushNotification P st = Some (Inr (r, st')) \<and> process_inv st') \<or>
    (\<exists>h. pushCurlHandle (client (parse_client st)) = Some h \<and> fills P h st \<and> parseProcessNextPushNotification P st = Some (Inl OutOfBounds))"
proof (cases "pushCurlHandle (client (parse_client st))")
  case h: (Some h)
  have b: "buffer_inv st" using inv by (simp add: process_inv_def)
  show ?thesis
  proof (cases "push_read P h st")
    case (Some q)
    from unix_push_read_safe [OF P b Some] show ?thesis
    proof (rule disjE)
      assume "q = Inl OutOfBounds \<and> fills P h st"
      with h Some show ?thesis by (simp add: parseProcessNextPushNotification_def)
    next
      assume "\<exists>r. q = Inr r \<and> read_outcome st r \<and> (fills P h st \<or> room_after r)"
      then obtain r where r: "q = Inr r" "read_outcome st r" and full: "fills P h st \<or> room_after r" by blast
      obtain m st1 where q: "r = (m, st1)" by fastforce
      have inv1: "buffer_inv st1" using r q by (simp add: read_outcome_def)
      have eq: "parseProcessNextPushNotification P st = Some (case m of
          None \<Rightarrow> Inr (0, st1\<lparr>parse_client := call_push ECONNRESET None (parse_client st1)\<rparr>)
        | Some (message, len) \<Rightarrow>
            if len = -1 \<and> parse_push_message_size st1 = int PUSH_BUFFER_SIZE then Inr (0, st1\<lparr>parse_push_message_size := 0\<rparr>)
            else if len > 0 \<and> message \<noteq> None then push_message P (the message) (nat len) st1
            else Inr (0, st1\<lparr>parse_client := send_heartbeat P h (parse_client st1)\<rparr>))"
        using h Some r q by (simp add: parseProcessNextPushNotification_def)
      show ?thesis
      proof (cases m)
        case None
        with eq r(2) q show ?thesis by (simp add: read_outcome_def process_inv_def buffer_inv_def call_push_def)
      next
        case (Some y)
        obtain message len where y: "m = Some (message, len)" using Some by (cases y) auto
        show ?thesis
        proof (cases "len = -1")
          case True
          with eq y inv1 show ?thesis by (auto simp: process_inv_def buffer_inv_def send_heartbeat_def Let_def PUSH_BUFFER_SIZE_def)
        next
          case False
          with r(2) q y obtain s n where m: "message = Some s" "len = int n" "0 < n" "int (s + n) \<le> parse_push_message_size st1"
            by (auto simp: read_outcome_def)
          have eq': "parseProcessNextPushNotification P st = Some (push_message P s n st1)" using eq y m by simp
          show ?thesis
          proof (cases "s + n < PUSH_BUFFER_SIZE")
            case True
            with message_safe [of st s n st1 P] r(2) q y m eq' show ?thesis by auto
          next
            case far: False
            then have "push_message P s n st1 = Inl OutOfBounds"
              using inv1 by (simp add: push_message_def poke_def buffer_inv_def)
            moreover have "fills P h st" using full far m(4) q y \<open>len \<noteq> -1\<close> by (auto simp: room_after_def)
            ultimately show ?thesis using h eq' by simp
          qed
        qed
      qed
    qed
  qed (simp add: h parseProcessNextPushNotification_def)
qed (use inv in \<open>simp add: parseProcessNextPushNotification_def\<close>)

section \<open>Correctness\<close>

fun process_times :: "nat \<Rightarrow> 'w unix_platform \<Rightarrow> 'w push_process \<Rightarrow> (mem_error + 'w push_process) option" where
  "process_times 0 P st = Some (Inr st)"
| "process_times (Suc n) P st =
     (case parseProcessNextPushNotification P st of
        None \<Rightarrow> None
      | Some (Inl e) \<Rightarrow> Some (Inl e)
      | Some (Inr (_, st')) \<Rightarrow> process_times n P st')"

text \<open>A process for examples, whose connection brings one piece after the other.\<close>

definition demo_chunks :: "string list unix_platform" where
  "demo_chunks = \<lparr>getenv_HOME = (\<lambda>w. Some ''/h''), pw_dir = (\<lambda>w. ''/h''), package_name = None, mkdir = (\<lambda>d w. (0, w)), chmod = (\<lambda>d w. w),
     read_file = (\<lambda>n k w. None), write_file = (\<lambda>n bs w. w), remove_file = (\<lambda>n w. w), list_dir = (\<lambda>d w. None), lstat_dir = (\<lambda>d w. None), uname = (\<lambda>w. None), available = (\<lambda>n w. True),
     easy_init = (\<lambda>w. (Some 1, w)), easy_setopt = (\<lambda>h x w. (0, w)), easy_perform = (\<lambda>h w. (([], 0), w)), easy_cleanup = (\<lambda>h w. w),
     easy_send = (\<lambda>h s w. w), easy_recv = (\<lambda>h n w. case w of [] \<Rightarrow> (Again, []) | s # w' \<Rightarrow> (Received (take (n - 2) s), w')),
     lastsocket = (\<lambda>h w. (0, 5)), select_socket = (\<lambda>s w. ((0, False), w)), secondsSinceBoot = (\<lambda>w. 0),
     uuid_unparse = (\<lambda>w. (''0f'', w)), sdk_version = ''1.0''\<rparr>"

definition demo_process :: "'w \<Rightarrow> 'w push_process" where
  "demo_process w = \<lparr>parse_client = \<lparr>client = demo_unix_client\<lparr>pushCurlHandle := Some 1\<rparr>, local_store = ''/s/'', world = w, effects = []\<rparr>,
     parse_push_message_buffer = replicate 2048 NUL, parse_push_message_size = 0\<rparr>"

text \<open>
  C16. On a connection whose reads store at most as many bytes as they are asked for, every sequence of calls of
  the push service of the Unix SDK, whatever the bytes are, waits for ever, or returns in a state in which the buffer and
  the count are as they should be (a full buffer without a message was dropped), or leaves the buffer in one way only: in a call that
  starts in such a state and whose reads fill the buffer up to its last two bytes.
\<close>

theorem unix_push_safe:
  assumes "reads_at_most P" "process_inv st"
  shows "process_times n P st = None \<or>
    (\<exists>st'. process_times n P st = Some (Inr st') \<and> length (parse_push_message_buffer st') = PUSH_BUFFER_SIZE \<and>
      local_store (parse_client st') \<noteq> [] \<and> -1 \<le> parse_push_message_size st' \<and> parse_push_message_size st' < int PUSH_BUFFER_SIZE) \<or>
    (process_times n P st = Some (Inl OutOfBounds) \<and>
      (\<exists>k st' h. k < n \<and> process_times k P st = Some (Inr st') \<and> pushCurlHandle (client (parse_client st')) = Some h \<and> fills P h st'))"
  using assms(2)
proof (induction n arbitrary: st)
  case 0
  then show ?case by (simp add: process_inv_def buffer_inv_def)
next
  case (Suc n)
  show ?case using unix_process_safe [OF assms(1) Suc.prems]
  proof (elim disjE exE conjE)
    fix r st' assume returns: "parseProcessNextPushNotification P st = Some (Inr (r, st'))" "process_inv st'"
    have step: "process_times (Suc k) P st = process_times k P st'" for k using returns(1) by simp
    from Suc.IH [OF returns(2)] show ?thesis unfolding step
      using step by (metis Suc_less_eq)
  next
    fix h assume full: "pushCurlHandle (client (parse_client st)) = Some h" "fills P h st"
      "parseProcessNextPushNotification P st = Some (Inl OutOfBounds)"
    then have "process_times (Suc n) P st = Some (Inl OutOfBounds) \<and> process_times 0 P st = Some (Inr st)" by simp
    with full(1,2) show ?thesis by blast
  qed simp
qed

text \<open>
  A connection that fills the buffer with its first read: 2,048 bytes that start with a terminator, which \<open>getPushJson\<close>
  takes for the end of the data, are dropped.
\<close>

definition full_reads :: "string list unix_platform" where
  "full_reads = demo_chunks\<lparr>easy_recv := (\<lambda>h n w. case w of [] \<Rightarrow> (Again, []) | s # w' \<Rightarrow> (Received (take n s), w'))\<rparr>"

theorem unix_push_safe_witness:
  "\<exists>st'. process_times 1 full_reads (demo_process [NUL # replicate 2047 (CHR '' '')]) = Some (Inr st') \<and>
    length (parse_push_message_buffer st') = PUSH_BUFFER_SIZE \<and> local_store (parse_client st') \<noteq> [] \<and>
    -1 \<le> parse_push_message_size st' \<and> parse_push_message_size st' < int PUSH_BUFFER_SIZE"
proof -
  let ?s = "NUL # replicate 2047 (CHR '' '')"
  have "reads_at_most full_reads" "process_inv (demo_process [?s])"
    by (auto simp: reads_at_most_def full_reads_def process_inv_def buffer_inv_def demo_process_def PUSH_BUFFER_SIZE_def split: list.splits)
  note safe = unix_push_safe [OF this, of 1]
  have len: "length ?s = 2048" by simp
  then have "poke (replicate 2048 NUL) 0 ?s = Inr ?s" by (simp add: poke_def)
  moreover have "getPushJson ?s 2048 = Inr (None, -1, -1)"
    by (simp add: getPushJson_def findJsonBeginningParams.simps [of ?s] rd_def)
  ultimately obtain st' where "process_times 1 full_reads (demo_process [?s]) = Some (Inr st')"
    using len by (simp add: parseProcessNextPushNotification_def push_read.simps arrived_def full_reads_def demo_process_def
      set_world_def PUSH_BUFFER_SIZE_def Let_def)
  with safe show ?thesis by auto
qed

text \<open>
  The last case happens: an object of the size of the buffer that is not closed, in a message that is
  bigger than the buffer and is to be dropped, makes \<open>getPushJson\<close> read outside of the buffer.
\<close>

theorem unix_push_overrun:
  assumes "pushCurlHandle (client (parse_client st)) = Some h" "length (parse_push_message_buffer st) = PUSH_BUFFER_SIZE"
    and "parse_push_message_size st = 0"
    and "easy_recv P h PUSH_BUFFER_SIZE (world (parse_client st)) = (Received (CHR ''{'' # replicate (PUSH_BUFFER_SIZE - 1) (CHR '' '')), w)"
  shows "parseProcessNextPushNotification P st = Some (Inl OutOfBounds)"
proof -
  let ?s = "CHR ''{'' # replicate (PUSH_BUFFER_SIZE - 1) (CHR '' '')"
  have len: "length ?s = PUSH_BUFFER_SIZE" by (simp add: PUSH_BUFFER_SIZE_def)
  have "getPushJson ?s PUSH_BUFFER_SIZE = Inl OutOfBounds"
    using getPushJson_reads_past_end [of "PUSH_BUFFER_SIZE - 1"] by (simp add: PUSH_BUFFER_SIZE_def)
  moreover have "poke (parse_push_message_buffer st) 0 ?s = Inr ?s" using assms(2) len by (simp add: poke_def del: length_replicate)
  ultimately have "arrived ?s (set_world w st) = Inl OutOfBounds"
    using assms(3) len by (simp add: arrived_def Let_def)
  then show ?thesis
    using assms by (simp add: parseProcessNextPushNotification_def push_read.simps [of P h st] PUSH_BUFFER_SIZE_def)
qed

theorem unix_push_overrun_witness:
  "parseProcessNextPushNotification (demo_chunks\<lparr>easy_recv := \<lambda>h n w. (Received (CHR ''{'' # replicate (PUSH_BUFFER_SIZE - 1) (CHR '' '')), w)\<rparr>)
     (demo_process []) = Some (Inl OutOfBounds)"
  by (rule unix_push_overrun) (simp_all add: demo_process_def PUSH_BUFFER_SIZE_def)

text \<open>
  C30. When the server closes the connection, \<open>curl_easy_recv\<close> returns \<open>CURLE_OK\<close> and no bytes from then on:
  the call, and with it the loop, never returns, and the application is not told, as long as there is no complete
  message in the buffer.
\<close>

theorem unix_push_hangs:
  assumes h: "pushCurlHandle (client (parse_client st)) = Some h"
    and closed: "\<And>n w. fst (easy_recv P h n w) = Received []"
    and st: "0 \<le> parse_push_message_size st" "parse_push_message_size st < int (length (parse_push_message_buffer st))"
      "length (parse_push_message_buffer st) = PUSH_BUFFER_SIZE"
      "getPushJson (parse_push_message_buffer st) (nat (parse_push_message_size st)) = Inr (m, i, -1)"
  shows "parseProcessNextPushNotification P st = None"
proof -
  let ?Q = "\<lambda>N g s q. N = P \<longrightarrow> g = h \<longrightarrow> parse_push_message_buffer s = parse_push_message_buffer st \<longrightarrow>
    parse_push_message_size s = parse_push_message_size st \<longrightarrow> False"
  have no: "push_read P h st \<noteq> Some q" for q
  proof
    assume ret: "push_read P h st = Some q"
    have "?Q P h st q"
    proof (rule push_read.raw_induct [where P = ?Q, OF _ ret])
      fix f N g s q
      assume IH: "\<And>N g s q. f N g s = Some q \<Longrightarrow> ?Q N g s q"
        and eq: "(if 0 \<le> parse_push_message_size s \<and> parse_push_message_size s < int PUSH_BUFFER_SIZE then
          (case easy_recv N g (nat (int PUSH_BUFFER_SIZE - parse_push_message_size s)) (world (parse_client s)) of
             (Received xs, w) \<Rightarrow>
               (case arrived xs (set_world w s) of
                  Inl e \<Rightarrow> Some (Inl e)
                | Inr (r, s') \<Rightarrow> if snd r = -1 then f N g s' else Some (Inr (Some r, s')))
           | (Again, w) \<Rightarrow> Some (Inr (Some (None, -1), set_world w s))
           | (Failed, w) \<Rightarrow> Some (Inr (None, set_world w s)))
        else Some (Inr (Some (None, -1), s))) = Some q"
      show "?Q N g s q"
      proof (intro impI)
        assume *: "N = P" "g = h" "parse_push_message_buffer s = parse_push_message_buffer st" "parse_push_message_size s = parse_push_message_size st"
        obtain w where w: "easy_recv P h (nat (int PUSH_BUFFER_SIZE - parse_push_message_size st)) (world (parse_client s)) = (Received [], w)"
          using closed by (metis prod.collapse)
        have "poke (parse_push_message_buffer st) (nat (parse_push_message_size st)) [] = Inr (parse_push_message_buffer st)"
          using st(1,2) by (simp add: poke_def)
        then have "arrived [] (set_world w s) = Inr ((m, -1), set_world w s)"
          using st(4) * by (simp add: arrived_def set_world_def)
        with eq * w st have "f P h (set_world w s) = Some q" by simp
        from IH [OF this] * show False by simp
      qed
    qed
    then show False by simp
  qed
  then have "push_read P h st = None" by (cases "push_read P h st") auto
  with h show ?thesis by (simp add: parseProcessNextPushNotification_def)
qed

theorem unix_push_hangs_witness:
  "parseProcessNextPushNotification (demo_chunks\<lparr>easy_recv := \<lambda>h n w. (Received [], w)\<rparr>) (demo_process []) = None"
proof (rule unix_push_hangs)
  show "getPushJson (parse_push_message_buffer (demo_process [])) (nat (parse_push_message_size (demo_process []))) = Inr (None, -1, -1)"
    by (simp add: demo_process_def getPushJson_def findJsonBeginningParams.simps [of _ _ 0] rd_def)
qed (simp_all add: demo_process_def PUSH_BUFFER_SIZE_def)

text \<open>A call whose first read completes the object \<open>ps\<close> at the start of the buffer, with its newline and further data.\<close>

definition read_completes :: "'w unix_platform \<Rightarrow> 'w push_process \<Rightarrow> piece list \<Rightarrow> char list \<Rightarrow> bool" where
  "read_completes P st ps rest \<longleftrightarrow> length (parse_push_message_buffer st) = PUSH_BUFFER_SIZE \<and> local_store (parse_client st) \<noteq> [] \<and> is_object ps \<and>
     (\<exists>h s w buf. pushCurlHandle (client (parse_client st)) = Some h \<and>
        0 \<le> parse_push_message_size st \<and> parse_push_message_size st < int PUSH_BUFFER_SIZE \<and>
        easy_recv P h (nat (int PUSH_BUFFER_SIZE - parse_push_message_size st)) (world (parse_client st)) = (Received s, w) \<and>
        poke (parse_push_message_buffer st) (nat (parse_push_message_size st)) s = Inr buf \<and>
        take (nat (parse_push_message_size st) + length s) buf = text_of ps @ CHR 0x0A # rest)"

lemma arrived_object:
  assumes buf: "poke (parse_push_message_buffer st) (nat (parse_push_message_size st)) s = Inr buf" "0 \<le> parse_push_message_size st"
    and data: "take (nat (parse_push_message_size st) + length s) buf = text_of ps @ rest" and obj: "is_object ps"
  shows "arrived s st = Inr ((Some 0, int (length (text_of ps))), st\<lparr>parse_push_message_buffer := buf,
    parse_push_message_size := int (length (text_of ps @ rest))\<rparr>)"
proof -
  let ?k = "nat (parse_push_message_size st) + length s"
  have "?k \<le> length buf" using buf(1) poke_length [OF buf(1)] by (auto simp: poke_def split: if_splits)
  then have k: "?k = length (text_of ps @ rest)" using arg_cong [OF data, of length] by simp
  have "buf = [] @ (text_of [] @ text_of ps) @ rest @ drop ?k buf" using append_take_drop_id [of ?k buf] data by simp
  then have seg: "seg buf 0 (text_of [] @ text_of ps)" unfolding seg_def by (metis list.size(3))
  have sz: "parse_push_message_size st + int (length s) = int (length (text_of ps @ rest))" using k buf(2) by linarith
  have "getPushJson buf (length (text_of ps @ rest)) = Inr (Some 0, 0, int (length (text_of ps)))"
    using getPushJson_object [OF _ obj seg, of "length (text_of ps @ rest)"] by (simp add: is_junk_def)
  with buf(1) sz show ?thesis by (simp add: arrived_def Let_def del: length_append)
qed

text \<open>
  C17. The Unix SDK delivers a message: when a read completes an object at the start of the buffer, followed by the newline
  that separates messages and by any further data, the call passes exactly the object to the callback (nothing for the
  heartbeat, and nothing without a callback), keeps the further data at the start of the buffer, and returns 1 exactly
  when there is any.
\<close>

theorem unix_push_delivers:
  assumes "read_completes P st ps rest"
  shows "\<exists>st'. parseProcessNextPushNotification P st = Some (Inr (if rest = [] then 0 else 1, st')) \<and>
    effects (parse_client st') = effects (parse_client st) @
      (if prefix ''{}'' (text_of ps) \<or> \<not> pushCallback (client (parse_client st)) then [] else [Pushed 0 (Some (text_of ps))]) \<and>
    parse_push_message_size st' = int (length rest) \<and> take (length rest) (parse_push_message_buffer st') = rest"
proof -
  from assms obtain h s w buf where st: "length (parse_push_message_buffer st) = PUSH_BUFFER_SIZE" "local_store (parse_client st) \<noteq> []" "is_object ps"
    "pushCurlHandle (client (parse_client st)) = Some h" "0 \<le> parse_push_message_size st" "parse_push_message_size st < int PUSH_BUFFER_SIZE"
    and r: "easy_recv P h (nat (int PUSH_BUFFER_SIZE - parse_push_message_size st)) (world (parse_client st)) = (Received s, w)"
    and buf: "poke (parse_push_message_buffer st) (nat (parse_push_message_size st)) s = Inr buf"
    and data: "take (nat (parse_push_message_size st) + length s) buf = text_of ps @ CHR 0x0A # rest"
    unfolding read_completes_def by blast
  let ?n = "length (text_of ps)" and ?u = "int (length rest)" and ?k = "nat (parse_push_message_size st) + length s"
  let ?st = "(set_world w st)\<lparr>parse_push_message_buffer := buf, parse_push_message_size := int (length (text_of ps @ CHR 0x0A # rest))\<rparr>"
  have arr: "arrived s (set_world w st) = Inr ((Some 0, int ?n), ?st)"
    using buf data st(3,5) by (intro arrived_object) simp_all
  have lb: "length buf = PUSH_BUFFER_SIZE" using poke_length [OF buf] st(1) by simp
  have fit: "Suc (?n + length rest) \<le> PUSH_BUFFER_SIZE" using arg_cong [OF data, of length] lb by simp
  have pieces: "buf = (text_of ps @ [CHR 0x0A]) @ rest @ drop ?k buf" using append_take_drop_id [of ?k buf] data by simp
  obtain q qs where q: "text_of ps = CHR ''{'' # q" using is_object_text [OF st(3)] by metis
  then have n0: "0 < ?n" by simp
  have ok: "NUL \<notin> set (text_of ps)" "last (text_of ps) = CHR ''}''"
  proof -
    have "getPushJson (text_of ps @ [NUL]) ?n = Inr (Some 0, 0, int ?n)"
      using getPushJson_object [OF _ st(3), of "[]" "text_of ps @ [NUL]" ?n] by (simp add: is_junk_def seg_def)
    from getPushJson_span [OF this] n0 have "no_nul (text_of ps @ [NUL]) 0 ?n" "(text_of ps @ [NUL]) ! (?n - 1) = CHR ''}''" by auto
    with n0 show "NUL \<notin> set (text_of ps)" "last (text_of ps) = CHR ''}''"
      by (auto simp: no_nul_def nth_append last_conv_nth)
  qed
  have "take ?n buf = text_of ps" by (subst pieces) simp
  then have msg: "text_of ps = take ?n (drop 0 (parse_push_message_buffer ?st))" by simp
  have "parseProcessNextPushNotification P st = Some (push_message P 0 ?n ?st)"
    using st(4-6) r arr n0 by (simp add: parseProcessNextPushNotification_def push_read.simps [of P h st])
  moreover have pre: "length (parse_push_message_buffer ?st) = PUSH_BUFFER_SIZE" "local_store (parse_client ?st) \<noteq> []" "0 + ?n < PUSH_BUFFER_SIZE"
    "int (0 + ?n) \<le> parse_push_message_size ?st" "parse_push_message_size ?st \<le> int PUSH_BUFFER_SIZE" "?u = parse_push_message_size ?st - (int ?n + 1)"
    using lb st(2) fit by simp_all
  then obtain c buf' where pm: "effects c = effects (parse_client ?st) @ delivered (pushCallback (client (parse_client ?st))) (text_of ps)"
    "push_message P 0 ?n ?st = Inr (if ?u > 0 then 1 else 0, ?st\<lparr>parse_client := c, parse_push_message_buffer := buf', parse_push_message_size := ?u\<rparr>)"
    "0 < ?u \<longrightarrow> take (nat ?u) buf' = take (nat ?u) (drop (Suc ?n) ((parse_push_message_buffer ?st)[0 + ?n := NUL]))"
    using unix_push_message_ok [where P = P, OF pre(1,2) msg ok pre(3-6)] by blast
  moreover have "take (length rest) buf' = rest"
  proof (cases "rest = []")
    case False
    have "drop (Suc ?n) (buf[?n := NUL]) = rest @ drop ?k buf"
      using pieces by (metis drop_update_cancel append_eq_conv_conj length_append_singleton lessI)
    with pm(3) False show ?thesis by simp
  qed simp
  ultimately show ?thesis by (auto simp: delivered_def)
qed

theorem unix_push_delivers_witness:
  "\<exists>st'. parseProcessNextPushNotification demo_chunks (demo_process [text_of demo_object @ CHR 0x0A # ''x'']) = Some (Inr (1, st')) \<and>
    effects (parse_client st') = [Pushed 0 (Some (text_of demo_object))] \<and> parse_push_message_size st' = 1"
proof -
  let ?s = "text_of demo_object @ CHR 0x0A # ''x''"
  have len: "length ?s = 13" by (simp add: demo_object_def)
  then have "take 2046 ?s = ?s" by simp
  then have recv: "easy_recv demo_chunks 1 2048 [?s] = (Received ?s, [])" by (simp add: demo_chunks_def del: take_append)
  have "poke (replicate 2048 NUL) 0 ?s = Inr (?s @ drop 13 (replicate 2048 NUL))" using len by (simp add: poke_def)
  moreover have "take 13 (?s @ drop 13 (replicate 2048 NUL)) = ?s" using len by (simp del: drop_replicate)
  ultimately have "read_completes demo_chunks (demo_process [?s]) demo_object ''x''"
    using recv len demo_object_ok(1) unfolding read_completes_def
    by (simp add: demo_process_def PUSH_BUFFER_SIZE_def del: drop_replicate take_append)
  from unix_push_delivers [OF this] show ?thesis by (auto simp: demo_process_def demo_unix_client_def) (simp add: demo_object_def)
qed

text \<open>
  C32. When the socket of the push service has a problem, the loop stops the service and tells the application; in the
  next round the socket is -2, and it is put into a set that starts with descriptor 0.
\<close>

theorem unix_push_loop_fd_set:
  assumes "pushCurlHandle (client (parse_client st)) = Some h"
    and "0 \<le> parseGetPushSocket P (parse_client st)" "parseGetPushSocket P (parse_client st) < FD_SETSIZE"
    and "select_socket P (parseGetPushSocket P (parse_client st)) (world (parse_client st)) = ((n, True), w)" "0 < n"
  shows "parseRunPushLoop (Suc (Suc k)) P st = Some (Inl OutOfBounds) \<and>
    (\<exists>c. wait_socket P (parse_client st) = Inr c \<and> effects c = effects (parse_client st) @ [Cleaned h] @
      (if pushCallback (client (parse_client st)) then [Pushed ECONNRESET None] else []))"
proof -
  obtain c where c: "wait_socket P (parse_client st) = Inr c" "pushCurlHandle (client c) = None"
    "effects c = effects (parse_client st) @ [Cleaned h] @ (if pushCallback (client (parse_client st)) then [Pushed ECONNRESET None] else [])"
    using assms by (auto simp: wait_socket_def parseStopPushService_def call_push_def Let_def)
  from c(2) have "parseProcessNextPushNotification P (st\<lparr>parse_client := c\<rparr>) = Some (Inr (0, st\<lparr>parse_client := c\<rparr>))"
    "wait_socket P c = Inl OutOfBounds"
    by (simp_all add: parseProcessNextPushNotification_def wait_socket_def parseGetPushSocket_def)
  with c show ?thesis by simp
qed

theorem unix_push_loop_fd_set_witness:
  "parseRunPushLoop (Suc (Suc 0)) (demo_chunks\<lparr>select_socket := \<lambda>s w. ((1, True), w)\<rparr>) (demo_process []) = Some (Inl OutOfBounds)"
  using unix_push_loop_fd_set [of "demo_process []" 1 "demo_chunks\<lparr>select_socket := \<lambda>s w. ((1, True), w)\<rparr>" 1 "[]" 0]
  by (simp add: demo_process_def demo_chunks_def parseGetPushSocket_def FD_SETSIZE_def curl_codes)

section \<open>Starting, and what is lost\<close>

text \<open>The handshake is sent whole when the ids leave room for it.\<close>

lemma handshake_whole:
  assumes "length i + length a + length t \<le> 180"
  shows "handshake i a (Some t) = ''{'' @ [CHR 0x22] @ ''installation_id'' @ [CHR 0x22] @ '':'' @ [CHR 0x22] @ i @ [CHR 0x22] @ '', '' @ [CHR 0x22] @
    ''oauth_key'' @ [CHR 0x22] @ '':'' @ [CHR 0x22] @ a @ [CHR 0x22] @ '', '' @ [CHR 0x22] @ ''v'' @ [CHR 0x22] @ '':'' @ [CHR 0x22] @ ''e1.0.0'' @ [CHR 0x22] @
    '', '' @ [CHR 0x22] @ ''last'' @ [CHR 0x22] @ '':'' @ [CHR 0x22] @ t @ [CHR 0x22] @ ''}'' @ [CHR 0x0A]"
  using assms by (simp add: handshake_def Let_def)

lemma start_sends:
  assumes "pushCurlHandle (client st) = None" "installationId (client st) = Some i" "applicationId (client st) = Some a"
    and "easy_init P (world st) = (Some h, w0)" "curl_accepts P" "\<And>h w. snd (fst (easy_perform P h w)) = CURLE_OK"
  shows "\<exists>w st'. parseStartPushService P st = Inr (0, st') \<and> pushCurlHandle (client st') = Some h \<and>
    world st' = easy_send P h HEARTBEAT (easy_send P h (handshake i a (lastPushTime (client st))) w) \<and>
    lastHearbeat (client st') = ucast (secondsSinceBoot P (world st'))"
proof -
  obtain w1 where w1: "set_options P h [ConnectOnly, UseSsl, Url ''https://push.parse.com''] w0 = (CURLE_OK, w1)"
    using set_options_accepted [OF assms(5)] by blast
  obtain es w2 where w2: "easy_perform P h w1 = ((es, CURLE_OK), w2)"
    using assms(6) [of h w1] by (metis prod.collapse)
  from assms(1-4) w1 w2 show ?thesis
    by (auto simp: parseStartPushService_def parseCreateInstallationIdIfNeeded_def Let_def simp del: set_options.simps)
qed

text \<open>
  After a message that arrived without its newline the size is -1, which the condition of the loop takes for a large
  one: nothing is read any more.
\<close>

lemma process_minus_one:
  assumes "pushCurlHandle (client (parse_client st)) = Some h" "parse_push_message_size st = -1"
  shows "parseProcessNextPushNotification P st = Some (Inr (0, st\<lparr>parse_client := send_heartbeat P h (parse_client st)\<rparr>))"
  using assms by (simp add: parseProcessNextPushNotification_def push_read.simps [of P h st])

end
