(* ===== verification/Yun_Query.thy ===== *)
theory Yun_Query
  imports Push_Queue Unix_Session
begin

text \<open>
  \<^verbatim>\<open>unix/yun/utils.c\<close> and \<^verbatim>\<open>unix/yun/parse_request.c\<close>: the objects of an array of results, one after the other, and the
  handlers that serve an Arduino sketch over the standard input and output.
\<close>

section \<open>Definitions\<close>

text \<open>The loop of \<open>getNextFromJSONArray\<close>; the result is the returned pointer and \<open>*size\<close>.\<close>

function next_loop :: "char list \<Rightarrow> nat \<Rightarrow> nat option \<Rightarrow> nat \<Rightarrow> bool \<Rightarrow> nat \<Rightarrow> mem_error + (nat option \<times> nat)" where
  "next_loop m p start tmp found s =
     bindE (rd m p) (\<lambda>c.
       if c = NUL then Inr (start, s)
       else if c = CHR ''{'' then
         (if tmp = 0 then next_loop m (Suc p) (Some p) (tmp + 1) True (s + 1)
          else next_loop m (Suc p) start (tmp + 1) found (if found then s + 1 else s))
       else if c = CHR ''}'' then
         (let tmp = (if tmp > 0 then tmp - 1 else tmp) in
          if tmp = 0 then Inr (start, if found then s + 1 else s)
          else next_loop m (Suc p) start tmp found (if found then s + 1 else s))
       else next_loop m (Suc p) start tmp found (if found then s + 1 else s))"
  by pat_completeness auto
termination
  by (relation "measure (\<lambda>(m, p, start, tmp, found, s). length m - p)") (auto dest!: rd_Inr_less)

declare next_loop.simps [simp del]

definition getNextFromJSONArray :: "char list \<Rightarrow> nat \<Rightarrow> mem_error + (nat option \<times> nat)" where
  "getNextFromJSONArray m b = next_loop m b None 0 False 0"

text \<open>What is found lies behind the place where the search starts.\<close>

lemma next_loop_after:
  "next_loop m p start tmp found s = Inr (Some q, n) \<Longrightarrow> (\<And>r. start = Some r \<Longrightarrow> b \<le> r) \<Longrightarrow> b \<le> p \<Longrightarrow> p \<le> length m \<Longrightarrow> b \<le> q \<and> b < length m"
proof (induction m p start tmp found s rule: next_loop.induct)
  case (1 m p start tmp found s)
  from "1.prems"(1) obtain c where c: "rd m p = Inr c" by (cases "rd m p") (simp_all add: next_loop.simps [of m p])
  note lt = rd_Inr_less [OF c]
  note IH = "1.IH" [OF c]
  show ?case
    using "1.prems" c lt IH(1)
      IH(2) IH(3) IH(4)
    by (auto simp: next_loop.simps [of m p] Let_def split: if_splits)
qed

lemma next_after: "getNextFromJSONArray m b = Inr (Some q, n) \<Longrightarrow> b \<le> q \<and> b < length m"
proof -
  assume r: "getNextFromJSONArray m b = Inr (Some q, n)"
  then have "b < length m" by (cases "b < length m") (simp_all add: getNextFromJSONArray_def next_loop.simps [of m b] rd_def)
  with r show ?thesis using next_loop_after [of m b None 0 False 0 q n b] by (simp add: getNextFromJSONArray_def)
qed

text \<open>The loop of \<open>getCountFromJSONArray\<close>, from \<open>next + nextSize\<close> on.\<close>

function count_from :: "char list \<Rightarrow> nat \<Rightarrow> mem_error + nat" where
  "count_from m b =
     bindE (getNextFromJSONArray m b) (\<lambda>r.
       case fst r of
         None \<Rightarrow> Inr 0
       | Some q \<Rightarrow> if snd r > 0 then bindE (count_from m (q + snd r)) (\<lambda>c. Inr (Suc c)) else Inr 0)"
  by pat_completeness auto
termination
proof (relation "measure (\<lambda>(m, b). length m - b)", simp)
  fix m b r q
  assume "getNextFromJSONArray m b = Inr r" "fst r = Some q" "0 < snd r"
  with next_after [of m b q "snd r"] show "((m, q + snd r), m, b) \<in> measure (\<lambda>(m, b). length m - b)"
    by (cases r) auto
qed

declare count_from.simps [simp del]

definition getCountFromJSONArray :: "char list \<Rightarrow> mem_error + nat" where
  "getCountFromJSONArray data = count_from data 0"

text \<open>
  The commands of the sketch: the result is what is printed, and whether the handler returns; at the end of the
  standard input \<open>fgetc\<close> goes on returning -1. \<open>mem n\<close> says whether \<open>n\<close> bytes can be allocated.
\<close>

fun query_loop :: "(nat \<Rightarrow> bool) \<Rightarrow> char list \<Rightarrow> nat \<Rightarrow> nat \<Rightarrow> nat \<Rightarrow> string \<Rightarrow> mem_error + (string list \<times> bool)" where
  "query_loop mem results count next nextSize [] = Inr ([], False)"
| "query_loop mem results count next nextSize (ch # input) =
     (if ch = CHR ''n'' then
        bindE (getNextFromJSONArray results (next + nextSize)) (\<lambda>(q, n).
          case q of
            None \<Rightarrow> Inr ([], True)
          | Some q \<Rightarrow>
              if n > 0 then
                if \<not> mem (n + 1) then Inl NullPointer
                else bindE (c_text (drop q results)) (\<lambda>s.
                  bindE (query_loop mem results count q n input) (\<lambda>(outs, r). Inr (take n s # outs, r)))
              else Inr ([], True))
      else if ch = CHR ''c'' then
        bindE (query_loop mem results count next nextSize input) (\<lambda>(outs, r). Inr (decimal count # outs, r))
      else if ch = CHR ''e'' then Inr ([], True)
      else query_loop mem results count next nextSize input)"

text \<open>\<open>PARSE_BUFSIZE\<close> bytes of the stack are given as \<open>old\<close>; nothing clears them.\<close>

definition PARSE_BUFSIZE :: nat where
  "PARSE_BUFSIZE = 2048"

definition arduinoQueryHandler ::
  "(nat \<Rightarrow> bool) \<Rightarrow> char list \<Rightarrow> int \<Rightarrow> int \<Rightarrow> char list option \<Rightarrow> string \<Rightarrow> mem_error + (string list \<times> bool)" where
  "arduinoQueryHandler mem old error httpStatus httpResponseBody input =
     (if error \<noteq> 0 \<or> httpResponseBody = None then Inr ([], True)
      else
        bindE (getValueFromJSON httpResponseBody (Some ''results'') True (int PARSE_BUFSIZE)) (\<lambda>(_, val).
        bindE (poke old 0 val) (\<lambda>results.
        bindE (getCountFromJSONArray results) (\<lambda>count. query_loop mem results count 0 0 input))))"

definition arduinoCallHandler :: "int \<Rightarrow> int \<Rightarrow> char list option \<Rightarrow> mem_error + string list" where
  "arduinoCallHandler error httpStatus httpResponseBody =
     (case httpResponseBody of
        None \<Rightarrow> Inr []
      | Some m \<Rightarrow> if error \<noteq> 0 then Inr [] else bindE (c_text m) (\<lambda>s. Inr [s]))"

definition print_id :: "string option \<Rightarrow> string" where
  "print_id v = (case v of Some s \<Rightarrow> s | None \<Rightarrow> [CHR 0x0A])"

definition arduinoGetInstallationId :: "'w unix_state \<Rightarrow> string" where
  "arduinoGetInstallationId st = print_id (parseGetInstallationId st)"

definition arduinoGetSessionToken :: "'w unix_state \<Rightarrow> string" where
  "arduinoGetSessionToken st = print_id (parseGetSessionToken st)"

section \<open>Arrays of objects\<close>

text \<open>
  What the search takes for an object: a text from an opening brace to the one that closes it, where every brace
  counts, in strings too.
\<close>

fun braces_close :: "nat \<Rightarrow> string \<Rightarrow> bool" where
  "braces_close n [] \<longleftrightarrow> False"
| "braces_close n (c # cs) \<longleftrightarrow>
     (if c = CHR ''{'' then braces_close (Suc n) cs
      else if c = CHR ''}'' then (if n = 1 then cs = [] else 1 < n \<and> braces_close (n - 1) cs)
      else braces_close n cs)"

definition braced :: "string \<Rightarrow> bool" where
  "braced ob \<longleftrightarrow> NUL \<notin> set ob \<and> (\<exists>t. ob = CHR ''{'' # t \<and> braces_close 1 t)"

definition braceless :: "string \<Rightarrow> bool" where
  "braceless s \<longleftrightarrow> set s \<inter> {NUL, CHR ''{'', CHR ''}''} = {}"

text \<open>Objects with the texts before them, such as the bracket and the commas of an array.\<close>

definition array_text :: "(string \<times> string) list \<Rightarrow> string" where
  "array_text xs = concat (map (\<lambda>(s, ob). s @ ob) xs)"

definition array_ok :: "(string \<times> string) list \<Rightarrow> string \<Rightarrow> bool" where
  "array_ok xs rest \<longleftrightarrow> (\<forall>(s, ob) \<in> set xs. braceless s \<and> braced ob) \<and> braceless rest"

lemma next_object:
  "seg m p t \<Longrightarrow> NUL \<notin> set t \<Longrightarrow> braces_close k t \<Longrightarrow> 0 < k \<Longrightarrow>
   next_loop m p start k True s = Inr (start, s + length t)"
proof (induction t arbitrary: p k s)
  case (Cons c t)
  note c = seg_Cons [OF Cons.prems(1)]
  have one: "braces_close k' t \<Longrightarrow> 0 < k' \<Longrightarrow> next_loop m (Suc p) start k' True (s + 1) = Inr (start, s + length (c # t))" for k'
    using Cons.IH [of "Suc p" k' "s + 1"] c Cons.prems(2) by simp
  show ?case
    using c Cons.prems one [of "Suc k"] one [of "k - 1"] one [of k] by (auto simp: next_loop.simps [of m p] Let_def split: if_splits)
qed simp

lemma next_braceless:
  "seg m p s \<Longrightarrow> braceless s \<Longrightarrow> next_loop m p None 0 False 0 = next_loop m (p + length s) None 0 False 0"
proof (induction s arbitrary: p)
  case (Cons c s)
  note c = seg_Cons [OF Cons.prems(1)]
  have "next_loop m p None 0 False 0 = next_loop m (Suc p) None 0 False 0"
    using c Cons.prems(2) by (auto simp: next_loop.simps [of m p] braceless_def)
  moreover have "next_loop m (Suc p) None 0 False 0 = next_loop m (Suc p + length s) None 0 False 0"
    using c Cons.prems(2) by (intro Cons.IH) (auto simp: braceless_def)
  ultimately show ?case by simp
qed simp

lemma next_found:
  assumes "seg m p (s @ ob)" "braceless s" "braced ob"
  shows "getNextFromJSONArray m p = Inr (Some (p + length s), length ob)"
proof -
  from assms(3) obtain t where t: "ob = CHR ''{'' # t" "braces_close 1 t" "NUL \<notin> set t" by (auto simp: braced_def)
  note sg = seg_append [OF assms(1)]
  note h = seg_Cons [of m "p + length s" "CHR ''{''" t]
  have "next_loop m (p + length s) None 0 False 0 = next_loop m (Suc (p + length s)) (Some (p + length s)) 1 True 1"
    using h sg t(1) by (simp add: next_loop.simps [of m "p + length s"])
  also have "\<dots> = Inr (Some (p + length s), 1 + length t)"
    using h sg t by (intro next_object) simp_all
  finally show ?thesis using next_braceless [OF _ assms(2)] sg t(1) by (simp add: getNextFromJSONArray_def)
qed

lemma next_none:
  assumes "seg m p (s @ [NUL])" "braceless s"
  shows "getNextFromJSONArray m p = Inr (None, 0)"
proof -
  note sg = seg_append [OF assms(1)]
  then have "next_loop m (p + length s) None 0 False 0 = Inr (None, 0)"
    using seg_Cons [of m "p + length s" NUL "[]"] by (simp add: next_loop.simps [of m "p + length s"])
  then show ?thesis using next_braceless [OF _ assms(2)] sg by (simp add: getNextFromJSONArray_def)
qed

lemma array_text_simps [simp]: "array_text [] = []" "array_text ((s, ob) # xs) = s @ ob @ array_text xs"
  by (simp_all add: array_text_def)

lemma array_ok_simps [simp]: "array_ok [] rest = braceless rest"
  "array_ok ((s, ob) # xs) rest \<longleftrightarrow> braceless s \<and> braced ob \<and> array_ok xs rest"
  by (auto simp: array_ok_def)

lemma braced_length: "braced ob \<Longrightarrow> 0 < length ob"
  by (auto simp: braced_def)

text \<open>The first object of the rest of an array, and that there is none.\<close>

lemma next_of_array:
  assumes "seg m p (array_text xs @ rest @ [NUL])" "array_ok xs rest"
  shows "getNextFromJSONArray m p = (case xs of [] \<Rightarrow> Inr (None, 0) | (s, ob) # ys \<Rightarrow> Inr (Some (p + length s), length ob))"
    and "xs = (s, ob) # ys \<Longrightarrow> seg m (p + length s + length ob) (array_text ys @ rest @ [NUL])"
    and "xs = (s, ob) # ys \<Longrightarrow> seg m (p + length s) (ob @ array_text ys @ rest @ [NUL])"
proof -
  show "getNextFromJSONArray m p = (case xs of [] \<Rightarrow> Inr (None, 0) | (s, ob) # ys \<Rightarrow> Inr (Some (p + length s), length ob))"
  proof (cases xs)
    case Nil
    with assms next_none [of m p rest] show ?thesis by simp
  next
    case (Cons x ys)
    obtain s ob where x: "x = (s, ob)" by (cases x)
    with assms(1) Cons have "seg m p (s @ ob)" using seg_append [of m p "s @ ob"] by simp
    with assms(2) Cons x next_found [of m p s ob] show ?thesis by simp
  qed
  show "seg m (p + length s + length ob) (array_text ys @ rest @ [NUL])" if "xs = (s, ob) # ys"
    using assms(1) that seg_append [of m p "s @ ob" "array_text ys @ rest @ [NUL]"] by (simp add: add.assoc)
  show "seg m (p + length s) (ob @ array_text ys @ rest @ [NUL])" if "xs = (s, ob) # ys"
    using assms(1) that seg_append [of m p s "ob @ array_text ys @ rest @ [NUL]"] by simp
qed

lemma count_of_array:
  "seg m p (array_text xs @ rest @ [NUL]) \<Longrightarrow> array_ok xs rest \<Longrightarrow> count_from m p = Inr (length xs)"
proof (induction xs arbitrary: p)
  case Nil
  from next_of_array(1) [OF Nil] show ?case by (simp add: count_from.simps [of m p])
next
  case (Cons x xs)
  obtain s ob where x: "x = (s, ob)" by (cases x)
  have "count_from m (p + length s + length ob) = Inr (length xs)"
    using next_of_array(2) [OF Cons.prems, of s ob xs] Cons.IH Cons.prems(2) x by simp
  with next_of_array(1) [OF Cons.prems] Cons.prems(2) x braced_length [of ob] show ?case by (simp add: count_from.simps [of m p])
qed

section \<open>Sessions with a sketch\<close>

text \<open>What a sketch is to see: the objects in their order, their number, and the end.\<close>

fun query_session :: "nat \<Rightarrow> string list \<Rightarrow> string \<Rightarrow> string list \<times> bool" where
  "query_session n obs [] = ([], False)"
| "query_session n obs (ch # input) =
     (if ch = CHR ''n'' then
        (case obs of [] \<Rightarrow> ([], True) | ob # obs \<Rightarrow> (case query_session n obs input of (outs, r) \<Rightarrow> (ob # outs, r)))
      else if ch = CHR ''c'' then (case query_session n obs input of (outs, r) \<Rightarrow> (decimal n # outs, r))
      else if ch = CHR ''e'' then ([], True)
      else query_session n obs input)"

lemma seg_at: "seg m p (s @ NUL # t) \<Longrightarrow> NUL \<notin> set s \<Longrightarrow> c_text (drop p m) = Inr s"
  using c_text_string [of s] by (auto simp: seg_def)

lemma array_no_NUL: "array_ok xs rest \<Longrightarrow> NUL \<notin> set (array_text xs @ rest)"
proof (induction xs)
  case (Cons x xs)
  then show ?case by (cases x) (auto simp: braceless_def braced_def)
qed (auto simp: braceless_def)

lemma loop_is_session:
  assumes "\<And>n. mem n"
  shows "seg m (pos + nextSize) (array_text xs @ rest @ [NUL]) \<Longrightarrow> array_ok xs rest \<Longrightarrow>
    query_loop mem m count pos nextSize input = Inr (query_session count (map snd xs) input)"
proof (induction input arbitrary: pos nextSize xs)
  case (Cons ch input)
  show ?case
  proof (cases "ch = CHR ''n''")
    case True
    note nx = next_of_array [OF Cons.prems]
    show ?thesis
    proof (cases xs)
      case Nil
      with nx(1) True show ?thesis by simp
    next
      case (Cons x ys)
      obtain s ob where x: "x = (s, ob)" by (cases x)
      have "array_ok ys rest" "braced ob" using Cons.prems(2) Cons x by simp_all
      then have tx: "c_text (drop (pos + nextSize + length s) m) = Inr (ob @ array_text ys @ rest)"
        using nx(3) [of s ob ys] Cons x array_no_NUL [of ys rest] seg_at [of m _ "ob @ array_text ys @ rest" "[]"]
        by (auto simp: braced_def)
      have "query_loop mem m count (pos + nextSize + length s) (length ob) input = Inr (query_session count (map snd ys) input)"
        using Cons.IH [of "pos + nextSize + length s" "length ob" ys] nx(2) [of s ob ys] Cons x Cons.prems(2) by simp
      moreover have "mem (Suc (length ob))" by (rule assms)
      ultimately show ?thesis using nx(1) True Cons x tx \<open>braced ob\<close> braced_length [of ob] by (simp split: prod.split)
    qed
  next
    case False
    with Cons.IH [OF Cons.prems] show ?thesis by (simp split: prod.split)
  qed
qed simp

section \<open>Correctness\<close>

text \<open>
  C28. A query of an Arduino sketch on the Yun: when the answer is an object whose first member is the array of results, of at
  most 2047 bytes, the sketch sees exactly the objects of the array in their order, one for every n, their number
  for every c, and the handler returns at e or after the last object; at the end of the
  input it does not return. Every brace of the array must belong to the nesting of its objects.
\<close>

theorem yun_query_serves:
  assumes body: "httpResponseBody = Some (''{'' @ [CHR 0x22] @ ''results'' @ CHR 0x22 # CHR '':'' # arr @ after @ NUL # junk)" "NUL \<notin> set after"
    and arr: "arr = text_of (p # ps)" "opens p" "list_all copy_ok (p # ps)" "balanced 0 (p # ps)" "length arr < PARSE_BUFSIZE"
    and xs: "arr = array_text xs @ rest" "array_ok xs rest"
    and mem: "length old = PARSE_BUFSIZE" "\<And>n. mem n"
  shows "arduinoQueryHandler mem old 0 httpStatus httpResponseBody input = Inr (query_session (length xs) (map snd xs) input)"
proof -
  let ?m = "''{'' @ [CHR 0x22] @ ''results'' @ CHR 0x22 # CHR '':'' # arr @ after @ NUL # junk"
  have nn: "NUL \<notin> set arr" using array_no_NUL [OF xs(2)] xs(1) by simp
  obtain c s where cs: "c # s = arr @ after" using arr(1,2) by (cases "arr @ after") (auto simp: opens_def)
  have "holds (([CHR ''{'', CHR 0x22] @ ''results'' @ CHR 0x22 # [] @ CHR '':'' # [] @ c # s) @ NUL # junk) 0
      ([CHR ''{'', CHR 0x22] @ ''results'' @ CHR 0x22 # [] @ CHR '':'' # [] @ c # s)"
    using nn body(2) unfolding cs holds_def by (intro conjI exI [of _ "[]"] exI [of _ junk]) auto
  then have h: "holds ?m 0 ([CHR ''{'', CHR 0x22] @ ''results'' @ CHR 0x22 # [] @ CHR '':'' # [] @ c # s)" unfolding cs by simp
  have "simpleJsonProcessor (Some ?m) (Some ''results'') True (int PARSE_BUFSIZE) = Inr (True, text_of (p # ps) @ [NUL])"
  proof (rule simpleJsonProcessor_object [OF h])
    show "pre_scan [CHR ''{'', CHR 0x22] False 0 = Some (True, 1)" by simp
    show "c # s = text_of (p # ps) @ after" using cs arr(1) by simp
    show "int (length (text_of (p # ps))) < int PARSE_BUFSIZE" using arr(1,5) by simp
  qed (use arr in \<open>simp_all add: blanks_def del: text_of_simps\<close>)
  then have val: "getValueFromJSON httpResponseBody (Some ''results'') True (int PARSE_BUFSIZE) = Inr (True, arr @ [NUL])"
    using body(1) arr(1) by (simp add: getValueFromJSON_def)
  let ?r = "arr @ NUL # drop (length arr + 1) old"
  have results: "poke old 0 (arr @ [NUL]) = Inr ?r" using arr(5) mem(1) by (simp add: poke_def)
  have sg: "seg ?r 0 (array_text xs @ rest @ [NUL])"
    unfolding seg_def xs(1) by (intro exI [of _ "[]"] exI [of _ "drop (length (array_text xs @ rest) + 1) old"]) simp
  have "getCountFromJSONArray ?r = Inr (length xs)"
    using count_of_array [OF sg xs(2)] by (simp add: getCountFromJSONArray_def)
  moreover have "query_loop mem ?r (length xs) 0 0 input = Inr (query_session (length xs) (map snd xs) input)"
    using loop_is_session [where m = ?r and pos = 0 and nextSize = 0 and mem = mem] mem(2) sg xs(2) by simp
  moreover have "httpResponseBody \<noteq> None" using body(1) by simp
  ultimately show ?thesis using val results by (auto simp: arduinoQueryHandler_def)
qed

theorem yun_query_serves_witness:
  "arduinoQueryHandler (\<lambda>n. True) (replicate 2048 CHR ''x'') 0 200
     (Some (''{'' @ [CHR 0x22] @ ''results'' @ CHR 0x22 # CHR '':'' # ''[{1},{2}]'' @ ''}'' @ NUL # [])) ''cnnn'' = Inr ([''2'', ''{1}'', ''{2}''], True)"
proof -
  have "arduinoQueryHandler (\<lambda>n. True) (replicate 2048 CHR ''x'') 0 200
     (Some (''{'' @ [CHR 0x22] @ ''results'' @ CHR 0x22 # CHR '':'' # ''[{1},{2}]'' @ ''}'' @ NUL # [])) ''cnnn'' =
     Inr (query_session (length [(''['', ''{1}''), ('','', ''{2}'')]) (map snd [(''['', ''{1}''), ('','', ''{2}'')]) ''cnnn'')"
    by (rule yun_query_serves [where p = "Plain (CHR ''['')" and rest = "'']''" and after = "''}''" and junk = "[]"
      and ps = "[BraceOpen, Plain (CHR ''1''), BraceClose, Plain (CHR '',''), BraceOpen, Plain (CHR ''2''), BraceClose, Plain (CHR '']'')]"])
      (simp_all add: opens_def shuts_def braceless_def braced_def PARSE_BUFSIZE_def)
  then show ?thesis by (simp add: decimal.simps char_of_eq_iff)
qed

text \<open>
  C38. Braces in strings are counted: when the part of an array before a closing brace has no opening one (the rest of an
  object after a brace in one of its strings), the count stops there, whatever follows.
\<close>

theorem yun_query_brace:
  assumes "array_ok xs s" "NUL \<notin> set after"
  shows "getCountFromJSONArray (array_text xs @ s @ CHR ''}'' # after @ [NUL]) = Inr (length xs)"
proof -
  let ?m = "array_text xs @ s @ CHR ''}'' # after @ [NUL]"
  have "seg ?m p (array_text xs @ s @ CHR ''}'' # after @ [NUL]) \<Longrightarrow> array_ok xs s \<Longrightarrow> count_from ?m p = Inr (length xs)" for p xs
  proof (induction xs arbitrary: p)
    case Nil
    note sg = seg_append [of ?m p s "CHR ''}'' # after @ [NUL]"]
    then have "next_loop ?m (p + length s) None 0 False 0 = Inr (None, 0)"
      using Nil seg_Cons [of ?m "p + length s" "CHR ''}''" "after @ [NUL]"] by (simp add: next_loop.simps [of ?m "p + length s"] Let_def)
    with Nil next_braceless [of ?m p s] sg show ?case by (simp add: count_from.simps [of ?m p] getNextFromJSONArray_def)
  next
    case (Cons x xs)
    obtain s' ob where x: "x = (s', ob)" by (cases x)
    have sg: "seg ?m p (s' @ ob)" "seg ?m (p + length s' + length ob) (array_text xs @ s @ CHR ''}'' # after @ [NUL])"
      using Cons.prems(1) x seg_append [of ?m p "s' @ ob" "array_text xs @ s @ CHR ''}'' # after @ [NUL]"] by (simp_all add: add.assoc)
    have "count_from ?m (p + length s' + length ob) = Inr (length xs)"
      using Cons.IH [OF sg(2)] Cons.prems(2) x by simp
    with next_found [OF sg(1)] Cons.prems(2) x braced_length [of ob] show ?case by (simp add: count_from.simps [of ?m p])
  qed
  from this [of 0 xs] assms(1) show ?thesis
    unfolding getCountFromJSONArray_def seg_def by (metis append_Nil append_Nil2 list.size(3))
qed

theorem yun_query_brace_witness:
  "getCountFromJSONArray (array_text [(''['', ''{:'' @ [CHR 0x22] @ ''}'')] @ [CHR 0x22] @ CHR ''}'' # '',{:2}]'' @ [NUL]) = Inr 1"
proof -
  have "array_ok [(''['', ''{:'' @ [CHR 0x22] @ ''}'')] [CHR 0x22]" by (simp add: braceless_def braced_def)
  from yun_query_brace [OF this, of "'',{:2}]''"] show ?thesis by simp
qed

end
