(* ===== verification/Yun_Client.thy ===== *)
theory Yun_Client
  imports Yun_Query Json_Padded
begin

text \<open>
  \<^verbatim>\<open>unix/yun/client.c\<close> and \<^verbatim>\<open>unix/yun/yun.c\<close>: reading and writing over a socket, and the five values that the bridge asks
  the provisioning service of the Yun for.
\<close>

section \<open>Definitions\<close>

text \<open>
  \<open>tcp_ready\<close> is the call of \<open>select\<close> with the test of the socket, for a tenth of a second; \<open>tcp_recv\<close> and \<open>tcp_send\<close>
  return \<open>None\<close> for -1.
\<close>

record 'w tcp_api =
  tcp_connect :: "string \<Rightarrow> int \<Rightarrow> 'w \<Rightarrow> int \<times> 'w"
  tcp_close :: "int \<Rightarrow> 'w \<Rightarrow> 'w"
  tcp_ready :: "int \<Rightarrow> 'w \<Rightarrow> bool \<times> 'w"
  tcp_recv :: "int \<Rightarrow> nat \<Rightarrow> 'w \<Rightarrow> string option \<times> 'w"
  tcp_send :: "int \<Rightarrow> string \<Rightarrow> 'w \<Rightarrow> nat option \<times> 'w"

function write_loop :: "'w tcp_api \<Rightarrow> int \<Rightarrow> string \<Rightarrow> nat \<Rightarrow> 'w \<Rightarrow> nat \<times> 'w" where
  "write_loop N sock text n_sent w =
     (if n_sent < length text then
        (case tcp_send N sock (drop n_sent text) w of
           (None, w) \<Rightarrow> (n_sent, w)
         | (Some n_tmp, w) \<Rightarrow> if n_tmp = 0 then (n_sent, w) else write_loop N sock text (n_sent + n_tmp) w)
      else (n_sent, w))"
  by pat_completeness auto
termination
  by (relation "measure (\<lambda>(N, sock, text, n_sent, w). length text - n_sent)") auto

declare write_loop.simps [simp del]

definition tcp_write :: "'w tcp_api \<Rightarrow> int \<Rightarrow> string \<Rightarrow> 'w \<Rightarrow> bool \<times> 'w" where
  "tcp_write N sock text w = (case write_loop N sock text 0 w of (n_sent, w) \<Rightarrow> (\<not> n_sent < length text, w))"

definition brackets :: "string \<Rightarrow> int" where
  "brackets s = int (length (filter (\<lambda>c. c = CHR ''{'') s)) - int (length (filter (\<lambda>c. c = CHR ''}'') s))"

text \<open>The rounds of the reading loop that are left; the data come first, then the rest of the array.\<close>

fun read_rounds :: "nat \<Rightarrow> 'w tcp_api \<Rightarrow> int \<Rightarrow> nat \<Rightarrow> char list \<Rightarrow> nat \<Rightarrow> int \<Rightarrow> 'w \<Rightarrow> mem_error + (nat \<times> char list \<times> 'w)" where
  "read_rounds 0 N sock sz m n_recv bracketCount w = Inr (n_recv, m, w)"
| "read_rounds (Suc k) N sock sz m n_recv bracketCount w =
     (if n_recv < sz then
        (case tcp_ready N sock w of
           (False, w) \<Rightarrow> read_rounds k N sock sz m n_recv bracketCount w
         | (True, w) \<Rightarrow>
             (case tcp_recv N sock (sz - n_recv) w of (r, w) \<Rightarrow>
                let s = (case r of None \<Rightarrow> [] | Some s \<Rightarrow> s) in
                bindE (poke m n_recv s) (\<lambda>m.
                  let bracketCount = bracketCount + brackets s; n_recv = n_recv + length s in
                  if n_recv > 0 \<and> bracketCount = 0 then Inr (n_recv, m, w)
                  else read_rounds k N sock sz m n_recv bracketCount w)))
      else Inr (n_recv, m, w))"

definition tcp_read :: "'w tcp_api \<Rightarrow> int \<Rightarrow> char list \<Rightarrow> nat \<Rightarrow> nat \<Rightarrow> 'w \<Rightarrow> mem_error + (nat \<times> char list \<times> 'w)" where
  "tcp_read N sock m sz timeout_sec w =
     bindE (read_rounds (timeout_sec * 10) N sock sz m 0 0 w) (\<lambda>(n_recv, m, w).
     bindE (poke m n_recv [NUL]) (\<lambda>m. Inr (n_recv, m, w)))"

text \<open>\<open>strncpy(g, s, sizeof(g))\<close>\<close>

definition strncpy_array :: "char list \<Rightarrow> string \<Rightarrow> char list" where
  "strncpy_array g s = take (length g) s @ replicate (length g - length s) NUL"

definition get_command :: "string \<Rightarrow> string" where
  "get_command key =
     ''{'' @ [CHR 0x22] @ ''command'' @ [CHR 0x22] @ '': '' @ [CHR 0x22] @ ''get'' @ [CHR 0x22] @ '', '' @ [CHR 0x22] @ ''key'' @ [CHR 0x22] @
     '': '' @ [CHR 0x22] @ key @ [CHR 0x22] @ ''}'' @ [CHR 0x0A]"

text \<open>One value: the arrays \<open>buf\<close> and \<open>value\<close> are cleared before.\<close>

definition read_value :: "'w tcp_api \<Rightarrow> int \<Rightarrow> string \<Rightarrow> char list \<Rightarrow> 'w \<Rightarrow> mem_error + (char list \<times> 'w)" where
  "read_value N sock key g w =
     (case tcp_write N sock (get_command key) w of (_, w) \<Rightarrow>
        bindE (tcp_read N sock (replicate 128 NUL) (128 - 1) 2 w) (\<lambda>(n, buf, w).
          if n = 0 then Inr (g, w)
          else bindE (getValueFromJSON (Some buf) (Some ''value'') True 64) (\<lambda>(_, val).
               bindE (poke (replicate 64 NUL) 0 val) (\<lambda>val.
               bindE (c_text val) (\<lambda>s. Inr (if s \<noteq> ''null'' then strncpy_array g s else g, w))))))"

text \<open>The arrays of the process.\<close>

record yun_ids =
  g_cAppID :: "char list"
  g_cClientKey :: "char list"
  g_cInstallationID :: "char list"
  g_cSessionToken :: "char list"
  g_cServerURL :: "char list"

definition blank_ids :: yun_ids where
  "blank_ids = \<lparr>g_cAppID = replicate (40 + 1) NUL, g_cClientKey = replicate (40 + 1) NUL, g_cInstallationID = replicate (36 + 1) NUL,
     g_cSessionToken = replicate (40 + 1) NUL, g_cServerURL = replicate (256 + 1) NUL\<rparr>"

definition yunReadProvisioningInfo :: "'w tcp_api \<Rightarrow> yun_ids \<Rightarrow> 'w \<Rightarrow> mem_error + (int \<times> yun_ids \<times> 'w)" where
  "yunReadProvisioningInfo N ids w =
     (case tcp_connect N ''localhost'' 5700 w of (sock, w) \<Rightarrow>
        if sock > 0 then
          bindE (read_value N sock ''appId'' (g_cAppID ids) w) (\<lambda>(a, w).
          bindE (read_value N sock ''clientKey'' (g_cClientKey ids) w) (\<lambda>(k, w).
          bindE (read_value N sock ''installationId'' (g_cInstallationID ids) w) (\<lambda>(i, w).
          bindE (read_value N sock ''sessionToken'' (g_cSessionToken ids) w) (\<lambda>(t, w).
          bindE (read_value N sock ''serverURL'' (g_cServerURL ids) w) (\<lambda>(u, w).
            Inr (1, \<lparr>g_cAppID = a, g_cClientKey = k, g_cInstallationID = i, g_cSessionToken = t, g_cServerURL = u\<rparr>, tcp_close N sock w))))))
        else Inr (0, ids, w))"

section \<open>Reading an answer\<close>

lemma unit_eq: "(x :: unit) = y" by simp

lemma read_rounds_once:
  assumes "0 < k" "tcp_ready N sock w = (True, w1)" "tcp_recv N sock sz w1 = (Some s, w2)" "0 < length s" "length s \<le> sz" "sz < length m" "brackets s = 0"
  shows "read_rounds k N sock sz m 0 0 w = Inr (length s, s @ drop (length s) m, w2)"
  using assms by (cases k; cases sz) (auto simp: poke_def Let_def)

lemma tcp_read_once:
  assumes "0 < t" "tcp_ready N sock w = (True, w1)" "tcp_recv N sock sz w1 = (Some s, w2)" "0 < length s" "length s \<le> sz" "sz < k" "brackets s = 0"
  shows "tcp_read N sock (replicate k NUL) sz t w = Inr (length s, s @ replicate (k - length s) NUL, w2)"
proof -
  have "poke (s @ replicate (k - length s) NUL) (length s) [NUL] = Inr (s @ replicate (k - length s) NUL)"
    using assms(5,6) by (simp add: poke_def Suc_diff_le [symmetric] flip: replicate_Suc)
  with assms show ?thesis by (simp add: tcp_read_def read_rounds_once)
qed

section \<open>Staying within the arrays\<close>

text \<open>A receive call that brings nothing, or leaves \<open>d\<close> of the bytes it is asked for free.\<close>

definition recv_leaves :: "nat \<Rightarrow> 'w tcp_api \<Rightarrow> bool" where
  "recv_leaves d N \<longleftrightarrow> (\<forall>sock n w s w'. tcp_recv N sock n w = (Some s, w') \<longrightarrow> s = [] \<or> length s + d \<le> n)"

lemma read_rounds_safe:
  assumes N: "recv_leaves d N" and m: "sz < length m" "n_recv + d \<le> sz" "drop n_recv m = replicate (length m - n_recv) NUL"
  shows "\<exists>n m' w'. read_rounds k N sock sz m n_recv bc w = Inr (n, m', w') \<and> length m' = length m \<and> n + d \<le> sz \<and>
    drop n m' = replicate (length m - n) NUL"
  using m
proof (induction k arbitrary: m n_recv bc w)
  case (Suc k)
  show ?case
  proof (cases "n_recv < sz")
    case True
    obtain b w1 where b: "tcp_ready N sock w = (b, w1)" by fastforce
    show ?thesis
    proof (cases b)
      case False
      with b True Suc.IH [OF Suc.prems] show ?thesis by simp
    next
      case True
      obtain r w2 where r: "tcp_recv N sock (sz - n_recv) w1 = (r, w2)" by fastforce
      define s where "s = (case r of None \<Rightarrow> [] | Some s \<Rightarrow> s)"
      have s: "n_recv + length s + d \<le> sz" using N r Suc.prems(2) unfolding recv_leaves_def s_def by (cases r) fastforce+
      obtain m1 where m1: "poke m n_recv s = Inr m1" using poke_total [of n_recv s m] s Suc.prems(1) by auto
      then have l1: "length m1 = length m" by (rule poke_length)
      have "drop (n_recv + length s) m1 = drop (length s) (drop n_recv m)"
        using m1 by (auto simp: poke_def add.commute split: if_splits)
      then have dr: "drop (n_recv + length s) m1 = replicate (length m1 - (n_recv + length s)) NUL"
        using Suc.prems(3) l1 by simp
      show ?thesis
      proof (cases "n_recv + length s > 0 \<and> bc + brackets s = 0")
        case True
        with \<open>n_recv < sz\<close> b \<open>b\<close> r m1 s dr l1 show ?thesis by (simp add: Let_def s_def [symmetric])
      next
        case False
        with \<open>n_recv < sz\<close> b \<open>b\<close> r m1 have "read_rounds (Suc k) N sock sz m n_recv bc w =
            read_rounds k N sock sz m1 (n_recv + length s) (bc + brackets s) w2" by (auto simp: Let_def s_def [symmetric])
        with Suc.IH [of m1 "n_recv + length s" "bc + brackets s" w2] s dr l1 Suc.prems(1) show ?thesis by simp
      qed
    qed
  qed (use Suc.prems in simp)
qed simp

lemma tcp_read_safe:
  assumes "recv_leaves d N" "sz < k" "d \<le> sz"
  shows "\<exists>n m w'. tcp_read N sock (replicate k NUL) sz t w = Inr (n, m, w') \<and> length m = k \<and> n + d \<le> sz \<and> drop n m = replicate (k - n) NUL"
proof -
  obtain n m w' where r: "read_rounds (t * 10) N sock sz (replicate k NUL) 0 0 w = Inr (n, m, w')" "length m = k" "n + d \<le> sz" "drop n m = replicate (k - n) NUL"
    using read_rounds_safe [OF assms(1), of sz "replicate k NUL" 0 "t * 10" sock 0 w] assms(2,3) by auto
  obtain j where "k - n = Suc j" using r(3) assms(2) by (cases "k - n") auto
  with r(4) have "drop n m = NUL # replicate j NUL" by simp
  then have "drop n m = NUL # drop (Suc n) m" by (metis drop_Suc drop_tl list.sel(3))
  then have "poke m n [NUL] = Inr m" using r(2,3) assms(2) by (simp add: poke_def) (metis append_take_drop_id)
  with r show ?thesis by (simp add: tcp_read_def)
qed

lemma value_text:
  assumes "getValueFromJSON data key True 64 = Inr (b, val)"
  shows "\<exists>v s. poke (replicate 64 NUL) 0 val = Inr v \<and> c_text v = Inr s"
proof -
  have f: "val = [] \<or> fits 0 64 val" using assms processor_fits by (simp add: getValueFromJSON_def)
  then have "length val \<le> 64" by (auto simp: fits_def)
  then have p: "poke (replicate 64 NUL) 0 val = Inr (val @ replicate (64 - length val) NUL)" by (simp add: poke_def)
  have "NUL \<in> set (val @ replicate (64 - length val) NUL)"
    using f by (auto simp: fits_def dest: last_in_set)
  then obtain us vs where "val @ replicate (64 - length val) NUL = us @ NUL # vs" "NUL \<notin> set us" by (meson split_list_first)
  with c_text_string have "c_text (val @ replicate (64 - length val) NUL) = Inr us" by simp
  with p show ?thesis by blast
qed

lemma read_value_safe:
  assumes "recv_leaves 1 N"
  shows "\<exists>g' w'. read_value N sock key g w = Inr (g', w') \<and> length g' = length g"
proof -
  obtain x w1 where w1: "tcp_write N sock (get_command key) w = (x, w1)" by fastforce
  obtain n m w2 where r: "tcp_read N sock (replicate 128 NUL) 127 2 w1 = Inr (n, m, w2)" "length m = 128" "n + 1 \<le> 127" "drop n m = replicate (128 - n) NUL"
    using tcp_read_safe [OF assms, of 127 128 sock 2 w1] by auto
  have "m = take 126 m @ drop 126 m" by simp
  moreover have "drop 126 m = drop (126 - n) (drop n m)" using r(3) by simp
  then have "drop 126 m = [NUL, NUL]" using r(3,4) by (simp add: numeral_2_eq_2)
  ultimately have "padded m" unfolding padded_def by metis
  then obtain b val where v: "getValueFromJSON (Some m) (Some ''value'') True 64 = Inr (b, val)"
    unfolding getValueFromJSON_def using processor_padded [of m "''value''"] by fastforce
  from value_text [OF v] obtain v' s where "poke (replicate 64 NUL) 0 val = Inr v'" "c_text v' = Inr s" by blast
  with w1 r(1) v show ?thesis by (simp add: read_value_def strncpy_array_def min_def)
qed

section \<open>Correctness\<close>

text \<open>
  C29. Provisioning of the bridge: a value that the service sends in one piece of at most 127 bytes is cut off to 63 characters and
  copied into its array, unless it is null: a server address of more than 63 characters is not the one that was
  provisioned (its array has 257 bytes), and an application id, a key or a token of 41 to 63 characters leaves its array
  without a terminator.
\<close>

theorem yun_value_read:
  assumes net: "tcp_write N sock (get_command key) w = (x, w1)" "tcp_ready N sock w1 = (True, w2)" "tcp_recv N sock 127 w2 = (Some ans, w3)"
    and ans: "ans = ''{'' @ [CHR 0x22] @ ''value'' @ CHR 0x22 # CHR '':'' # CHR 0x22 # items_text its @ CHR 0x22 # ''}'' @ [CHR 0x0A]"
      "list_all item_ok its" "brackets (items_text its) = 0" "length ans \<le> 127"
  shows "read_value N sock key g w =
      Inr (if take 63 (items_text its) \<noteq> ''null'' then strncpy_array g (take 63 (items_text its)) else g, w3) \<and>
    (NUL \<in> set (strncpy_array g (take 63 (items_text its)))) = (length (take 63 (items_text its)) < length g)"
proof -
  let ?v = "items_text its"
  have nv: "NUL \<notin> set ?v" using items_no_NUL [OF ans(2)] .
  then have nv': "NUL \<notin> set (take 63 ?v)" by (meson in_set_takeD)
  have "NUL \<notin> set (take n (take 63 ?v))" for n using nv' by (meson in_set_takeD)
  then have arr: "(NUL \<in> set (strncpy_array g (take 63 ?v))) = (length (take 63 ?v) < length g)"
    by (auto simp: strncpy_array_def simp del: length_take take_take)
  let ?m = "ans @ replicate (128 - length ans) NUL"
  have "0 < length ans" "brackets ans = 0" using ans(1,3) by (simp_all add: brackets_def)
  then have r: "tcp_read N sock (replicate 128 NUL) 127 2 w1 = Inr (length ans, ?m, w3)"
    using tcp_read_once [of 2 N sock w1 w2 127 ans w3 128] net(2,3) ans(4) by simp
  obtain j where j: "128 - length ans = Suc j" using ans(4) by (cases "128 - length ans") auto
  have m: "?m = ans @ NUL # replicate j NUL" unfolding j by simp
  have h: "holds ?m 0 ([CHR ''{'', CHR 0x22] @ ''value'' @ CHR 0x22 # [] @ CHR '':'' # [] @ CHR 0x22 # ?v @ CHR 0x22 # ''}'' @ [CHR 0x0A])"
    unfolding m unfolding holds_def ans(1) using nv by (intro conjI exI [of _ "[]"] exI [of _ "replicate j NUL"]) auto
  have "simpleJsonProcessor (Some ?m) (Some ''value'') True 64 = Inr (True, take (nat (64 - 1)) ?v @ [NUL])"
    by (rule processor_string [where inS = True and lvl = 1, OF h _ _ _ _ _ _ _ ans(2)]) (simp_all add: blanks_def)
  then have v: "getValueFromJSON (Some ?m) (Some ''value'') True 64 = Inr (True, take 63 ?v @ [NUL])"
    by (simp add: getValueFromJSON_def)
  have "length (take 63 ?v @ [NUL]) \<le> 64" by simp
  then have p: "poke (replicate 64 NUL) 0 (take 63 ?v @ [NUL]) = Inr (take 63 ?v @ NUL # replicate (64 - length (take 63 ?v @ [NUL])) NUL)"
    by (simp add: poke_def)
  have "read_value N sock key g w = Inr (if take 63 ?v \<noteq> ''null'' then strncpy_array g (take 63 ?v) else g, w3)"
    using net(1) r v p c_text_string [OF nv'] \<open>0 < length ans\<close> by (simp add: read_value_def del: length_append)
  with arr show ?thesis by blast
qed

text \<open>A service for examples, which answers at once.\<close>

definition demo_tcp :: "string \<Rightarrow> unit tcp_api" where
  "demo_tcp ans = \<lparr>tcp_connect = (\<lambda>h p w. (3, w)), tcp_close = (\<lambda>s w. w), tcp_ready = (\<lambda>s w. (True, w)),
     tcp_recv = (\<lambda>s n w. (Some (take (n - 1) ans), w)), tcp_send = (\<lambda>s t w. (Some (length t), w))\<rparr>"

theorem yun_value_read_witness:
  "read_value (demo_tcp (''{'' @ [CHR 0x22] @ ''value'' @ CHR 0x22 # CHR '':'' # CHR 0x22 # items_text (replicate 70 (Ch (CHR ''u''))) @
       CHR 0x22 # ''}'' @ [CHR 0x0A])) 3 ''serverURL'' (replicate 257 NUL) () =
     Inr (replicate 63 CHR ''u'' @ replicate 194 NUL, ())"
proof -
  have it: "items_text (replicate n (Ch (CHR ''u''))) = replicate n CHR ''u''" for n by (induction n) simp_all
  let ?ans = "''{'' @ [CHR 0x22] @ ''value'' @ CHR 0x22 # CHR '':'' # CHR 0x22 # items_text (replicate 70 (Ch (CHR ''u''))) @ CHR 0x22 # ''}'' @ [CHR 0x0A]"
  let ?N = "demo_tcp ?ans"
  have len: "length ?ans = 83" by (simp add: it)
  then have "take 126 ?ans = ?ans" by simp
  then have recv: "tcp_recv ?N 3 127 () = (Some ?ans, ())" by (simp add: demo_tcp_def del: take_append)
  have wr: "tcp_write ?N 3 (get_command ''serverURL'') () = (fst (tcp_write ?N 3 (get_command ''serverURL'') ()), ())"
    by (rule prod_eqI) (simp only: fst_conv, rule unit_eq)
  have br: "brackets (items_text (replicate 70 (Ch (CHR ''u'')))) = 0" by (simp add: it brackets_def)
  have "read_value ?N 3 ''serverURL'' (replicate 257 NUL) () =
      Inr (if take 63 (items_text (replicate 70 (Ch (CHR ''u'')))) \<noteq> ''null''
        then strncpy_array (replicate 257 NUL) (take 63 (items_text (replicate 70 (Ch (CHR ''u''))))) else replicate 257 NUL, ())"
    by (rule conjunct1 [OF yun_value_read [OF wr _ recv refl _ br]]) (use len in \<open>simp_all add: demo_tcp_def list_all_iff\<close>)
  moreover have "take 63 (replicate 70 CHR ''u'') = replicate 63 CHR ''u''" by simp
  moreover have "replicate 63 CHR ''u'' \<noteq> ''null''" by (rule notI, drule arg_cong [where f = length], simp)
  ultimately show ?thesis by (simp only: it) (simp add: strncpy_array_def del: take_replicate)
qed

text \<open>
  When every receive call leaves a byte free, the provisioning always returns, whatever the service sends, and keeps the
  sizes of the five arrays.
\<close>

theorem yun_provisioning_safe:
  assumes "recv_leaves 1 N"
  shows "\<exists>r ids' w'. yunReadProvisioningInfo N ids w = Inr (r, ids', w') \<and> length (g_cAppID ids') = length (g_cAppID ids) \<and>
    length (g_cClientKey ids') = length (g_cClientKey ids) \<and> length (g_cInstallationID ids') = length (g_cInstallationID ids) \<and>
    length (g_cSessionToken ids') = length (g_cSessionToken ids) \<and> length (g_cServerURL ids') = length (g_cServerURL ids)"
proof -
  obtain sock w0 where s: "tcp_connect N ''localhost'' 5700 w = (sock, w0)" by fastforce
  note rv = read_value_safe [OF assms, where sock = sock]
  obtain a w1 where a: "read_value N sock ''appId'' (g_cAppID ids) w0 = Inr (a, w1)" "length a = length (g_cAppID ids)" using rv by blast
  obtain k w2 where k: "read_value N sock ''clientKey'' (g_cClientKey ids) w1 = Inr (k, w2)" "length k = length (g_cClientKey ids)" using rv by blast
  obtain i w3 where i: "read_value N sock ''installationId'' (g_cInstallationID ids) w2 = Inr (i, w3)" "length i = length (g_cInstallationID ids)"
    using rv by blast
  obtain t w4 where t: "read_value N sock ''sessionToken'' (g_cSessionToken ids) w3 = Inr (t, w4)" "length t = length (g_cSessionToken ids)"
    using rv by blast
  obtain u w5 where u: "read_value N sock ''serverURL'' (g_cServerURL ids) w4 = Inr (u, w5)" "length u = length (g_cServerURL ids)"
    using rv by blast
  from s a k i t u show ?thesis by (simp add: yunReadProvisioningInfo_def)
qed

theorem yun_provisioning_safe_witness:
  "\<exists>r ids' w'. yunReadProvisioningInfo (demo_tcp ''}{'') blank_ids () = Inr (r, ids', w') \<and> length (g_cAppID ids') = 41"
proof -
  have "recv_leaves 1 (demo_tcp ''}{'')" by (auto simp: recv_leaves_def demo_tcp_def)
  from yun_provisioning_safe [OF this, of blank_ids "()"] show ?thesis by (auto simp: blank_ids_def)
qed

end
