(* ===== verification/Spec2Isabelle.thy ===== *)
theory Spec2Isabelle
  imports Page_Nav Search_Site Search_Debounce Search_View Dyn_Tree Url_Encode Push_Queue Cc3200_Restart Unix_Restart Unix_Push Yun_Client
begin

text \<open>
  Verification of the Parse Embedded SDKs.

  The program. The repository holds the SDKs that connect small devices to a Parse server and the
  documentation sites of two of them. The JavaScript of the repository is the search and the folding
  of those sites (the same scripts stand in \<^verbatim>\<open>docs/html\<close> and \<^verbatim>\<open>docs/yun/html\<close>) with their index
  tables; the C of the SDKs has a JSON scanner used by all of them, a client with requests, installations,
  sessions and a push service for real-time platforms above a platform layer, that layer for the CC3200,
  a bridge to an Arduino on the Yun, and an SDK for Unix.

  How the parts of the search interact. The field of the search box (\<open>SearchBox\<close>) starts a timer at
  every key; when it expires, \<open>Search\<close> looks up the initial of the text in \<open>indexSectionsWithContent\<close>
  of the selected section and opens the page of that initial in a frame, with the text as its query.
  The page builds its rows from \<open>searchData\<close> (\<open>createResults\<close>), hides those whose name does not start
  with the text (\<open>SearchResults.Search\<close>) and is then moved through with the keys (\<open>Nav\<close>,
  \<open>NavChild\<close>). Rows and texts meet through \<open>convertToId\<close>, which encodes names as ids.

  How the parts of the push service interact. \<open>parseProcessNextPushNotification\<close> reads from the
  platform (\<open>socketRead\<close>) into a buffer until \<open>getPushJson\<close> frames a message there, takes the time of
  the push out of it (\<open>simpleJsonProcessor\<close>), calls the application and moves the rest of the buffer
  down. On the Yun the callback puts the message into a linked list from which a sketch fetches it.

  How the parts of the client interact. \<open>parseInitialize\<close> loads the client from its file. Every request of the
  application, every new id and token, and the start of the push service first look for the installation
  (\<open>getInstallation\<close>), which may ask the server for it or register a new one (\<open>createInstallation\<close>); the answers lie
  in the one request buffer while the callbacks take the ids out of them (\<open>simpleJsonProcessor\<close>) into the
  arrays of the client. New ids and tokens are saved (\<open>saveClientState\<close>). The start of the push service writes the ids
  into the receive buffer, from where they are sent.

  Theories. Each opens with a note on what it holds.

  \<^item> \<open>Prelude\<close>: collections of simplification rules, the interfaces \<open>prefix_code\<close>, \<open>codec\<close> and
    \<open>state_machine\<close>, the error monad \<open>bindE\<close>, generic lemmas. \<open>Js_Strings\<close>: strings as lists of
    16-bit code units, with \<open>escape\<close>, \<open>unescape\<close>, hexadecimal numbers and \<open>indexOf\<close>.
  \<^item> \<open>Search_Ids\<close>, \<open>Char_Ids\<close>: \<open>convertToId\<close>, a prefix code, and its evaluation on characters.
  \<^item> \<open>Dom\<close>, \<open>Find_Child\<close>: the document as a finite ordered tree with ids and display styles, the
    traversal functions of the DOM on paths, and the pointer walk of \<open>FindChildElement\<close>, which is
    shown to end and to be a depth-first search.
  \<^item> \<open>Search_Results\<close>, \<open>Results_Page\<close>, \<open>Page_Search\<close>, \<open>Page_Nav\<close>: \<open>createResults\<close> and every method
    of \<open>SearchResults\<close>; where the ids of a built page are; what the search shows; where each key goes.
  \<^item> \<open>Search_Data\<close>, \<open>Index_Check\<close>: \<^verbatim>\<open>searchdata.js\<close> and all tables of both sites, entry by entry,
    and that they are consistent with each other.
  \<^item> \<open>Search_Box\<close>, \<open>Search_Box_Inv\<close>, \<open>Search_Debounce\<close>, \<open>Search_View\<close>, \<open>Search_Site\<close>: the search
    box with its timers, menu and windows as a state and one function per handler; the invariant of its
    reachable states; the timer; the refinement of a view with the states closed and open; the page
    that is opened. The theorem of this theory joins the search box to the page that shows.
  \<^item> \<open>Dyn_Sections\<close>, \<open>Dyn_Tree\<close>: \<^verbatim>\<open>dynsections.js\<close> on the rows of a table, and the tree they are.
  \<^item> \<open>C_Memory\<close>: offsets into buffers; reading or writing outside of one, a null or dangling pointer and
    a call that never returns are errors of type \<open>mem_error\<close>.
  \<^item> \<open>Simple_Json\<close>, \<open>Json_Frames\<close>, \<open>Json_Values\<close>, \<open>Json_Safe\<close>: \<^verbatim>\<open>common/simplejson.c\<close>; which objects
    the scans find; which values are copied; that no read leaves a complete message.
  \<^item> \<open>Url_Encode\<close>: \<^verbatim>\<open>cc3200/samples/blink/urlencode.c\<close>.
  \<^item> \<open>Push_Queue\<close>: the linked list of \<^verbatim>\<open>unix/yun/parse_push.c\<close> on a heap, and the interface \<open>fifo\<close>.
  \<^item> \<open>Rtos_Push\<close>, \<open>Cc3200_Platform\<close>, \<open>Cc3200_Push\<close>: \<^verbatim>\<open>rtos/push.c\<close> from the reading on, over any platform and the
    interface \<open>terminated_reads\<close>; \<open>socketRead\<close> and the ping clock of the CC3200; both together.
  \<^item> \<open>Rtos_Request\<close>: \<^verbatim>\<open>rtos/http.c\<close> and \<^verbatim>\<open>rtos/request.c\<close>: the parts of a request in a fixed buffer, the
    exchange with the server and the answer, over records that a device extends.
  \<^item> \<open>Json_Padded\<close>: the scanner on arrays that end with two terminators, on which it never runs out.
  \<^item> \<open>Rtos_Client\<close>, \<open>Rtos_Installation\<close>: \<open>ParseClientInternal\<close> with its arrays, \<open>parseInitialize\<close>, the type
    \<open>client_ok\<close>, and the interface \<open>client_platform_laws\<close>; \<^verbatim>\<open>rtos/installation.c\<close>, \<^verbatim>\<open>rtos/session.c\<close> and
    \<open>parseSendRequest\<close>, each of which keeps the type.
  \<^item> \<open>Rtos_Register\<close>, \<open>Rtos_Frame\<close>: what registering does with and without a connection; what requests
    leave alone in the client and in the world.
  \<^item> \<open>Rtos_Start\<close>, \<open>Rtos_Restart\<close>: \<open>parseStartPushService\<close> and what it does over bytes of the last connection.
  \<^item> \<open>Cc3200_Files\<close>, \<open>Cc3200_Certificate\<close>: \<^verbatim>\<open>cc3200/src/client_state.c\<close>, \<^verbatim>\<open>certificate_file.c\<close> and \<^verbatim>\<open>rtos/certificate.c\<close>
    over the calls of a file system.
  \<^item> \<open>Cc3200_Client\<close>, \<open>Cc3200_Device\<close>, \<open>Cc3200_Restart\<close>: \<open>socketSslConnect\<close>, the version and the installation ids
    of the CC3200; the client and the push service on one board; what the whole device promises.
  \<^item> \<open>Unix_Os\<close>, \<open>Unix_Client\<close>, \<open>Unix_Request\<close>, \<open>Unix_Session\<close>, \<open>Unix_Restart\<close>, \<open>Unix_Push\<close>: the SDK for Unix. The keys of a
    client as files (\<^verbatim>\<open>unix/src/parse_os.c\<close>); a request and what libcurl calls back during its transfer; installation,
    session and initialization; what they leave alone, and what a restart finds; the push service
    (all \<^verbatim>\<open>unix/src/parse.c\<close>).
  \<^item> \<open>Yun_Query\<close>, \<open>Yun_Client\<close>: the other half of the bridge on the Yun: the objects of an array of results
    (\<^verbatim>\<open>unix/yun/utils.c\<close>) and the handlers that serve them to a sketch (\<^verbatim>\<open>parse_request.c\<close>); the socket of the
    provisioning service (\<^verbatim>\<open>client.c\<close>) and the values that are read from it (\<^verbatim>\<open>yun.c\<close>).

  What is a parameter, and what is assumed of it. \<open>host\<close>: the case conversion of the JavaScript host,
  of which \<open>host_ok\<close> asks that it is the usual one on ASCII. \<open>geometry\<close>: the positions that layout
  computes. \<open>malloc\<close>: returns blocks that are not in use (\<open>malloc_fresh\<close>), and one as long as finitely
  many are (\<open>enough_memory\<close>). The network driver of the CC3200: \<open>recv\<close> returns no more than asked for and
  negative errors (\<open>recv_ok\<close>). The file system of the CC3200: \<open>working_fs\<close> says that files keep what is written, and
  \<open>missing_fails\<close> that a missing one cannot be opened; the faults of the code with one that fails need no such law.
  libcurl and the system under the Unix SDK: \<open>curl_accepts\<close> says that options can be set, \<open>files_ok\<close> and \<open>curl_leaves_files\<close> that
  files keep what is written and that transfers do not touch them, \<open>answers_scan\<close> that answers are closed objects or
  at least can be scanned for ids, \<open>reads_at_most\<close> that a read stores no more than it is asked for.
  \<open>reads_terminated\<close> asks of \<^verbatim>\<open>socketRead\<close> that it waits or leaves a terminator after what it received, as the one of the CC3200 does.
  The answers of the server are any bytes; \<open>short_answers\<close> asks that they do not fill the request buffer.
  \<open>srand\<close> and \<open>rand\<close> are any functions; \<open>rand\<close> is called from left to right. Selections of jQuery in \<^verbatim>\<open>dynsections.js\<close> are filters on the
  rows in document order. A callback of the application is an entry in a log and changes nothing else.

  Fuel and loops. Loops that end are functions with a measure; the reading loops of the CC3200 may not
  end and are partial functions whose value \<open>None\<close> is not to return, as is the one of the Unix SDK; \<open>parseRunPushLoop\<close> is cut off
  after a number of calls that the theorems leave open, and the removal of the local store at a depth of directories,
  where a bound that is enough stays enough.

  What the lemmas show: the search opens the right page and shows exactly the names that start with
  the text; no key in a page throws; the windows and the fields of the search box agree in all
  reachable states, and the box does what an abstract one does, event by event; a typed text is searched. The scanner frames, copies and stays inside of complete
  messages; the push service delivers what it frames and stays inside of its buffers on the CC3200, and on Unix unless its reads fill the buffer; the
  bridge is a queue; a request that fits is built, sent and answered, and the application is called
  exactly once; percent encoding can be undone. The arrays of the client keep their type under every
  sequence of calls, registering and a push session from its start on stay within their arrays, a registration
  stores what the server answers, and a session survives a restart, on the CC3200 and on Unix. Where the code does not do what it means to, a
  theorem says what it does: past the last section of the menu, after hidden rows, at the end of a
  text that ends with a key, at the end of a stream, with the ping clock, after messages that
  arrive without their newline or after a stray character, for a body that does not fit, for results that
  are cut off, for a handshake over old bytes, for ids that the device makes up, for a session token of the
  full length on Unix, for a connection that is closed and for a socket that has a problem there.

  Not modelled. The copies of the scripts for the second site are byte for byte the same files; jQuery
  and Zepto are third-party. Debug output is left out everywhere. Of \<^verbatim>\<open>unix/yun/utils.c\<close> the helpers that only the
  tests call are left out, of the tools of the Yun the parsing of their command lines, and of the Unix SDK the log
  and the clock. The samples are sequences of driver and library calls.
\<close>

section \<open>From the search field to the rows that show\<close>

text \<open>
  C1. On a site whose index is consistent, a search for a non-blank ASCII text never throws. Either
  some page of the selected section has the text's initial: then the results frame opens that page
  with the text as its query, the page, once loaded, shows exactly the rows whose name starts with
  the text (up to case and trailing spaces), and no other page of the section has a name that does.
  Or the frame opens \<open>nomatches.html\<close>, and no name of the section starts with the text.
\<close>

theorem search_end_to_end:
  assumes site: "site_ok st" and h: "host_ok h"
    and cs: "map_of (indexSectionsWithContent st) (searchIndex sb) = Some cs"
    and nm: "map_of (indexSectionNames st) (searchIndex sb) = Some nm"
    and q: "strip_leading (fieldValue pg) = q" "q \<noteq> []" "ascii q"
  shows "\<exists>sb' pg'. SearchBox_Search h st g (sb, pg) = ((sb', pg'), None) \<and>
    st_display (resultsWindow pg') = js ''block'' \<and>
    ((\<exists>j es sr doc. j < length cs \<and> map_of (pages st) (section_page nm j) = Some es \<and>
        frameLocation pg' = resultsPath sb @ js ''/'' @ js (section_page nm j) @ js ''.html'' @ 63 # escape q \<and>
        load_results h (map entry_of es) (63 # escape q) = Inr (True, sr, doc) \<and>
        (\<forall>k < length es. row_shown doc k \<longleftrightarrow> name_matches q (es ! k)) \<and>
        (\<forall>i es'. i < length cs \<and> i \<noteq> j \<and> map_of (pages st) (section_page nm i) = Some es' \<longrightarrow>
           (\<forall>x \<in> set es'. \<not> name_matches q x))) \<or>
     frameLocation pg' = resultsPath sb @ js ''/nomatches.html'' \<and>
     (\<forall>i es'. i < length cs \<and> map_of (pages st) (section_page nm i) = Some es' \<longrightarrow>
        (\<forall>x \<in> set es'. \<not> name_matches q x)))"
proof -
  obtain c r where cr: "q = c # r" and c: "c \<noteq> 32"
    using q strip_leading_Cons by (cases q) auto
  obtain nm' where sec: "map_of (indexSectionNames st) (searchIndex sb) = Some nm'" "length cs \<le> 16"
    "distinct cs" "list_all ascii_char cs"
    "\<And>j. j < length cs \<Longrightarrow> \<exists>es. map_of (pages st) (section_page nm' j) = Some es \<and> page_ok (cs ! j) es"
    by (rule site_ok_section [OF site cs]) blast
  then have page: "\<exists>es. map_of (pages st) (section_page nm j) = Some es \<and> page_ok (cs ! j) es" if "j < length cs" for j
    using that nm by simp
  have initial: "js cs ! i = ascii_lower c"
    if "i < length cs" "map_of (pages st) (section_page nm i) = Some es'" "x \<in> set es'" "name_matches q x" for i es' x
    using page [OF that(1)] page_ok_initial [of "cs ! i" es' x c r] that c cr by (auto simp: js_def)
  have addr: "results_address h st (sb\<lparr>keyTimeout := 0\<rparr>) q =
      Some (case indexOf (js cs) [ascii_lower c] of
              Some j \<Rightarrow> (resultsPath sb @ js ''/'' @ js (section_page nm j) @ js ''.html'',
                         resultsPath sb @ js ''/'' @ js (section_page nm j) @ js ''.html'' @ 63 # escape q)
            | None \<Rightarrow> (resultsPath sb @ js ''/nomatches.html'', resultsPath sb @ js ''/nomatches.html''))"
    using results_address_page [of h c r st "sb\<lparr>keyTimeout := 0\<rparr>" cs nm] h q(3) cs nm sec(2)
    by (simp add: cr split: option.split)
  have loc: "frameLocation (show_results g b p) = frameLocation p" for b p
    by (simp add: show_results_def Let_def)
  show ?thesis
  proof (cases "indexOf (js cs) [ascii_lower c]")
    case None
    then have "\<not> name_matches q x"
      if "i < length cs" "map_of (pages st) (section_page nm i) = Some es'" "x \<in> set es'" for i es' x
      using initial [OF that] that(1) nth_mem [of i "js cs"] by (metis indexOf_single_None length_js)
    with None addr q(1) show ?thesis
      by (auto simp: SearchBox_Search_def Let_def loc show_results_block)
  next
    case (Some j)
    then have j: "j < length cs" "js cs ! j = ascii_lower c"
      using indexOf_single_Some [OF Some] by simp_all
    then obtain es where es: "map_of (pages st) (section_page nm j) = Some es" "page_ok (cs ! j) es"
      using page by blast
    have "i = j" if "i < length cs" "js cs ! i = ascii_lower c" for i
      using sec(3) that j nth_eq_iff_index_eq [of "js cs" i j]
      by (simp add: js_def distinct_map inj_on_def of_char_unit_inject)
    then have "\<not> name_matches q x" if "i < length cs" "i \<noteq> j"
      "map_of (pages st) (section_page nm i) = Some es'" "x \<in> set es'" for i es' x
      using initial that by blast
    moreover obtain sr doc where "load_results h (map entry_of es) (63 # escape q) = Inr (True, sr, doc)"
      "\<forall>k < length es. row_shown doc k \<longleftrightarrow> name_matches q (es ! k)"
      using page_ok_load [OF h q(3) es(2)] by blast
    ultimately show ?thesis
      using Some addr q(1) j es(1)
      by (simp add: SearchBox_Search_def Let_def loc show_results_block) blast
  qed
qed

theorem search_end_to_end_witness:
  "\<exists>s. SearchBox_Search ascii_host html_site demo_geometry (demo_box 0, demo_page ''parseS'') = (s, None) \<and>
     st_display (resultsWindow (snd s)) = js ''block''"
proof -
  have "map_of (indexSectionsWithContent html_site) (searchIndex (demo_box 0)) = Some ''aciops''"
    "map_of (indexSectionNames html_site) (searchIndex (demo_box 0)) = Some ''all''"
    by (simp_all add: html_site_def html_indexSectionsWithContent_def html_indexSectionNames_def demo_box_def)
  moreover have "strip_leading (fieldValue (demo_page ''parseS'')) = js ''parseS''" "ascii (js ''parseS'')"
    by (simp_all add: demo_page_def strip_leading_def js_def ascii_def)
  ultimately show ?thesis
    using search_end_to_end [OF html_site_ok ascii_host_ok, of "demo_box 0" "''aciops''" "''all''"
        "demo_page ''parseS''" "js ''parseS''" demo_geometry] by auto
qed

end
